(* ===== verification/Xen_Prelude.thy ===== *)
theory Xen_Prelude
  imports Main "HOL-Library.Word" "HOL-Library.Monad_Syntax"
begin

text \<open>
  Shared ground of the development: the machine integer types, the C conventions for truth
  values and error codes, and the finite byte memory that the string routines and the microcode
  loaders read and write.

  \<^bold>\<open>Undefined behaviour.\<close> A result of type \<open>'a option\<close> is \<open>None\<close> where the C program has no
  defined behaviour: a load or a store through NULL or outside the mapped bytes, an index outside
  an array. An error the code reports itself is an ordinary return value (a negative \<open>int\<close>).

  \<^bold>\<open>Data model.\<close> The sources are written in the dialect of the VCC verifier: \<open>char\<close> has 8 bits,
  \<open>short\<close> 16, \<open>int\<close> 32, \<open>long long\<close> and pointers 64.
\<close>

unbundle bit_operations_syntax

named_theorems mem_simps \<open>loads, stores and blocks of the byte memory\<close>
named_theorems c_simps \<open>C conventions for truth values\<close>

type_synonym u8 = "8 word"
type_synonym u16 = "16 word"
type_synonym u32 = "32 word"
type_synonym u64 = "64 word"

section \<open>C conventions\<close>

text \<open>A C condition: zero is false, everything else is true; a comparison yields 0 or 1.\<close>

definition c_true :: "'a::len word \<Rightarrow> bool" where
  "c_true w \<longleftrightarrow> w \<noteq> 0"

definition of_bool_w :: "bool \<Rightarrow> 'a::len word" where
  "of_bool_w b = (if b then 1 else 0)"

lemma c_true_simps [simp, c_simps]:
  "\<not> c_true 0" "c_true 1" "c_true (of_bool_w b) = b"
  by (simp_all add: c_true_def of_bool_w_def)

text \<open>The error numbers; a function returns them negated, unless it says otherwise.\<close>

definition ENXIO :: int where "ENXIO = 6"
definition ENOMEM :: int where "ENOMEM = 12"
definition EFAULT :: int where "EFAULT = 14"
definition EEXIST :: int where "EEXIST = 17"
definition EINVAL :: int where "EINVAL = 22"
definition EOPNOTSUPP :: int where "EOPNOTSUPP = 95"

lemmas errnos = ENXIO_def ENOMEM_def EFAULT_def EEXIST_def EINVAL_def EOPNOTSUPP_def

lemma and_1_eq_0_iff [simp]: "w AND 1 = 0 \<longleftrightarrow> \<not> bit w 0" for w :: "'a::len word"
  by (simp add: bit_0 and_one_eq even_iff_mod_2_eq_zero)

lemma bit_imp_neq_0: "bit w n \<Longrightarrow> w \<noteq> 0" for w :: "'a::len word"
  by auto

text \<open>Widening an unsigned value keeps its number; comparisons read as comparisons of numbers.\<close>

named_theorems number_simps \<open>words compared as numbers\<close>

lemma uint_widen [number_simps]: "uint (ucast w :: u64) = uint w" for w :: u32
  by (simp add: uint_up_ucast is_up)

declare word_le_def [number_simps] word_less_def [number_simps]

lemma unat_plus_1: "w \<noteq> - 1 \<Longrightarrow> unat (w + 1) = Suc (unat w)"
  by (metis add.commute add_eq_0_iff unatSuc)

lemma less_plus_1: "w \<noteq> - 1 \<Longrightarrow> w < w + 1" for w :: "'a::len word"
  by (simp add: word_less_nat_alt unat_plus_1)

section \<open>Byte memory\<close>

text \<open>
  The address space is a finite array of bytes; an address is an index into it and address 0 is
  NULL, which is never mapped.
\<close>

type_synonym addr = nat
type_synonym mem = "u8 list"

abbreviation (input) NULL :: addr where "NULL \<equiv> 0"

definition load :: "mem \<Rightarrow> addr \<Rightarrow> u8 option" where
  "load m p = (if p \<noteq> NULL \<and> p < length m then Some (m ! p) else None)"

definition store :: "mem \<Rightarrow> addr \<Rightarrow> u8 \<Rightarrow> mem option" where
  "store m p b = (if p \<noteq> NULL \<and> p < length m then Some (m[p := b]) else None)"

text \<open>The \<open>n\<close> bytes at \<open>p\<close>, whether they are all mapped, and the memory with \<open>bs\<close> written at \<open>p\<close>.\<close>

definition bytes :: "mem \<Rightarrow> addr \<Rightarrow> nat \<Rightarrow> u8 list" where
  "bytes m p n = take n (drop p m)"

definition mapped :: "mem \<Rightarrow> addr \<Rightarrow> nat \<Rightarrow> bool" where
  "mapped m p n \<longleftrightarrow> p \<noteq> NULL \<and> p + n \<le> length m"

definition blit :: "mem \<Rightarrow> addr \<Rightarrow> u8 list \<Rightarrow> mem" where
  "blit m p bs = take p m @ bs @ drop (p + length bs) m"

text \<open>A NUL-terminated string with contents \<open>s\<close> (which holds no NUL) at \<open>p\<close>.\<close>

definition cstr_at :: "mem \<Rightarrow> addr \<Rightarrow> u8 list \<Rightarrow> bool" where
  "cstr_at m p s \<longleftrightarrow> p \<noteq> NULL \<and> 0 \<notin> set s \<and> bytes m p (Suc (length s)) = s @ [0]"

text \<open>Two blocks share no byte.\<close>

definition disjoint_blocks :: "addr \<Rightarrow> nat \<Rightarrow> addr \<Rightarrow> nat \<Rightarrow> bool" where
  "disjoint_blocks p n q k \<longleftrightarrow> p + n \<le> q \<or> q + k \<le> p"

subsection \<open>Loads and stores\<close>

lemma load_Some_iff: "load m p = Some b \<longleftrightarrow> p \<noteq> NULL \<and> p < length m \<and> b = m ! p"
  by (auto simp: load_def)

lemma store_Some_iff: "store m p b = Some m' \<longleftrightarrow> p \<noteq> NULL \<and> p < length m \<and> m' = m[p := b]"
  by (auto simp: store_def)

lemma store_length: "store m p b = Some m' \<Longrightarrow> length m' = length m"
  by (auto simp: store_Some_iff)

lemma load_lt: "load m p = Some b \<Longrightarrow> p < length m"
  by (simp add: load_Some_iff)

lemma load_mapped [mem_simps]: "mapped m p (Suc n) \<Longrightarrow> load m p = Some (m ! p)"
  by (simp add: load_def mapped_def)

lemma store_mapped [mem_simps]: "mapped m p (Suc n) \<Longrightarrow> store m p b = Some (m[p := b])"
  by (simp add: store_def mapped_def)

lemma mapped_step [mem_simps]: "mapped m p (Suc n) \<Longrightarrow> mapped m (Suc p) n"
  by (simp add: mapped_def)

lemma mapped_update [mem_simps, simp]: "mapped (m[i := b]) p n = mapped m p n"
  by (simp add: mapped_def)

lemma mapped_mono: "mapped m p n \<Longrightarrow> k \<le> n \<Longrightarrow> mapped m p k"
  by (simp add: mapped_def)

text \<open>Little-endian reads of wider integers; the sources run on x86.\<close>

definition load16 :: "mem \<Rightarrow> addr \<Rightarrow> u16 option" where
  "load16 m p = do {
     b0 \<leftarrow> load m p;
     b1 \<leftarrow> load m (p + 1);
     Some (ucast b0 OR push_bit 8 (ucast b1)) }"

definition load32 :: "mem \<Rightarrow> addr \<Rightarrow> u32 option" where
  "load32 m p = do {
     b0 \<leftarrow> load m p;
     b1 \<leftarrow> load m (p + 1);
     b2 \<leftarrow> load m (p + 2);
     b3 \<leftarrow> load m (p + 3);
     Some (ucast b0 OR push_bit 8 (ucast b1) OR push_bit 16 (ucast b2) OR push_bit 24 (ucast b3)) }"

lemma load32_outside: "length m \<le> p \<Longrightarrow> load32 m p = None"
  by (simp add: load32_def load_def)

lemma load32_mapped: "load32 m p = Some w \<Longrightarrow> mapped m p 4"
  by (auto simp: load32_def bind_eq_Some_conv load_Some_iff mapped_def)

lemma load32_NULL [simp]: "load32 m NULL = None"
  by (simp add: load32_def load_def)

text \<open>The value a defined read of 32 bits has.\<close>

definition word_at :: "mem \<Rightarrow> addr \<Rightarrow> u32" where
  "word_at m p = ucast (m ! p) OR push_bit 8 (ucast (m ! (p + 1))) OR
     push_bit 16 (ucast (m ! (p + 2))) OR push_bit 24 (ucast (m ! (p + 3)))"

lemma load32_word_at [mem_simps]: "mapped m p 4 \<Longrightarrow> load32 m p = Some (word_at m p)"
  by (simp add: load32_def word_at_def load_def mapped_def)

text \<open>Little-endian writes of 32 bits.\<close>

definition word_bytes :: "u32 \<Rightarrow> u8 list" where
  "word_bytes w = [ucast w, ucast (drop_bit 8 w), ucast (drop_bit 16 w), ucast (drop_bit 24 w)]"

definition store32 :: "mem \<Rightarrow> addr \<Rightarrow> u32 \<Rightarrow> mem option" where
  "store32 m p w = do {
     m \<leftarrow> store m p (ucast w);
     m \<leftarrow> store m (p + 1) (ucast (drop_bit 8 w));
     m \<leftarrow> store m (p + 2) (ucast (drop_bit 16 w));
     store m (p + 3) (ucast (drop_bit 24 w)) }"

lemma store32_NULL [simp]: "store32 m NULL w = None"
  by (simp add: store32_def store_def)

subsection \<open>Blocks\<close>

lemma bytes_0 [simp]: "bytes m p 0 = []"
  by (simp add: bytes_def)

lemma length_bytes [mem_simps]: "mapped m p n \<Longrightarrow> length (bytes m p n) = n"
  by (auto simp: bytes_def mapped_def)

lemma bytes_nth: "i < n \<Longrightarrow> mapped m p n \<Longrightarrow> bytes m p n ! i = m ! (p + i)"
  by (simp add: bytes_def mapped_def)

lemma bytes_Suc [mem_simps]:
  "mapped m p (Suc n) \<Longrightarrow> bytes m p (Suc n) = m ! p # bytes m (Suc p) n"
  by (simp add: bytes_def mapped_def flip: Cons_nth_drop_Suc)

lemma bytes_append: "bytes m p (n + k) = bytes m p n @ bytes m (p + n) k"
  by (simp add: bytes_def take_add add.commute [of k n] add.commute [of p n])

lemma bytes_update_outside [mem_simps]:
  "i < p \<or> p + n \<le> i \<Longrightarrow> bytes (m[i := b]) p n = bytes m p n"
  by (auto simp: bytes_def drop_update_swap take_update_swap intro!: list_update_beyond)

lemma bytes_eq_iff:
  "mapped m p n \<Longrightarrow> mapped m' q n \<Longrightarrow>
   bytes m p n = bytes m' q n \<longleftrightarrow> (\<forall>i<n. m ! (p + i) = m' ! (q + i))"
  by (simp add: list_eq_iff_nth_eq length_bytes bytes_nth)

lemma bytes_take: "k \<le> n \<Longrightarrow> take k (bytes m p n) = bytes m p k"
  by (simp add: bytes_def min_absorb1)

lemma bytes_drop: "drop k (bytes m p n) = bytes m (p + k) (n - k)"
  by (simp add: bytes_def drop_take add.commute)

subsection \<open>Writing a block\<close>

lemma blit_Nil [simp]: "blit m p [] = m"
  by (simp add: blit_def)

lemma length_blit [simp]: "p + length bs \<le> length m \<Longrightarrow> length (blit m p bs) = length m"
  by (simp add: blit_def)

lemma blit_nth:
  "p + length bs \<le> length m \<Longrightarrow> i < length m \<Longrightarrow>
   blit m p bs ! i = (if p \<le> i \<and> i < p + length bs then bs ! (i - p) else m ! i)"
  by (auto simp: blit_def nth_append min_def)

lemma mapped_blit: "p + length bs \<le> length m \<Longrightarrow> mapped (blit m p bs) q n = mapped m q n"
  by (simp add: mapped_def)

lemma blit_Cons:
  assumes "p + Suc (length bs) \<le> length m"
  shows "blit (m[p := b]) (Suc p) bs = blit m p (b # bs)"
  using assms by (intro nth_equalityI) (auto simp: blit_nth nth_list_update nth_Cons')

lemma bytes_blit_same:
  "p + length bs \<le> length m \<Longrightarrow> bytes (blit m p bs) p (length bs) = bs"
  by (simp add: bytes_def blit_def)

lemma bytes_blit_other:
  assumes "p + length bs \<le> length m" "mapped m q n" "disjoint_blocks p (length bs) q n"
  shows "bytes (blit m p bs) q n = bytes m q n"
  using assms
  by (auto simp: bytes_eq_iff mapped_blit blit_nth disjoint_blocks_def mapped_def)

lemma mapped_inside: "mapped m p n \<Longrightarrow> i + k \<le> n \<Longrightarrow> mapped m (p + i) k"
  by (simp add: mapped_def)

lemma length_word_bytes [simp]: "length (word_bytes w) = 4"
  by (simp add: word_bytes_def)

lemma store32_blit [mem_simps]: "mapped m p 4 \<Longrightarrow> store32 m p w = Some (blit m p (word_bytes w))"
proof -
  assume "mapped m p 4"
  then have p: "p \<noteq> NULL" "p + 4 \<le> length m" by (simp_all add: mapped_def)
  then have "m[p := ucast w, p + 1 := ucast (drop_bit 8 w), p + 2 := ucast (drop_bit 16 w),
      p + 3 := ucast (drop_bit 24 w)] = blit m p (word_bytes w)"
    by (intro nth_equalityI) (auto simp: blit_nth word_bytes_def nth_list_update nth_Cons' numeral_eq_Suc)
  with p show ?thesis by (simp add: store32_def store_def)
qed

lemma word_at_stored:
  assumes "mapped m p 4"
  shows "word_at (blit m p (word_bytes w)) p = w"
proof -
  have "blit m p (word_bytes w) ! (p + k) = word_bytes w ! k" if "k < 4" for k
    using assms that by (simp add: blit_nth mapped_def)
  from this [of 0] this [of 1] this [of 2] this [of 3]
  have "word_at (blit m p (word_bytes w)) p = ucast (ucast w :: u8) OR push_bit 8 (ucast (ucast (drop_bit 8 w) :: u8)) OR
      push_bit 16 (ucast (ucast (drop_bit 16 w) :: u8)) OR push_bit 24 (ucast (ucast (drop_bit 24 w) :: u8))"
    by (simp add: word_at_def word_bytes_def numeral_eq_Suc)
  also have "\<dots> = w"
    by (rule bit_word_eqI, rename_tac n, case_tac "24 \<le> n", case_tac [2] "16 \<le> n") (auto simp: bit_simps)
  finally show ?thesis .
qed

text \<open>Two blocks with the same bytes have the same words.\<close>

lemma word_at_same:
  assumes "bytes m p n = bytes m' q n" "mapped m p n" "mapped m' q n" "i + 4 \<le> n"
  shows "word_at m (p + i) = word_at m' (q + i)"
proof -
  have "m ! (p + i + k) = m' ! (q + i + k)" if "k < 4" for k
    using assms that by (simp add: bytes_eq_iff add.assoc)
  from this [of 0] this [of 1] this [of 2] this [of 3] show ?thesis by (simp add: word_at_def)
qed

lemma word_at_other:
  assumes "mapped m p 4" "mapped m q 4" "disjoint_blocks p 4 q 4"
  shows "word_at (blit m p (word_bytes w)) q = word_at m q"
  using word_at_same [of "blit m p (word_bytes w)" q 4 m q 0] bytes_blit_other [of p "word_bytes w" m q 4] assms
  by (simp add: mapped_blit) (simp add: mapped_def)

text \<open>A copy leaves every disjoint block alone, and puts its source into its destination.\<close>

lemma bytes_copy:
  assumes "mapped m dest n" "mapped m src n"
  shows "bytes (blit m dest (bytes m src n)) dest n = bytes m src n"
  using bytes_blit_same [of dest "bytes m src n" m] assms by (simp add: length_bytes mapped_def)

lemma bytes_copy_other:
  assumes "mapped m dest n" "mapped m src n" "mapped m q k" "disjoint_blocks dest n q k"
  shows "bytes (blit m dest (bytes m src n)) q k = bytes m q k"
  using assms by (intro bytes_blit_other) (simp_all add: length_bytes mapped_def)

lemma mapped_copy [simp]:
  assumes "mapped m dest n" "mapped m src n"
  shows "mapped (blit m dest (bytes m src n)) q k = mapped m q k"
    "length (blit m dest (bytes m src n)) = length m"
  using assms by (simp_all add: mapped_blit length_bytes mapped_def)

subsection \<open>Strings\<close>

lemma cstr_at_mapped: "cstr_at m p s \<Longrightarrow> mapped m p (Suc (length s))"
proof -
  assume s: "cstr_at m p s"
  then have "length (bytes m p (Suc (length s))) = Suc (length s)"
    by (simp add: cstr_at_def)
  then have "p + Suc (length s) \<le> length m"
    by (simp add: bytes_def)
  with s show ?thesis by (simp add: mapped_def cstr_at_def)
qed

lemma cstr_at_Nil_iff: "cstr_at m p [] \<longleftrightarrow> mapped m p 1 \<and> m ! p = 0"
proof
  assume s: "cstr_at m p []"
  from cstr_at_mapped [OF s] show "mapped m p 1 \<and> m ! p = 0"
    using s by (simp add: cstr_at_def mem_simps)
next
  assume "mapped m p 1 \<and> m ! p = 0"
  then show "cstr_at m p []" by (simp add: cstr_at_def mem_simps) (simp add: mapped_def)
qed

lemma cstr_at_Cons_iff:
  "cstr_at m p (c # s) \<longleftrightarrow> mapped m p 1 \<and> m ! p = c \<and> c \<noteq> 0 \<and> cstr_at m (Suc p) s"
proof
  assume s: "cstr_at m p (c # s)"
  from cstr_at_mapped [OF s] show "mapped m p 1 \<and> m ! p = c \<and> c \<noteq> 0 \<and> cstr_at m (Suc p) s"
    using s by (auto simp: cstr_at_def mem_simps mapped_def)
next
  assume a: "mapped m p 1 \<and> m ! p = c \<and> c \<noteq> 0 \<and> cstr_at m (Suc p) s"
  then have "mapped m p (Suc (Suc (length s)))"
    using cstr_at_mapped [of m "Suc p" s] by (auto simp: mapped_def)
  with a show "cstr_at m p (c # s)"
    by (auto simp: cstr_at_def mem_simps mapped_def)
qed

lemmas cstr_at_iffs = cstr_at_Nil_iff cstr_at_Cons_iff

lemma cstr_at_bytes: "cstr_at m p s \<Longrightarrow> bytes m p (length s) = s"
proof -
  assume s: "cstr_at m p s"
  have "bytes m p (length s) = take (length s) (bytes m p (Suc (length s)))"
    by (simp add: bytes_take)
  with s show ?thesis by (simp add: cstr_at_def)
qed

lemma cstr_at_bytes_Suc: "cstr_at m p s \<Longrightarrow> bytes m p (Suc (length s)) = s @ [0]"
  by (simp add: cstr_at_def)

lemma cstr_at_blit_same:
  "p \<noteq> NULL \<Longrightarrow> 0 \<notin> set s \<Longrightarrow> p + Suc (length s) \<le> length m \<Longrightarrow>
   cstr_at (blit m p (s @ [0])) p s"
  using bytes_blit_same [of p "s @ [0]" m] by (simp add: cstr_at_def)

end
