(* ===== verification/C_String.thy ===== *)
theory C_String
  imports Xen_Prelude
begin

text \<open>
  The memory and string routines of string_verified.c over the byte memory: each loop is a
  recursive function over the loop's variables, each routine returns its C result, and, where it
  writes, the new memory. \<open>None\<close> is an access outside the mapped bytes. \<open>size_t\<close> counters are
  \<open>nat\<close>: the code only counts them down to zero or bounds them by a string length.
\<close>

named_theorems cstr_specs \<open>what each string routine computes\<close>

section \<open>Comparison\<close>

text \<open>
  \<open>res\<close> is a \<open>signed char\<close>: the difference of two bytes is truncated to 8 bits and read back as a
  signed value.
\<close>

fun memcmp_loop :: "mem \<Rightarrow> addr \<Rightarrow> addr \<Rightarrow> nat \<Rightarrow> u8 \<Rightarrow> u8 option" where
  "memcmp_loop m su1 su2 0 res = Some res"
| "memcmp_loop m su1 su2 (Suc count) res = do {
     a \<leftarrow> load m su1;
     b \<leftarrow> load m su2;
     let res' = a - b;
     if res' \<noteq> 0 then Some res' else memcmp_loop m (su1 + 1) (su2 + 1) count res' }"

definition memcmp :: "mem \<Rightarrow> addr \<Rightarrow> addr \<Rightarrow> nat \<Rightarrow> int option" where
  "memcmp m cs ct count = map_option sint (memcmp_loop m cs ct count 0)"

fun strncmp_loop :: "mem \<Rightarrow> addr \<Rightarrow> addr \<Rightarrow> nat \<Rightarrow> u8 \<Rightarrow> u8 option" where
  "strncmp_loop m cs ct 0 res = Some res"
| "strncmp_loop m cs ct (Suc count) res = do {
     a \<leftarrow> load m cs;
     b \<leftarrow> load m ct;
     let res' = a - b;
     if res' \<noteq> 0 \<or> a = 0 then Some res'
     else strncmp_loop m (cs + 1) (ct + 1) count res' }"

definition strncmp :: "mem \<Rightarrow> addr \<Rightarrow> addr \<Rightarrow> nat \<Rightarrow> int option" where
  "strncmp m cs ct count = map_option sint (strncmp_loop m cs ct count 0)"

function strcmp_loop :: "mem \<Rightarrow> addr \<Rightarrow> addr \<Rightarrow> u8 option" where
  "strcmp_loop m cs ct = do {
     a \<leftarrow> load m cs;
     b \<leftarrow> load m ct;
     let res = a - b;
     if res \<noteq> 0 \<or> a = 0 then Some res else strcmp_loop m (cs + 1) (ct + 1) }"
  by pat_completeness auto
termination
  by (relation "measure (\<lambda>(m, cs, ct). length m - cs)") (auto dest: load_lt)

declare strcmp_loop.simps [simp del]

definition strcmp :: "mem \<Rightarrow> addr \<Rightarrow> addr \<Rightarrow> int option" where
  "strcmp m cs ct = map_option sint (strcmp_loop m cs ct)"

section \<open>Copying and filling\<close>

fun memcpy_loop :: "mem \<Rightarrow> addr \<Rightarrow> addr \<Rightarrow> nat \<Rightarrow> mem option" where
  "memcpy_loop m tmp s 0 = Some m"
| "memcpy_loop m tmp s (Suc count) = do {
     c \<leftarrow> load m s;
     m' \<leftarrow> store m tmp c;
     memcpy_loop m' (tmp + 1) (s + 1) count }"

definition memcpy :: "mem \<Rightarrow> addr \<Rightarrow> addr \<Rightarrow> nat \<Rightarrow> (addr \<times> mem) option" where
  "memcpy m dest src count = map_option (Pair dest) (memcpy_loop m dest src count)"

function strcpy_loop :: "mem \<Rightarrow> addr \<Rightarrow> addr \<Rightarrow> mem option" where
  "strcpy_loop m dest src = do {
     c \<leftarrow> load m src;
     m' \<leftarrow> store m dest c;
     if c = 0 then Some m' else strcpy_loop m' (dest + 1) (src + 1) }"
  by pat_completeness auto
termination
  by (relation "measure (\<lambda>(m, dest, src). length m - src)") (auto dest!: load_lt store_length)

declare strcpy_loop.simps [simp del]

definition strcpy :: "mem \<Rightarrow> addr \<Rightarrow> addr \<Rightarrow> (addr \<times> mem) option" where
  "strcpy m dest src = map_option (Pair dest) (strcpy_loop m dest src)"

fun strncpy_loop :: "mem \<Rightarrow> addr \<Rightarrow> addr \<Rightarrow> nat \<Rightarrow> mem option" where
  "strncpy_loop m dest src 0 = Some m"
| "strncpy_loop m dest src (Suc count) = do {
     c \<leftarrow> load m src;
     m' \<leftarrow> store m dest c;
     if c = 0 then Some m' else strncpy_loop m' (dest + 1) (src + 1) count }"

definition strncpy :: "mem \<Rightarrow> addr \<Rightarrow> addr \<Rightarrow> nat \<Rightarrow> (addr \<times> mem) option" where
  "strncpy m dest src count = map_option (Pair dest) (strncpy_loop m dest src count)"

fun memset_loop :: "mem \<Rightarrow> addr \<Rightarrow> u8 \<Rightarrow> nat \<Rightarrow> mem option" where
  "memset_loop m xs c 0 = Some m"
| "memset_loop m xs c (Suc count) = do {
     m' \<leftarrow> store m xs c;
     memset_loop m' (xs + 1) c count }"

definition memset :: "mem \<Rightarrow> addr \<Rightarrow> u32 \<Rightarrow> nat \<Rightarrow> (addr \<times> mem) option" where
  "memset m s c count = map_option (Pair s) (memset_loop m s (ucast c) count)"

section \<open>Lengths\<close>

fun strnlen_loop :: "mem \<Rightarrow> addr \<Rightarrow> nat \<Rightarrow> addr option" where
  "strnlen_loop m sc 0 = Some sc"
| "strnlen_loop m sc (Suc count) = do {
     c \<leftarrow> load m sc;
     if c = 0 then Some sc else strnlen_loop m (sc + 1) count }"

definition strnlen :: "mem \<Rightarrow> addr \<Rightarrow> nat \<Rightarrow> nat option" where
  "strnlen m s count = map_option (\<lambda>sc. sc - s) (strnlen_loop m s count)"

text \<open>The scan for the terminator, in \<open>strlen\<close> and at the head of \<open>strcat\<close>.\<close>

function strend_loop :: "mem \<Rightarrow> addr \<Rightarrow> addr option" where
  "strend_loop m sc = do {
     c \<leftarrow> load m sc;
     if c = 0 then Some sc else strend_loop m (sc + 1) }"
  by pat_completeness auto
termination
  by (relation "measure (\<lambda>(m, sc). length m - sc)") (auto dest: load_lt)

declare strend_loop.simps [simp del]

definition strlen :: "mem \<Rightarrow> addr \<Rightarrow> nat option" where
  "strlen m s = map_option (\<lambda>sc. sc - s) (strend_loop m s)"

definition strcat :: "mem \<Rightarrow> addr \<Rightarrow> addr \<Rightarrow> (addr \<times> mem) option" where
  "strcat m dest src = do {
     e \<leftarrow> strend_loop m dest;
     m' \<leftarrow> strcpy_loop m e src;
     Some (dest, m') }"

section \<open>Searching\<close>

function strchr_loop :: "mem \<Rightarrow> addr \<Rightarrow> u8 \<Rightarrow> addr option" where
  "strchr_loop m s c = do {
     b \<leftarrow> load m s;
     if b = c then Some s
     else if b = 0 then Some NULL
     else strchr_loop m (s + 1) c }"
  by pat_completeness auto
termination
  by (relation "measure (\<lambda>(m, s, c). length m - s)") (auto dest: load_lt)

declare strchr_loop.simps [simp del]

definition strchr :: "mem \<Rightarrow> addr \<Rightarrow> u32 \<Rightarrow> addr option" where
  "strchr m s c = strchr_loop m s (ucast c)"

function strrchr_loop :: "mem \<Rightarrow> addr \<Rightarrow> u8 \<Rightarrow> addr \<Rightarrow> addr option" where
  "strrchr_loop m s c res = do {
     b \<leftarrow> load m s;
     let res' = (if b = c then s else res);
     if b = 0 then Some res' else strrchr_loop m (s + 1) c res' }"
  by pat_completeness auto
termination
  by (relation "measure (\<lambda>(m, s, c, res). length m - s)") (auto dest: load_lt)

declare strrchr_loop.simps [simp del]

definition strrchr :: "mem \<Rightarrow> addr \<Rightarrow> u32 \<Rightarrow> addr option" where
  "strrchr m s c = strrchr_loop m s (ucast c) NULL"

lemma memcmp_0: "memcmp m p q 0 = Some 0"
  by (simp add: memcmp_def)

function strstr_loop :: "mem \<Rightarrow> addr \<Rightarrow> addr \<Rightarrow> nat \<Rightarrow> nat \<Rightarrow> addr option" where
  "strstr_loop m s1 s2 l2 l1 =
     (if l1 \<ge> l2 then do {
        let l1' = l1 - 1;
        r \<leftarrow> memcmp m s1 s2 l2;
        if r = 0 then Some s1 else strstr_loop m (s1 + 1) s2 l2 l1' }
      else Some NULL)"
  by pat_completeness auto
termination
proof (relation "measure (\<lambda>(m, s1, s2, l2, l1). l1)")
  fix m s1 s2 and l2 l1 l1' :: nat and r :: int
  assume "l2 \<le> l1" "l1' = l1 - 1" "memcmp m s1 s2 l2 = Some r" "r \<noteq> 0"
  then show "((m, s1 + 1, s2, l2, l1'), m, s1, s2, l2, l1) \<in> measure (\<lambda>(m, s1, s2, l2, l1). l1)"
    by (cases l2) (auto simp: memcmp_0)
qed (rule wf_measure)

declare strstr_loop.simps [simp del]

definition strstr :: "mem \<Rightarrow> addr \<Rightarrow> addr \<Rightarrow> addr option" where
  "strstr m s1 s2 = do {
     l2 \<leftarrow> strlen m s2;
     if l2 = 0 then Some s1
     else do {
       l1 \<leftarrow> strlen m s1;
       strstr_loop m s1 s2 l2 l1 } }"

text \<open>\<open>malloc\<close> is not part of the sources: it is a parameter, given the memory and the size.\<close>

definition strdup :: "(mem \<Rightarrow> nat \<Rightarrow> addr) \<Rightarrow> mem \<Rightarrow> addr \<Rightarrow> (addr \<times> mem) option" where
  "strdup malloc m x = do {
     l \<leftarrow> strlen m x;
     let res = malloc m (l + 1);
     if res = NULL then Some (NULL, m)
     else do {
       (_, m') \<leftarrow> memcpy m res x (l + 1);
       Some (res, m') } }"

section \<open>Block comparison\<close>

text \<open>
  What \<open>strstr\<close> needs from \<open>memcmp\<close>: a comparison that returns on mapped blocks, with 0 exactly
  when they are equal.
\<close>

definition occurs_at :: "'a list \<Rightarrow> 'a list \<Rightarrow> nat \<Rightarrow> bool" where
  "occurs_at t s k \<longleftrightarrow> k + length t \<le> length s \<and> take (length t) (drop k s) = t"

locale block_compare =
  fixes cmp :: "mem \<Rightarrow> addr \<Rightarrow> addr \<Rightarrow> nat \<Rightarrow> int option"
  assumes cmp_total: "mapped m p n \<Longrightarrow> mapped m q n \<Longrightarrow> \<exists>r. cmp m p q n = Some r"
    and cmp_zero: "mapped m p n \<Longrightarrow> mapped m q n \<Longrightarrow> cmp m p q n = Some r \<Longrightarrow>
      r = 0 \<longleftrightarrow> bytes m p n = bytes m q n"
begin

lemma cmp_window:
  assumes p: "cstr_at m p s" and q: "cstr_at m q t" and k: "k + length t \<le> length s"
  obtains r where "cmp m (p + k) q (length t) = Some r" "r = 0 \<longleftrightarrow> occurs_at t s k"
proof -
  have mp: "mapped m (p + k) (length t)" and mq: "mapped m q (length t)"
    using cstr_at_mapped [OF p] cstr_at_mapped [OF q] k by (auto simp: mapped_def)
  obtain r where r: "cmp m (p + k) q (length t) = Some r"
    using cmp_total [OF mp mq] by blast
  have "bytes m (p + k) (length t) = take (length t) (drop k (bytes m p (length s)))"
    using k by (simp add: bytes_drop bytes_take)
  then have "r = 0 \<longleftrightarrow> occurs_at t s k"
    using cmp_zero [OF mp mq r] cstr_at_bytes [OF p] cstr_at_bytes [OF q] k
    by (simp add: occurs_at_def)
  with r show ?thesis by (rule that)
qed

end

lemma memcmp_loop_equal:
  "mapped m p n \<Longrightarrow> mapped m q n \<Longrightarrow>
   \<exists>r. memcmp_loop m p q n 0 = Some r \<and> (r = 0 \<longleftrightarrow> bytes m p n = bytes m q n)"
proof (induction n arbitrary: p q)
  case (Suc n)
  then have "\<exists>r. memcmp_loop m (Suc p) (Suc q) n 0 = Some r \<and>
      (r = 0 \<longleftrightarrow> bytes m (Suc p) n = bytes m (Suc q) n)"
    by (intro Suc.IH mapped_step)
  with Suc.prems show ?case by (auto simp: mem_simps Let_def)
qed simp

interpretation memcmp: block_compare memcmp
proof
  fix m p q n and r :: int
  assume "mapped m p n" "mapped m q n"
  then obtain w where w: "memcmp_loop m p q n 0 = Some w" "w = 0 \<longleftrightarrow> bytes m p n = bytes m q n"
    using memcmp_loop_equal by blast
  show "\<exists>r. memcmp m p q n = Some r" by (simp add: memcmp_def w)
  assume "memcmp m p q n = Some r"
  with w show "r = 0 \<longleftrightarrow> bytes m p n = bytes m q n"
    by (auto simp: memcmp_def signed_eq_0_iff)
qed

text \<open>At the first difference the result is the difference of the two bytes, as a signed char.\<close>

lemma memcmp_loop_first_difference:
  "k < n \<Longrightarrow> mapped m p n \<Longrightarrow> mapped m q n \<Longrightarrow> bytes m p k = bytes m q k \<Longrightarrow>
   m ! (p + k) \<noteq> m ! (q + k) \<Longrightarrow> memcmp_loop m p q n res = Some (m ! (p + k) - m ! (q + k))"
proof (induction k arbitrary: p q n res)
  case 0
  then obtain n' where "n = Suc n'" by (cases n) auto
  with 0 show ?case by (simp add: mem_simps Let_def)
next
  case (Suc k)
  then obtain n' where n: "n = Suc n'" by (cases n) auto
  have "mapped m p (Suc k)" "mapped m q (Suc k)"
    using Suc.prems n by (auto elim: mapped_mono)
  then have "m ! p = m ! q" "bytes m (Suc p) k = bytes m (Suc q) k"
    using Suc.prems by (simp_all add: mem_simps)
  then show ?case
    using Suc.prems n Suc.IH [of n' "Suc p" "Suc q"] by (simp add: mem_simps Let_def)
qed

text \<open>For bytes below 128 the signed difference is the difference.\<close>

lemma sint_byte_diff:
  fixes a b :: u8
  assumes "a < 128" "b < 128"
  shows "sint (a - b) = uint a - uint b"
proof -
  have u: "uint a < 128" "uint b < 128" "0 \<le> uint a" "0 \<le> uint b"
    using assms by (simp_all add: word_less_def)
  moreover from u have "- 128 \<le> uint a" "- 128 \<le> uint b" by linarith+
  ultimately have "sint a = uint a" "sint b = uint b"
    by (simp_all add: sint_uint signed_take_bit_int_eq_self_iff)
  moreover have "- 128 \<le> uint a - uint b" "uint a - uint b < 128"
    using u by linarith+
  ultimately show ?thesis
    unfolding sint_word_diff by (simp add: signed_take_bit_int_eq_self_iff)
qed

section \<open>String comparison\<close>

lemma strcmp_loop_equal:
  "cstr_at m p s \<Longrightarrow> cstr_at m q t \<Longrightarrow> \<exists>r. strcmp_loop m p q = Some r \<and> (r = 0 \<longleftrightarrow> s = t)"
proof (induction s arbitrary: t p q)
  case Nil
  then show ?case
    by (cases t) (auto simp: cstr_at_iffs strcmp_loop.simps [of m p q] mem_simps Let_def)
next
  case (Cons c s)
  show ?case
  proof (cases t)
    case Nil
    with Cons.prems show ?thesis
      by (auto simp: cstr_at_iffs strcmp_loop.simps [of m p q] mem_simps Let_def)
  next
    case (Cons d u)
    with Cons.IH [of "Suc p" "Suc q" u] Cons.prems show ?thesis
      by (auto simp: cstr_at_iffs strcmp_loop.simps [of m p q] mem_simps Let_def)
  qed
qed

lemma strncmp_loop_equal:
  "cstr_at m p s \<Longrightarrow> cstr_at m q t \<Longrightarrow>
   \<exists>r. strncmp_loop m p q n 0 = Some r \<and> (r = 0 \<longleftrightarrow> take n s = take n t)"
proof (induction n arbitrary: s t p q)
  case (Suc n)
  show ?case
  proof (cases s; cases t)
    fix c s' d t' assume "s = c # s'" "t = d # t'"
    with Suc.IH [of "Suc p" s' "Suc q" t'] Suc.prems show ?thesis
      by (auto simp: cstr_at_iffs mem_simps Let_def)
  qed (use Suc.prems in \<open>auto simp: cstr_at_iffs mem_simps Let_def\<close>)
qed simp

section \<open>Copying and filling\<close>

text \<open>
  Copying upwards is right whenever the destination does not start inside the source, behind its
  first byte: for disjoint blocks, and for a move towards lower addresses.
\<close>

definition copy_ok :: "addr \<Rightarrow> addr \<Rightarrow> nat \<Rightarrow> bool" where
  "copy_ok dest src n \<longleftrightarrow> dest \<le> src \<or> src + n \<le> dest"

lemma copy_ok_disjoint: "disjoint_blocks dest n src n \<Longrightarrow> copy_ok dest src n"
  by (auto simp: copy_ok_def disjoint_blocks_def)

lemma memcpy_loop_blit:
  "mapped m dest n \<Longrightarrow> mapped m src n \<Longrightarrow> copy_ok dest src n \<Longrightarrow>
   memcpy_loop m dest src n = Some (blit m dest (bytes m src n))"
proof (induction n arbitrary: m dest src)
  case (Suc n)
  let ?m = "m[dest := m ! src]"
  have "bytes ?m (Suc src) n = bytes m (Suc src) n"
    using Suc.prems(3) by (intro bytes_update_outside) (auto simp: copy_ok_def)
  moreover have "memcpy_loop ?m (Suc dest) (Suc src) n =
      Some (blit ?m (Suc dest) (bytes ?m (Suc src) n))"
    using Suc.prems by (intro Suc.IH) (auto simp: mem_simps copy_ok_def)
  moreover have "blit ?m (Suc dest) (bytes m (Suc src) n) = blit m dest (bytes m src (Suc n))"
    using Suc.prems
    by (subst blit_Cons) (auto simp: mem_simps length_bytes [OF mapped_step] mapped_def)
  ultimately show ?case using Suc.prems by (simp add: mem_simps)
qed simp

text \<open>\<open>strcpy\<close> is \<open>memcpy\<close> of the string with its terminator; \<open>strncpy\<close> stops early.\<close>

lemma cstr_at_update:
  "cstr_at m p s \<Longrightarrow> i < p \<or> p + length s < i \<Longrightarrow> cstr_at (m[i := b]) p s"
  by (simp add: cstr_at_def bytes_update_outside less_eq_Suc_le)

lemma strcpy_loop_memcpy:
  "cstr_at m src s \<Longrightarrow> mapped m dest (Suc (length s)) \<Longrightarrow> copy_ok dest src (Suc (length s)) \<Longrightarrow>
   strcpy_loop m dest src = memcpy_loop m dest src (Suc (length s))"
proof (induction s arbitrary: m dest src)
  case Nil
  then show ?case
    by (auto simp: cstr_at_iffs mem_simps strcpy_loop.simps [of m dest src])
next
  case (Cons c s)
  let ?m = "m[dest := m ! src]"
  have "cstr_at ?m (Suc src) s"
    using Cons.prems by (intro cstr_at_update) (auto simp: cstr_at_iffs copy_ok_def)
  then have "strcpy_loop ?m (Suc dest) (Suc src) = memcpy_loop ?m (Suc dest) (Suc src) (Suc (length s))"
    using Cons.prems by (intro Cons.IH) (auto simp: mem_simps copy_ok_def)
  with Cons.prems show ?case
    using cstr_at_mapped [OF Cons.prems(1)]
    by (auto simp: cstr_at_iffs mem_simps strcpy_loop.simps [of m dest src])
qed

lemma strcpy_loop_blit [cstr_specs]:
  assumes "cstr_at m src s" "mapped m dest (Suc (length s))" "copy_ok dest src (Suc (length s))"
  shows "strcpy_loop m dest src = Some (blit m dest (s @ [0]))"
  using assms strcpy_loop_memcpy [OF assms] memcpy_loop_blit cstr_at_mapped [OF assms(1)]
  by (simp add: cstr_at_bytes_Suc del: memcpy_loop.simps)

lemma strncpy_loop_blit:
  "cstr_at m src s \<Longrightarrow> mapped m dest n \<Longrightarrow> copy_ok dest src (Suc (length s)) \<Longrightarrow>
   strncpy_loop m dest src n = Some (blit m dest (take n (s @ [0])))"
proof (induction n arbitrary: m dest src s)
  case (Suc n)
  show ?case
  proof (cases s)
    case Nil
    moreover have "m[dest := 0] = blit m dest [0]"
      using Suc.prems(2) blit_Cons [of dest "[]" m 0] by (simp add: mapped_def)
    ultimately show ?thesis
      using Suc.prems by (auto simp: cstr_at_iffs mem_simps)
  next
    case (Cons c t)
    let ?m = "m[dest := m ! src]"
    have "cstr_at ?m (Suc src) t"
      using Suc.prems Cons by (intro cstr_at_update) (auto simp: cstr_at_iffs copy_ok_def)
    then have "strncpy_loop ?m (Suc dest) (Suc src) n = Some (blit ?m (Suc dest) (take n (t @ [0])))"
      using Suc.prems Cons by (intro Suc.IH) (auto simp: mem_simps copy_ok_def)
    moreover have "blit ?m (Suc dest) (take n (t @ [0])) = blit m dest (take (Suc n) (s @ [0]))"
      using Suc.prems Cons by (subst blit_Cons) (auto simp: mapped_def cstr_at_iffs)
    ultimately show ?thesis
      using Suc.prems Cons by (auto simp: cstr_at_iffs mem_simps)
  qed
qed simp

lemma memset_loop_blit:
  "mapped m xs n \<Longrightarrow> memset_loop m xs c n = Some (blit m xs (replicate n c))"
proof (induction n arbitrary: m xs)
  case (Suc n)
  then have "memset_loop (m[xs := c]) (Suc xs) c n = Some (blit (m[xs := c]) (Suc xs) (replicate n c))"
    by (intro Suc.IH) (simp add: mem_simps)
  with Suc.prems show ?case
    by (subst (asm) blit_Cons) (auto simp: mem_simps mapped_def)
qed simp

section \<open>Lengths\<close>

lemma strend_loop_end [cstr_specs]: "cstr_at m p s \<Longrightarrow> strend_loop m p = Some (p + length s)"
  by (induction s arbitrary: p) (auto simp: cstr_at_iffs mem_simps strend_loop.simps [of m])

lemma strlen_length [cstr_specs]: "cstr_at m p s \<Longrightarrow> strlen m p = Some (length s)"
  by (simp add: strlen_def cstr_specs)

lemma strnlen_loop_end:
  "cstr_at m p s \<Longrightarrow> strnlen_loop m p n = Some (p + min n (length s))"
proof (induction n arbitrary: p s)
  case (Suc n)
  then show ?case by (cases s) (auto simp: cstr_at_iffs mem_simps)
qed simp

text \<open>Without a terminator among the first \<open>n\<close> bytes, \<open>strnlen\<close> still stops after \<open>n\<close> bytes.\<close>

lemma strnlen_loop_bound:
  "mapped m p n \<Longrightarrow> 0 \<notin> set (bytes m p n) \<Longrightarrow> strnlen_loop m p n = Some (p + n)"
proof (induction n arbitrary: p)
  case (Suc n)
  then show ?case by (auto simp: mem_simps)
qed simp

section \<open>Searching\<close>

text \<open>The index of the first, and one past the index of the last, occurrence of a byte.\<close>

definition first_index :: "'a \<Rightarrow> 'a list \<Rightarrow> nat" where
  "first_index c xs = length (takeWhile (\<lambda>x. x \<noteq> c) xs)"

fun last_position :: "'a \<Rightarrow> 'a list \<Rightarrow> nat" where
  "last_position c [] = 0"
| "last_position c (x # xs) =
     (if last_position c xs > 0 then Suc (last_position c xs) else if x = c then 1 else 0)"

lemma first_index_Cons [simp]: "first_index c (x # xs) = (if x = c then 0 else Suc (first_index c xs))"
  by (simp add: first_index_def)

lemma first_index_nth: "c \<in> set xs \<Longrightarrow> first_index c xs < length xs \<and> xs ! first_index c xs = c"
  by (induction xs) auto

lemma first_index_before: "j < first_index c xs \<Longrightarrow> xs ! j \<noteq> c"
  by (induction xs arbitrary: j) (auto simp: first_index_def nth_Cons' split: if_splits)

lemma last_position_0_iff: "last_position c xs = 0 \<longleftrightarrow> c \<notin> set xs"
  by (induction xs) auto

lemma last_position_nth:
  "last_position c xs = Suc k \<Longrightarrow> k < length xs \<and> xs ! k = c"
proof (induction xs arbitrary: k)
  case (Cons x xs)
  then show ?case by (cases "last_position c xs") (auto split: if_splits)
qed simp

lemma last_position_after:
  "last_position c xs \<le> j \<Longrightarrow> j < length xs \<Longrightarrow> xs ! j \<noteq> c"
proof (induction xs arbitrary: j)
  case (Cons x xs)
  then show ?case
    by (cases j) (auto simp: last_position_0_iff in_set_conv_nth split: if_splits)
qed simp

lemma strchr_loop_first:
  "cstr_at m p s \<Longrightarrow>
   strchr_loop m p c = Some (if c \<in> set (s @ [0]) then p + first_index c (s @ [0]) else NULL)"
proof (induction s arbitrary: p)
  case Nil
  then show ?case by (auto simp: cstr_at_iffs mem_simps strchr_loop.simps [of m p])
next
  case (Cons d s)
  then show ?case by (auto simp: cstr_at_iffs mem_simps strchr_loop.simps [of m p])
qed

lemma strrchr_loop_last:
  "cstr_at m p s \<Longrightarrow>
   strrchr_loop m p c res =
     Some (if c \<in> set (s @ [0]) then p + last_position c (s @ [0]) - 1 else res)"
proof (induction s arbitrary: p res)
  case Nil
  then show ?case by (auto simp: cstr_at_iffs mem_simps Let_def strrchr_loop.simps [of m p])
next
  case (Cons d s)
  moreover have "last_position c (s @ [0]) > 0 \<longleftrightarrow> c \<in> set (s @ [0])"
    by (metis last_position_0_iff neq0_conv)
  ultimately show ?case
    by (auto simp: cstr_at_iffs mem_simps Let_def strrchr_loop.simps [of m p])
qed

lemma strstr_loop_first:
  assumes p: "cstr_at m p s" and q: "cstr_at m q t" and t: "t \<noteq> []" and k: "k \<le> length s"
  shows "\<exists>r. strstr_loop m (p + k) q (length t) (length s - k) = Some r \<and>
    (r = NULL \<longrightarrow> (\<forall>j. k \<le> j \<longrightarrow> \<not> occurs_at t s j)) \<and>
    (r \<noteq> NULL \<longrightarrow> (\<exists>i. r = p + i \<and> k \<le> i \<and> occurs_at t s i \<and>
      (\<forall>j. k \<le> j \<and> j < i \<longrightarrow> \<not> occurs_at t s j)))"
  using k
proof (induction "length s - k" arbitrary: k rule: less_induct)
  case less
  have p0: "p + k \<noteq> NULL" using p by (simp add: cstr_at_def)
  show ?case
  proof (cases "length t \<le> length s - k")
    case False
    then have "\<not> occurs_at t s j" if "k \<le> j" for j
      using that less.prems by (auto simp: occurs_at_def)
    with False show ?thesis by (simp add: strstr_loop.simps [of m "p + k"])
  next
    case fits: True
    then have "k + length t \<le> length s" using less.prems by simp
    with p q obtain r where r: "memcmp m (p + k) q (length t) = Some r" "r = 0 \<longleftrightarrow> occurs_at t s k"
      by (rule memcmp.cmp_window)
    show ?thesis
    proof (cases "r = 0")
      case True
      with r fits p0 show ?thesis by (auto simp: strstr_loop.simps [of m "p + k"] Let_def)
    next
      case False
      have Suc_k: "Suc k \<le> length s" using fits t less.prems by (cases t) auto
      have "length s - Suc k < length s - k" using Suc_k by simp
      note IH = less.hyps [OF this Suc_k]
      have "strstr_loop m (p + k) q (length t) (length s - k) =
          strstr_loop m (p + Suc k) q (length t) (length s - Suc k)"
        using False r fits by (simp add: strstr_loop.simps [of m "p + k"] Let_def)
      moreover have "k \<le> j \<longleftrightarrow> j = k \<or> Suc k \<le> j" for j by auto
      ultimately show ?thesis using IH False r(2) by (auto simp: less_Suc_eq_le)
    qed
  qed
qed

section \<open>What the routines promise\<close>

text \<open>
  C6. \<open>strstr\<close> returns on any two strings. NULL means that the second string occurs nowhere in
  the first; any other result points at an occurrence, and there is none further left.
\<close>

theorem strstr_first_occurrence:
  assumes "cstr_at m p s" "cstr_at m q t"
  shows "\<exists>r. strstr m p q = Some r \<and>
    (r = NULL \<longrightarrow> (\<forall>j. \<not> occurs_at t s j)) \<and>
    (r \<noteq> NULL \<longrightarrow> (\<exists>i. r = p + i \<and> occurs_at t s i \<and> (\<forall>j<i. \<not> occurs_at t s j)))"
proof (cases "t = []")
  case True
  then show ?thesis
    using assms by (auto simp: strstr_def cstr_specs occurs_at_def cstr_at_def [of m p])
next
  case False
  then show ?thesis
    using strstr_loop_first [OF assms False, of 0] assms by (simp add: strstr_def cstr_specs)
qed

theorem strstr_first_occurrence_witness:
  "\<exists>r. strstr [0, 97, 98, 97, 98, 0, 98, 0] 1 6 = Some r \<and> r = 2"
proof -
  have "cstr_at [0, 97, 98, 97, 98, 0, 98, 0] 1 [97, 98, 97, 98]"
    and "cstr_at [0, 97, 98, 97, 98, 0, 98, 0] 6 [98]"
    by (simp_all add: cstr_at_def bytes_def)
  note * = strstr_first_occurrence [OF this]
  then obtain r where r: "strstr [0, 97, 98, 97, 98, 0, 98, 0] 1 6 = Some r" by blast
  moreover have "occurs_at [98] [97, 98, 97, 98 :: u8] 1" "\<not> occurs_at [98] [97, 98, 97, 98 :: u8] 0"
    by (simp_all add: occurs_at_def)
  ultimately show ?thesis using * by (auto simp: not_less_eq elim!: less_natE) (metis One_nat_def less_one neq0_conv linorder_neqE_nat)+
qed

text \<open>
  C35. \<open>strcat\<close>, with room for both strings behind the destination and the source outside that
  room, returns its destination, where the concatenation now stands as a string; nothing before
  the old terminator and nothing behind the new one changes.
\<close>

theorem strcat_concatenates:
  assumes d: "cstr_at m dest d" and s: "cstr_at m src s"
    and room: "mapped m dest (Suc (length d + length s))"
    and disj: "disjoint_blocks dest (Suc (length d + length s)) src (Suc (length s))"
  shows "strcat m dest src = Some (dest, blit m (dest + length d) (s @ [0])) \<and>
    cstr_at (blit m (dest + length d) (s @ [0])) dest (d @ s)"
proof -
  let ?e = "dest + length d"
  have e: "mapped m ?e (Suc (length s))" using room by (simp add: mapped_def)
  have "copy_ok ?e src (Suc (length s))"
    using disj by (auto simp: copy_ok_def disjoint_blocks_def)
  from strcpy_loop_blit [OF s e this]
  have 1: "strcat m dest src = Some (dest, blit m ?e (s @ [0]))"
    by (simp add: strcat_def strend_loop_end [OF d])
  have "bytes (blit m ?e (s @ [0])) dest (length d) = d"
    using e d cstr_at_mapped [OF d] cstr_at_bytes [OF d]
    by (subst bytes_blit_other) (auto simp: mapped_def disjoint_blocks_def)
  moreover have "bytes (blit m ?e (s @ [0])) ?e (Suc (length s)) = s @ [0]"
    using bytes_blit_same [of ?e "s @ [0]" m] e by (simp add: mapped_def)
  ultimately have "bytes (blit m ?e (s @ [0])) dest (length d + Suc (length s)) = d @ s @ [0]"
    by (simp only: bytes_append)
  then show ?thesis using 1 d s by (simp add: cstr_at_def)
qed

theorem strcat_concatenates_witness:
  "strcat [0, 97, 0, 9, 9, 98, 0] 1 5 = Some (1, [0, 97, 98, 0, 9, 98, 0])"
proof -
  let ?m = "[0, 97, 0, 9, 9, 98, 0] :: mem"
  have "cstr_at ?m 1 [97]" "cstr_at ?m 5 [98]"
    "mapped ?m 1 (Suc (length [97 :: u8] + length [98 :: u8]))"
    "disjoint_blocks 1 (Suc (length [97 :: u8] + length [98 :: u8])) 5 (Suc (length [98 :: u8]))"
    by (simp_all add: cstr_at_def bytes_def mapped_def disjoint_blocks_def)
  from strcat_concatenates [OF this] show ?thesis by (simp add: blit_def)
qed

text \<open>
  \<open>strdup\<close> asks \<open>malloc\<close> for one byte more than the string's length. When that fails it
  returns NULL and leaves memory alone; when it gives a block apart from the string, the result
  points at a copy of the string and the original still stands.
\<close>

theorem strdup_duplicates:
  assumes x: "cstr_at m x s"
    and malloc_ok: "malloc m (Suc (length s)) \<noteq> NULL \<Longrightarrow>
      mapped m (malloc m (Suc (length s))) (Suc (length s)) \<and>
      disjoint_blocks (malloc m (Suc (length s))) (Suc (length s)) x (Suc (length s))"
  shows "\<exists>r m'. strdup malloc m x = Some (r, m') \<and> r = malloc m (Suc (length s)) \<and>
    (if r = NULL then m' = m else cstr_at m' r s \<and> cstr_at m' x s)"
proof (cases "malloc m (Suc (length s)) = NULL")
  case True
  with x show ?thesis by (simp add: strdup_def cstr_specs)
next
  case False
  let ?r = "malloc m (Suc (length s))" and ?n = "Suc (length s)"
  let ?m = "blit m ?r (s @ [0])"
  from malloc_ok [OF False] have r: "mapped m ?r ?n" "disjoint_blocks ?r ?n x ?n" by auto
  have "memcpy m ?r x ?n = Some (?r, ?m)"
    using r memcpy_loop_blit [OF r(1) cstr_at_mapped [OF x] copy_ok_disjoint]
    by (simp add: memcpy_def cstr_at_bytes_Suc [OF x] del: memcpy_loop.simps)
  then have "strdup malloc m x = Some (?r, ?m)"
    using False by (simp add: strdup_def strlen_length [OF x] Let_def)
  moreover have "cstr_at ?m ?r s"
    using r x by (intro cstr_at_blit_same) (auto simp: mapped_def cstr_at_def)
  moreover have "bytes ?m x ?n = bytes m x ?n"
    using r cstr_at_mapped [OF x] by (intro bytes_blit_other) (auto simp: mapped_def)
  then have "cstr_at ?m x s" using x by (simp add: cstr_at_def)
  ultimately show ?thesis using False by simp
qed

theorem strdup_duplicates_witness:
  "strdup (\<lambda>m n. 3) [0, 97, 0, 9, 9] 1 = Some (3, [0, 97, 0, 97, 0])"
proof -
  let ?m = "[0, 97, 0, 9, 9] :: mem"
  have "cstr_at ?m 1 [97]" by (simp add: cstr_at_def bytes_def)
  moreover have "mapped ?m 3 (Suc (length [97 :: u8])) \<and>
      disjoint_blocks 3 (Suc (length [97 :: u8])) 1 (Suc (length [97 :: u8]))"
    by (simp add: mapped_def disjoint_blocks_def)
  ultimately have "\<exists>r m'. strdup (\<lambda>m n. 3) ?m 1 = Some (r, m') \<and> r = 3 \<and>
      (if r = NULL then m' = ?m else cstr_at m' r [97] \<and> cstr_at m' 1 [97])"
    by (rule strdup_duplicates)
  moreover have "strlen ?m 1 = Some 1"
    using \<open>cstr_at ?m 1 [97]\<close> strlen_length by force
  ultimately show ?thesis
    by (auto simp: strdup_def memcpy_def load_def store_def numeral_2_eq_2)
qed

text \<open>The byte searched for stands at the reported address, and not before (after) it; the terminator counts.\<close>

lemma strchr_first:
  assumes "cstr_at m p s"
  shows "\<exists>r. strchr m p c = Some r \<and>
    (if ucast c \<in> set (s @ [0])
     then \<exists>i \<le> length s. r = p + i \<and> (s @ [0]) ! i = ucast c \<and> (\<forall>j < i. (s @ [0]) ! j \<noteq> ucast c)
     else r = NULL)"
proof (cases "ucast c \<in> set (s @ [0])")
  case True
  let ?i = "first_index (ucast c) (s @ [0])"
  have i: "?i \<le> length s" "(s @ [0]) ! ?i = ucast c" "\<forall>j < ?i. (s @ [0]) ! j \<noteq> ucast c"
    using first_index_nth [OF True] first_index_before [of _ "ucast c" "s @ [0]"] by auto
  have "strchr m p c = Some (p + ?i)" using True by (simp only: strchr_def strchr_loop_first [OF assms] if_True)
  with i True show ?thesis by (intro exI [of _ "p + ?i"]) (simp only: if_True, blast)
next
  case False
  then show ?thesis by (simp add: strchr_def strchr_loop_first [OF assms])
qed

lemma strrchr_last:
  assumes "cstr_at m p s"
  shows "\<exists>r. strrchr m p c = Some r \<and>
    (if ucast c \<in> set (s @ [0])
     then \<exists>i \<le> length s. r = p + i \<and> (s @ [0]) ! i = ucast c \<and>
       (\<forall>j. i < j \<and> j \<le> length s \<longrightarrow> (s @ [0]) ! j \<noteq> ucast c)
     else r = NULL)"
proof (cases "ucast c \<in> set (s @ [0])")
  case True
  then obtain i where i: "last_position (ucast c) (s @ [0]) = Suc i"
    using last_position_0_iff [of "ucast c" "s @ [0]"] by (cases "last_position (ucast c) (s @ [0])") auto
  have "(s @ [0]) ! j \<noteq> ucast c" if "i < j" "j \<le> length s" for j
    using last_position_after [of "ucast c" "s @ [0]" j] that i by simp
  moreover have "i \<le> length s" "(s @ [0]) ! i = ucast c" using last_position_nth [OF i] by auto
  moreover have "strrchr m p c = Some (p + i)"
    using True i by (simp only: strrchr_def strrchr_loop_last [OF assms] if_True) simp
  ultimately show ?thesis using True by (intro exI [of _ "p + i"]) (simp only: if_True, blast)
next
  case False
  then show ?thesis by (simp add: strrchr_def strrchr_loop_last [OF assms])
qed

text \<open>
  C36. On a string, \<open>strlen\<close> returns its length and \<open>strnlen\<close> the smaller of that and its bound;
  \<open>strchr\<close> returns the address of the first and \<open>strrchr\<close> that of the last occurrence of a character,
  or NULL when there is none, where the terminator is found as a character of the string; and
  \<open>strcmp\<close> and \<open>strncmp\<close> return 0 exactly for equal strings and equal beginnings.
\<close>

theorem string_search_exact:
  assumes "cstr_at m p s" "cstr_at m q t"
  shows "strlen m p = Some (length s) \<and> strnlen m p n = Some (min n (length s)) \<and>
    (\<exists>r. strchr m p c = Some r \<and>
      (if ucast c \<in> set (s @ [0])
       then \<exists>i \<le> length s. r = p + i \<and> (s @ [0]) ! i = ucast c \<and> (\<forall>j < i. (s @ [0]) ! j \<noteq> ucast c)
       else r = NULL)) \<and>
    (\<exists>r. strrchr m p c = Some r \<and>
      (if ucast c \<in> set (s @ [0])
       then \<exists>i \<le> length s. r = p + i \<and> (s @ [0]) ! i = ucast c \<and>
         (\<forall>j. i < j \<and> j \<le> length s \<longrightarrow> (s @ [0]) ! j \<noteq> ucast c)
       else r = NULL)) \<and>
    (\<exists>r. strcmp m p q = Some r \<and> (r = 0 \<longleftrightarrow> s = t)) \<and>
    (\<exists>r. strncmp m p q n = Some r \<and> (r = 0 \<longleftrightarrow> take n s = take n t))"
proof (intro conjI strchr_first strrchr_last assms)
  show "strlen m p = Some (length s)" "strnlen m p n = Some (min n (length s))"
    using assms by (simp_all add: strlen_length strnlen_def strnlen_loop_end)
  show "\<exists>r. strcmp m p q = Some r \<and> (r = 0 \<longleftrightarrow> s = t)"
    using strcmp_loop_equal [OF assms] by (auto simp: strcmp_def signed_eq_0_iff)
  show "\<exists>r. strncmp m p q n = Some r \<and> (r = 0 \<longleftrightarrow> take n s = take n t)"
    using strncmp_loop_equal [OF assms, of n] by (auto simp: strncmp_def signed_eq_0_iff)
qed

theorem string_search_exact_witness:
  "strlen [0, 97, 98, 97, 0, 97, 0] 1 = Some 3 \<and> strchr [0, 97, 98, 97, 0, 97, 0] 1 98 = Some 2 \<and>
   strrchr [0, 97, 98, 97, 0, 97, 0] 1 98 = Some 2 \<and> strncmp [0, 97, 98, 97, 0, 97, 0] 1 5 1 = Some 0 \<and>
   strcmp [0, 97, 98, 97, 0, 97, 0] 1 5 \<noteq> Some 0"
proof -
  let ?m = "[0, 97, 98, 97, 0, 97, 0] :: mem"
  have "cstr_at ?m 1 [97, 98, 97]" "cstr_at ?m 5 [97]" by (simp_all add: cstr_at_def bytes_def)
  note found = string_search_exact [OF this]
  have "i = 1" if "i \<le> 3" "[97, 98, 97, 0 :: u8] ! i = 98" for i :: nat
  proof -
    from that(1) have "i = 0 \<or> i = 1 \<or> i = 2 \<or> i = 3" by linarith
    with that(2) show ?thesis by auto
  qed
  with found [of 0 98] found [of 1 98] show ?thesis by auto
qed

text \<open>
  C37. The copying routines, for a string and a destination apart from it: \<open>strncpy\<close> writes the first
  \<open>n\<close> bytes of the string with its terminator and never more, so it does not fill the rest; \<open>memcpy\<close> of
  up to that many bytes and \<open>strcpy\<close> write the same; when the terminator fits, the destination holds
  the string and the source still stands; \<open>memset\<close> fills exactly \<open>n\<close> bytes. Each returns its
  destination, and memory outside what is named here is as it was.
\<close>

theorem string_copies_exact:
  assumes "cstr_at m src s" "mapped m dest n" "disjoint_blocks dest (max n (Suc (length s))) src (Suc (length s))"
  shows "strncpy m dest src n = Some (dest, blit m dest (take n (s @ [0]))) \<and>
    (n \<le> Suc (length s) \<longrightarrow> memcpy m dest src n = Some (dest, blit m dest (take n (s @ [0])))) \<and>
    (length s < n \<longrightarrow> strcpy m dest src = Some (dest, blit m dest (s @ [0])) \<and>
       cstr_at (blit m dest (s @ [0])) dest s \<and> cstr_at (blit m dest (s @ [0])) src s) \<and>
    memset m dest c n = Some (dest, blit m dest (replicate n (ucast c)))"
proof (intro conjI impI)
  have ok: "copy_ok dest src (Suc (length s))"
    using assms(3) by (auto simp: copy_ok_def disjoint_blocks_def)
  then show "strncpy m dest src n = Some (dest, blit m dest (take n (s @ [0])))"
    using assms by (simp add: strncpy_def strncpy_loop_blit)
  show "memset m dest c n = Some (dest, blit m dest (replicate n (ucast c)))"
    using assms(2) by (simp add: memset_def memset_loop_blit)
  show "memcpy m dest src n = Some (dest, blit m dest (take n (s @ [0])))" if "n \<le> Suc (length s)"
  proof -
    have "mapped m src n" using cstr_at_mapped [OF assms(1)] that by (auto elim: mapped_mono)
    moreover have "copy_ok dest src n" using ok that by (auto simp: copy_ok_def)
    moreover have "bytes m src n = take n (s @ [0])"
      using that cstr_at_bytes_Suc [OF assms(1)] bytes_take [OF that, of m src] by simp
    ultimately show ?thesis using assms(2) by (simp add: memcpy_def memcpy_loop_blit)
  qed
  assume n: "length s < n"
  then have dest: "mapped m dest (Suc (length s))" using assms(2) by (auto elim: mapped_mono)
  have apart: "disjoint_blocks dest (Suc (length s)) src (Suc (length s))"
    using assms(3) by (auto simp: disjoint_blocks_def)
  show "strcpy m dest src = Some (dest, blit m dest (s @ [0]))"
    using strcpy_loop_blit [OF assms(1) dest ok] by (simp add: strcpy_def)
  show "cstr_at (blit m dest (s @ [0])) dest s"
    using dest assms(1) by (intro cstr_at_blit_same) (auto simp: mapped_def cstr_at_def)
  have "bytes (blit m dest (s @ [0])) src (Suc (length s)) = bytes m src (Suc (length s))"
    using dest apart cstr_at_mapped [OF assms(1)] by (intro bytes_blit_other) (auto simp: mapped_def)
  then show "cstr_at (blit m dest (s @ [0])) src s" using assms(1) by (simp add: cstr_at_def)
qed

theorem string_copies_exact_witness:
  "strncpy [0, 9, 9, 9, 9, 97, 0] 1 5 3 = Some (1, [0, 97, 0, 9, 9, 97, 0]) \<and>
   strcpy [0, 9, 9, 9, 9, 97, 0] 1 5 = Some (1, [0, 97, 0, 9, 9, 97, 0]) \<and>
   memcpy [0, 9, 9, 9, 9, 97, 0] 1 5 1 = Some (1, [0, 97, 9, 9, 9, 97, 0]) \<and>
   memset [0, 9, 9, 9, 9, 97, 0] 1 0x107 1 = Some (1, [0, 7, 9, 9, 9, 97, 0])"
proof -
  let ?m = "[0, 9, 9, 9, 9, 97, 0] :: mem"
  have str: "cstr_at ?m 5 [97]" by (simp add: cstr_at_def bytes_def)
  have room: "mapped ?m 1 1" "mapped ?m 1 3"
    and apart: "disjoint_blocks 1 (max 1 (Suc (length [97 :: u8]))) 5 (Suc (length [97 :: u8]))"
    "disjoint_blocks 1 (max 3 (Suc (length [97 :: u8]))) 5 (Suc (length [97 :: u8]))"
    by (simp_all add: mapped_def disjoint_blocks_def)
  show ?thesis
    using string_copies_exact [OF str room(1) apart(1), of "0x107"] string_copies_exact [OF str room(2) apart(2)]
    by (simp add: blit_def)
qed

text \<open>
  \<open>memcmp\<close> on mapped blocks returns 0 exactly when they are equal; at the first difference it
  returns the difference of the two bytes as a signed char, so it has the sign of the difference
  whenever both bytes are below 128.
\<close>

theorem memcmp_sign:
  assumes "mapped m p n" "mapped m q n"
  shows "(bytes m p n = bytes m q n \<longrightarrow> memcmp m p q n = Some 0) \<and>
    (\<forall>k<n. bytes m p k = bytes m q k \<and> m ! (p + k) \<noteq> m ! (q + k) \<longrightarrow>
      memcmp m p q n = Some (sint (m ! (p + k) - m ! (q + k))) \<and>
      (m ! (p + k) < 128 \<and> m ! (q + k) < 128 \<longrightarrow>
        memcmp m p q n = Some (uint (m ! (p + k)) - uint (m ! (q + k)))))"
proof (intro conjI allI impI)
  assume "bytes m p n = bytes m q n"
  then show "memcmp m p q n = Some 0"
    using memcmp.cmp_total [OF assms] memcmp.cmp_zero [OF assms] by fastforce
next
  fix k assume "k < n" "bytes m p k = bytes m q k \<and> m ! (p + k) \<noteq> m ! (q + k)"
  then show d: "memcmp m p q n = Some (sint (m ! (p + k) - m ! (q + k)))"
    using memcmp_loop_first_difference [of k n m p q 0] assms by (simp add: memcmp_def)
  assume "m ! (p + k) < 128 \<and> m ! (q + k) < 128"
  then show "memcmp m p q n = Some (uint (m ! (p + k)) - uint (m ! (q + k)))"
    using d by (simp add: sint_byte_diff)
qed

theorem memcmp_sign_witness:
  "memcmp [0, 97, 98, 97, 120] 1 3 2 = Some (uint (98 :: u8) - uint (120 :: u8))"
proof -
  let ?m = "[0, 97, 98, 97, 120] :: mem"
  have m: "mapped ?m 1 2" "mapped ?m 3 2" by (simp_all add: mapped_def)
  have "bytes ?m 1 1 = bytes ?m 3 1" by (simp add: bytes_def)
  then show ?thesis
    using memcmp_sign [OF m, THEN conjunct2, rule_format, of 1] by simp
qed

text \<open>
  Beyond 127 the sign is lost: two one-byte blocks that differ by more than 127 compare the
  wrong way round, against what the routine's comment promises.
\<close>

theorem memcmp_sign_wrong:
  "\<exists>m p q. mapped m p 1 \<and> mapped m q 1 \<and> m ! p > m ! q \<and> (\<exists>r. memcmp m p q 1 = Some r \<and> r < 0)"
proof -
  have "memcmp [0, 200, 10] 1 2 1 = Some (- 66)"
    by (simp add: memcmp_def load_def)
  moreover have "mapped [0, 200, 10] 1 1" "mapped [0, 200, 10] 2 1" by (simp_all add: mapped_def)
  moreover have "([0, 200, 10] :: mem) ! 1 > [0, 200, 10] ! 2" by simp
  ultimately show ?thesis by (metis neg_less_0_iff_less zero_less_numeral)
qed

end
