(* ===== verification/Bit_Search.thy ===== *)
theory Bit_Search
  imports Xen_Prelude
begin

text \<open>
  The find-first-set routines of string_verified.c: \<open>ffs\<close> on \<open>int\<close>, \<open>__ffsti2\<close> on \<open>long long\<close>
  (built on \<open>ffs\<close>, half a word at a time) and its three aliases. All of them keep one contract,
  the locale \<open>first_set\<close>: 0 for the zero word, otherwise one more than the index of the least
  significant set bit.
\<close>

section \<open>The contract of a find-first-set routine\<close>

locale first_set =
  fixes fs :: "'a::len word \<Rightarrow> nat"
  assumes fs_zero: "fs 0 = 0"
    and fs_lsb: "bit w n \<Longrightarrow> (\<And>k. k < n \<Longrightarrow> \<not> bit w k) \<Longrightarrow> fs w = Suc n"
begin

lemma fs_cases:
  assumes "w \<noteq> 0"
  obtains n where "bit w n" "\<And>k. k < n \<Longrightarrow> \<not> bit w k" "fs w = Suc n"
proof -
  from assms obtain k where "bit w k"
    by (metis bit_word_eqI bit_0_eq bot_apply bot_bool_def)
  then have "bit w (LEAST k. bit w k)" by (rule LeastI)
  moreover have "\<not> bit w j" if "j < (LEAST k. bit w k)" for j
    using that by (rule not_less_Least)
  ultimately show ?thesis using fs_lsb that by blast
qed

lemma fs_eq_0_iff: "fs w = 0 \<longleftrightarrow> w = 0"
  using fs_zero by (cases "w = 0") (auto elim: fs_cases)

lemma fs_le: "fs w \<le> LENGTH('a)"
proof (cases "w = 0")
  case False
  then obtain n where "bit w n" "fs w = Suc n" by (rule fs_cases)
  then show ?thesis using bit_imp_le_length [of w n] by simp
qed (simp add: fs_zero)

lemma fs_bit: "w \<noteq> 0 \<Longrightarrow> bit w (fs w - 1)"
  by (erule fs_cases) simp

lemma fs_below: "k < fs w - 1 \<Longrightarrow> \<not> bit w k"
  by (cases "w = 0") (auto simp: fs_zero elim: fs_cases)

text \<open>The result counts the trailing zero bits, plus one: a power of two divides the word.\<close>

lemma fs_dvd: "w \<noteq> 0 \<Longrightarrow> 2 ^ (fs w - 1) dvd unat w"
proof -
  have "take_bit (fs w - 1) w = 0"
    by (rule bit_word_eqI) (auto simp: bit_take_bit_iff fs_below)
  then have "take_bit (fs w - 1) (unat w) = 0"
    by (metis unsigned_0 unsigned_take_bit_eq)
  then show ?thesis by (simp add: take_bit_eq_0_iff)
qed

end

section \<open>ffs\<close>

text \<open>
  The body of the do-while loop: test the lowest bit, shift right arithmetically, count, and go
  round again while anything is left.
\<close>

lemma ffs_measure:
  fixes i :: u32
  assumes "i AND 1 = 0" "signed_drop_bit 1 i \<noteq> 0"
  shows "nat \<bar>sint (signed_drop_bit 1 i)\<bar> < nat \<bar>sint i\<bar>"
proof -
  have s: "sint (signed_drop_bit 1 i) = sint i div 2"
    by (simp add: sint_signed_drop_bit_eq drop_bit_Suc)
  have "\<not> bit i 0" using assms(1) and_1_eq_0_iff by blast
  then have "\<not> bit (sint i) 0" by (simp add: bit_sint_iff)
  then have e: "even (sint i)" by (simp add: bit_0)
  moreover have "sint i \<noteq> 0"
    using assms(2) by (auto simp: signed_eq_0_iff)
  ultimately have "\<bar>sint i div 2\<bar> < \<bar>sint i\<bar>" by (auto elim!: evenE)
  then show ?thesis unfolding s by simp
qed

function ffs_loop :: "u32 \<Rightarrow> nat \<Rightarrow> nat" where
  "ffs_loop i c =
     (if i AND 1 \<noteq> 0 then c
      else let i' = signed_drop_bit 1 i in
           if i' \<noteq> 0 then ffs_loop i' (c + 1) else 0)"
  by pat_completeness auto
termination
proof (relation "measure (\<lambda>(i, c). nat \<bar>sint i\<bar>)")
  fix i i' :: u32 and c :: nat
  assume "\<not> i AND 1 \<noteq> 0" "i' = signed_drop_bit 1 i" "i' \<noteq> 0"
  then show "((i', c + 1), i, c) \<in> measure (\<lambda>(i, c). nat \<bar>sint i\<bar>)"
    by (simp only: in_measure case_prod_conv not_not) (rule ffs_measure)
qed (rule wf_measure)

declare ffs_loop.simps [simp del]

definition ffs :: "u32 \<Rightarrow> nat" where
  "ffs i = ffs_loop i 1"

lemma ffs_loop_lsb:
  "bit i n \<Longrightarrow> (\<And>k. k < n \<Longrightarrow> \<not> bit i k) \<Longrightarrow> ffs_loop i c = c + n"
proof (induction n arbitrary: i c)
  case 0
  then have "i AND 1 \<noteq> 0" using and_1_eq_0_iff by blast
  then have "ffs_loop i c = c" by (subst ffs_loop.simps) (rule if_P)
  then show ?case by simp
next
  case (Suc n)
  have len: "Suc n < 32" using bit_imp_le_length [OF Suc.prems(1)] by simp
  have b: "bit (signed_drop_bit 1 i) k \<longleftrightarrow> bit i (Suc k)" if "k < 31" for k
    using that by (auto simp: bit_signed_drop_bit_iff)
  have "i AND 1 = 0" using Suc.prems(2) [of 0] and_1_eq_0_iff by blast
  moreover have "signed_drop_bit 1 i \<noteq> 0"
    using b [of n] len Suc.prems(1) by (intro bit_imp_neq_0 [of _ n]) simp
  moreover have "ffs_loop (signed_drop_bit 1 i) (c + 1) = (c + 1) + n"
    using Suc.prems b len by (intro Suc.IH) auto
  ultimately show ?case by (subst ffs_loop.simps) (simp add: Let_def)
qed

lemma ffs_zero: "ffs 0 = 0"
  unfolding ffs_def by (subst ffs_loop.simps) (simp add: Let_def)

interpretation ffs: first_set ffs
  by unfold_locales (rule ffs_zero, simp add: ffs_def ffs_loop_lsb)

section \<open>__ffsti2 and its aliases\<close>

definition sizeof_int :: nat where "sizeof_int = 4"
definition sizeof_llong :: nat where "sizeof_llong = 8"

text \<open>The \<open>for\<close> loop over the \<open>int\<close>-sized pieces of \<open>lli\<close>, from piece \<open>i\<close> on.\<close>

function ffsti2_loop :: "nat \<Rightarrow> nat \<Rightarrow> nat \<Rightarrow> u64 \<Rightarrow> nat" where
  "ffsti2_loop num len i lli =
     (if i < num then
        let tmpint = ucast (push_bit len (signed_drop_bit len lli) XOR lli) :: u32;
            t = ffs tmpint
        in if t \<noteq> 0 then t + i * len
           else ffsti2_loop num len (i + 1) (signed_drop_bit len lli)
      else 0)"
  by pat_completeness auto
termination
  by (relation "measure (\<lambda>(num, len, i, lli). num - i)") auto

declare ffsti2_loop.simps [simp del]

definition ffsti2 :: "u64 \<Rightarrow> nat" where
  "ffsti2 lli =
     (let num = sizeof_llong div sizeof_int in
      if num = 1 then ffs (ucast lli)
      else let len = sizeof_int * 8 in ffsti2_loop num len 0 lli)"

definition ffsdi2 :: "'l::len word \<Rightarrow> nat" where
  "ffsdi2 li = ffsti2 (scast li)"

definition ffsl :: "'l::len word \<Rightarrow> nat" where
  "ffsl li = ffsti2 (scast li)"

definition ffsll :: "u64 \<Rightarrow> nat" where
  "ffsll lli = ffsti2 lli"

text \<open>The piece that one round looks at is the low half of what is left of the word.\<close>

lemma low_half: "ucast (push_bit 32 (signed_drop_bit 32 lli) XOR lli) = (ucast (lli :: u64) :: u32)"
  by (rule bit_word_eqI) (simp add: bit_ucast_iff bit_xor_iff bit_push_bit_iff)

lemma ucast_signed_drop_bit: "ucast (signed_drop_bit 32 (lli :: u64)) = (ucast (drop_bit 32 lli) :: u32)"
  by (rule bit_word_eqI) (auto simp: bit_ucast_iff bit_signed_drop_bit_iff bit_drop_bit_eq)

lemma ffsti2_halves:
  "ffsti2 lli =
     (if (ucast lli :: u32) \<noteq> 0 then ffs (ucast lli)
      else if (ucast (drop_bit 32 lli) :: u32) \<noteq> 0 then ffs (ucast (drop_bit 32 lli)) + 32
      else 0)"
proof -
  have "ffsti2 lli = ffsti2_loop 2 32 0 lli"
    by (simp add: ffsti2_def sizeof_llong_def sizeof_int_def)
  moreover have "ffsti2_loop 2 32 2 x = 0" for x
    by (subst ffsti2_loop.simps) simp
  moreover have "ffsti2_loop 2 32 1 (signed_drop_bit 32 lli) =
      (if (ucast (drop_bit 32 lli) :: u32) \<noteq> 0 then ffs (ucast (drop_bit 32 lli)) + 32 else 0)"
    using calculation(2)
    by (subst ffsti2_loop.simps, unfold low_half)
       (auto simp: ucast_signed_drop_bit Let_def ffs.fs_eq_0_iff ffs_zero numeral_2_eq_2)
  moreover have "ffsti2_loop 2 32 0 lli =
      (if (ucast lli :: u32) \<noteq> 0 then ffs (ucast lli)
       else ffsti2_loop 2 32 1 (signed_drop_bit 32 lli))"
    by (subst ffsti2_loop.simps, unfold low_half) (auto simp: Let_def ffs.fs_eq_0_iff ffs_zero)
  ultimately show ?thesis by simp
qed

lemma ffsti2_lsb:
  assumes "bit lli n" "\<And>k. k < n \<Longrightarrow> \<not> bit lli k"
  shows "ffsti2 lli = Suc n"
proof (cases "n < 32")
  case True
  then have "bit (ucast lli :: u32) n" using assms(1) by (simp add: bit_ucast_iff)
  moreover have "ffs (ucast lli) = Suc n"
    using assms calculation by (intro ffs.fs_lsb) (auto simp: bit_ucast_iff)
  ultimately show ?thesis by (auto simp: ffsti2_halves)
next
  case False
  then have low: "(ucast lli :: u32) = 0"
    using assms(2) by (intro bit_word_eqI) (simp add: bit_ucast_iff)
  have n: "n < 64" using bit_imp_le_length [OF assms(1)] by simp
  have hi: "bit (ucast (drop_bit 32 lli) :: u32) (n - 32)"
    using assms(1) False n by (simp add: bit_ucast_iff bit_drop_bit_eq)
  have "ffs (ucast (drop_bit 32 lli)) = Suc (n - 32)"
    using hi assms(2) by (intro ffs.fs_lsb) (auto simp: bit_ucast_iff bit_drop_bit_eq)
  with low hi False show ?thesis by (auto simp: ffsti2_halves)
qed

interpretation ffsti2: first_set ffsti2
  by unfold_locales (simp add: ffsti2_halves, rule ffsti2_lsb)

interpretation ffsll: first_set ffsll
  by unfold_locales (unfold ffsll_def, rule ffsti2.fs_zero, rule ffsti2_lsb)

text \<open>\<open>long\<close> is 32 bits wide in the sources' data model; sign extension keeps the low bits.\<close>

lemma ffsti2_scast_lsb:
  fixes li :: u32
  assumes "bit li n" "\<And>k. k < n \<Longrightarrow> \<not> bit li k"
  shows "ffsti2 (scast li) = Suc n"
  using assms bit_imp_le_length [OF assms(1)]
  by (intro ffsti2_lsb) (auto simp: bit_word_scast_iff)

interpretation ffsl: first_set "ffsl :: u32 \<Rightarrow> nat"
  by unfold_locales (simp add: ffsl_def ffsti2.fs_zero, simp add: ffsl_def ffsti2_scast_lsb)

interpretation ffsdi2: first_set "ffsdi2 :: u32 \<Rightarrow> nat"
  by unfold_locales (simp add: ffsdi2_def ffsti2.fs_zero, simp add: ffsdi2_def ffsti2_scast_lsb)

section \<open>What the routines promise\<close>

lemma ffs_top_bits:
  "ffs (push_bit 31 1) = 32" "ffsti2 (push_bit 63 1) = 64"
proof -
  have "ffs (push_bit 31 1) = Suc 31"
    by (rule ffs.fs_lsb) (simp_all only: bit_push_bit_iff bit_1_iff, auto)
  moreover have "ffsti2 (push_bit 63 1) = Suc 63"
    by (rule ffsti2_lsb) (simp_all only: bit_push_bit_iff bit_1_iff, auto)
  ultimately show "ffs (push_bit 31 1) = 32" "ffsti2 (push_bit 63 1) = 64" by simp_all
qed

lemma ffsti2_eq_64: "ffsti2 w = 64 \<longleftrightarrow> w = push_bit 63 1"
proof
  assume w: "ffsti2 w = 64"
  then have "w \<noteq> 0" using ffsti2.fs_eq_0_iff [of w] by (intro notI) simp
  then have "bit w 63" using ffsti2.fs_bit [of w] w by simp
  moreover have "\<not> bit w k" if "k < 63" for k using ffsti2.fs_below [of k w] w that by simp
  ultimately have w63: "bit w n \<longleftrightarrow> n = 63" if "n < 64" for n
    using that by (cases "n = 63") auto
  have p63: "bit (push_bit 63 1 :: u64) n \<longleftrightarrow> n = 63" if "n < 64" for n
    using that by (simp only: bit_push_bit_iff bit_1_iff) auto
  show "w = push_bit 63 1"
  proof (rule bit_word_eqI)
    fix n assume "n < LENGTH(64)"
    then show "bit w n = bit (push_bit 63 1 :: u64) n" using w63 p63 by (simp only: len_num0 len_num1 len_bit0 len_bit1)
  qed
qed (simp only: ffs_top_bits)

text \<open>
  C38. What \<open>__ffsti2\<close> returns, against the comment above it. For the zero word, which the comment leaves
  open, it is 0. For any other word it is one more than the number \<open>n\<close> of trailing zero bits, where the
  comment promises this number itself. It is 64, which the postcondition excludes, for one word
  only, the one with just its top bit set; on the words that are not negative, as the assumption in the loop (line 28)
  has them, the bound holds.
\<close>

theorem ffsti2_first_set:
  "ffsti2 0 = 0 \<and>
   (w \<noteq> 0 \<longrightarrow> (\<exists>n < 64. bit w n \<and> (\<forall>k < n. \<not> bit w k) \<and> ffsti2 w = n + 1)) \<and>
   (ffsti2 w = 64 \<longleftrightarrow> w = push_bit 63 1) \<and>
   (0 \<le> sint w \<longrightarrow> ffsti2 w < 64)"
proof (intro conjI impI ffsti2_eq_64)
  show "ffsti2 0 = 0" by (rule ffsti2.fs_zero)
  show "\<exists>n < 64. bit w n \<and> (\<forall>k < n. \<not> bit w k) \<and> ffsti2 w = n + 1" if nz: "w \<noteq> 0"
  proof -
    from nz obtain n where "bit w n" "\<And>k. k < n \<Longrightarrow> \<not> bit w k" "ffsti2 w = Suc n"
      by (rule ffsti2.fs_cases) blast
    then show ?thesis using bit_imp_le_length [of w n] by auto
  qed
  show "ffsti2 w < 64" if "0 \<le> sint w"
  proof -
    have "bit w (LENGTH(64) - Suc 0) \<longleftrightarrow> sint w < 0" by (rule bit_last_iff)
    then have "\<not> bit w 63" using that by simp
    then have "w \<noteq> push_bit 63 1" by (auto simp: bit_push_bit_iff)
    then show ?thesis using ffsti2_eq_64 ffsti2.fs_le [of w] by (simp add: order.order_iff_strict)
  qed
qed

text \<open>Three trailing zeros give 4; the top bit alone gives 64.\<close>

theorem ffsti2_first_set_witness:
  "ffsti2 (40 :: u64) = 4 \<and> ffsti2 (push_bit 63 1) = 64"
proof -
  have b: "bit (40 :: u64) 3" "\<not> bit (40 :: u64) 0" "\<not> bit (40 :: u64) 1" "\<not> bit (40 :: u64) 2" by simp_all
  obtain n where n: "bit (40 :: u64) n" "\<forall>k < n. \<not> bit (40 :: u64) k" "ffsti2 40 = n + 1"
    using ffsti2_first_set [of 40] by auto
  have "\<not> 3 < n" "n \<noteq> 0" "n \<noteq> 1" "n \<noteq> 2" using n(1,2) b by metis+
  then have "n = 3" by simp
  then show ?thesis using n(3) ffsti2_first_set [of "push_bit 63 1"] by simp
qed

text \<open>
  The 64-bit search agrees with the 32-bit one on every zero-extended \<open>int\<close>, and \<open>ffsl\<close> and
  \<open>__ffsdi2\<close>, which sign-extend, agree with it on every \<open>long\<close>.
\<close>

theorem ffs_widths_agree:
  "ffsti2 (ucast (i :: u32)) = ffs i \<and> ffsl i = ffs i \<and> ffsdi2 i = ffs i"
proof (cases "i = 0")
  case True
  then show ?thesis by (simp add: ffsl.fs_zero ffsdi2.fs_zero ffsti2.fs_zero ffs_zero)
next
  case False
  then obtain n where n: "bit i n" "\<And>k. k < n \<Longrightarrow> \<not> bit i k" "ffs i = Suc n"
    by (rule ffs.fs_cases) blast
  have "ffsti2 (ucast i) = Suc n"
    using n bit_imp_le_length [OF n(1)] by (intro ffsti2_lsb) (auto simp: bit_ucast_iff)
  moreover have "ffsl i = Suc n" using n by (intro ffsl.fs_lsb)
  moreover have "ffsdi2 i = Suc n" using n by (intro ffsdi2.fs_lsb)
  ultimately show ?thesis using n(3) by simp
qed

text \<open>
  The annotated postconditions (a result below 32 for \<open>ffs\<close>, below 64 for \<open>__ffsti2\<close>) miss one
  word each: the most negative value has only its top bit set, and its position is the width.
\<close>

theorem ffs_top_bit:
  "ffs (push_bit 31 1) = 32 \<and> ffsti2 (push_bit 63 1) = 64"
  using ffs_top_bits by blast

end
