(* ===== verification/Lock.thy ===== *)
theory Lock
  imports Xen_Prelude
begin

text \<open>
  The two locks of lock_verified.c as seen by one thread: the plain lock (\<open>_LOCK_T\<close>) and the
  recursive lock (\<open>_LOCK_RECURSIVE_T\<close>). A blocking operation whose loop never ends is \<open>None\<close>.
  The wait queues carry no state here: \<open>init_waitqueue_head\<close> and \<open>wake_up\<close> have empty bodies in
  the sources. Interleavings of several threads are the subject of \<open>Lock_Interleaving\<close>.
\<close>

section \<open>The plain lock\<close>

record lock_t =
  busy :: u32

definition lock_init :: "lock_t \<Rightarrow> int \<times> lock_t" where
  "lock_init l = (0, l\<lparr>busy := 0\<rparr>)"

text \<open>The loop of \<open>___lock_acquire\<close>: leave it once the lock is seen free.\<close>

partial_function (option) acquire_spin :: "lock_t \<Rightarrow> lock_t option" where
  "acquire_spin l = (if \<not> c_true (busy l) then Some l else acquire_spin l)"

definition lock_acquire :: "lock_t \<Rightarrow> (int \<times> lock_t) option" where
  "lock_acquire l = do {
     l \<leftarrow> acquire_spin l;
     Some (0, l\<lparr>busy := 1\<rparr>) }"

definition lock_try_acquire :: "lock_t \<Rightarrow> int \<times> lock_t" where
  "lock_try_acquire l =
     (if \<not> c_true (busy l) then (0, l\<lparr>busy := 1\<rparr>) else (- 1, l))"

definition lock_release :: "lock_t \<Rightarrow> int \<times> lock_t" where
  "lock_release l = (0, l\<lparr>busy := 0\<rparr>)"

section \<open>The recursive lock\<close>

text \<open>\<open>owner\<close> is a thread pointer, \<open>get_current()\<close> the parameter \<open>cur\<close>.\<close>

record rlock_t =
  owner :: addr
  cnt :: u32

definition lock_init_recursive :: "rlock_t \<Rightarrow> int \<times> rlock_t" where
  "lock_init_recursive l = (0, l\<lparr>owner := NULL\<rparr>)"

partial_function (option) racquire_spin :: "rlock_t \<Rightarrow> rlock_t option" where
  "racquire_spin l = (if owner l = NULL then Some l else racquire_spin l)"

definition lock_acquire_recursive :: "addr \<Rightarrow> rlock_t \<Rightarrow> (int \<times> rlock_t) option" where
  "lock_acquire_recursive cur l = do {
     l \<leftarrow> (if owner l \<noteq> cur then do {
              l \<leftarrow> racquire_spin l;
              Some (l\<lparr>owner := cur\<rparr>) }
            else Some l);
     Some (0, l\<lparr>cnt := cnt l + 1\<rparr>) }"

definition lock_try_acquire_recursive :: "addr \<Rightarrow> rlock_t \<Rightarrow> int \<times> rlock_t" where
  "lock_try_acquire_recursive cur l =
     (if owner l = NULL then (0, l\<lparr>owner := cur, cnt := cnt l + 1\<rparr>) else (- 1, l))"

text \<open>
  \<open>BUG_ON\<close> is an empty stub in the sources and stops the machine in Xen: it is a parameter of
  the release, \<open>None\<close> where it does not return.
\<close>

definition BUG_ON_stub :: "bool \<Rightarrow> unit option" where
  "BUG_ON_stub b = Some ()"

definition lock_release_recursive ::
    "(bool \<Rightarrow> unit option) \<Rightarrow> addr \<Rightarrow> rlock_t \<Rightarrow> (int \<times> rlock_t) option" where
  "lock_release_recursive BUG_ON cur l = do {
     _ \<leftarrow> BUG_ON (owner l \<noteq> cur);
     let l = l\<lparr>cnt := cnt l - 1\<rparr>;
     if c_true (cnt l) then Some (0, l)
     else Some (0, l\<lparr>owner := NULL\<rparr>) }"

section \<open>Spinning\<close>

lemma acquire_spin_returns: "acquire_spin l = (if busy l = 0 then Some l else None)"
proof (cases "busy l = 0")
  case True
  then show ?thesis by (simp add: acquire_spin.simps)
next
  case False
  have "busy r = 0" if "acquire_spin l = Some r" for r
    by (rule acquire_spin.raw_induct [where P = "\<lambda>l r. busy r = 0", OF _ that])
      (auto simp: c_true_def split: if_splits)
  moreover have "r = l" if "acquire_spin l = Some r" for r
    by (rule acquire_spin.raw_induct [where P = "\<lambda>l r. r = l", OF _ that])
      (auto split: if_splits)
  ultimately show ?thesis using False by (metis not_Some_eq)
qed

lemma racquire_spin_returns: "racquire_spin l = (if owner l = NULL then Some l else None)"
proof (cases "owner l = NULL")
  case True
  then show ?thesis by (simp add: racquire_spin.simps)
next
  case False
  have "owner r = NULL \<and> r = l" if "racquire_spin l = Some r" for r
    by (rule racquire_spin.raw_induct [where P = "\<lambda>l r. owner r = NULL \<and> r = l", OF _ that])
      (auto split: if_splits)
  with False show ?thesis by (metis not_Some_eq)
qed

section \<open>The contract of a lock\<close>

text \<open>
  One thread's view of either lock, on the states that satisfy its invariant: trying a free lock
  takes it, trying a held one changes nothing, blocking on a free one is trying it, and releasing
  what was just taken gives the lock back as it was.
\<close>

locale lock_contract =
  fixes free :: "'l \<Rightarrow> bool"
    and inv :: "'l \<Rightarrow> bool"
    and try_lock :: "'l \<Rightarrow> int \<times> 'l"
    and acquire :: "'l \<Rightarrow> (int \<times> 'l) option"
    and release :: "'l \<Rightarrow> (int \<times> 'l) option"
  assumes try_free: "inv l \<Longrightarrow> free l \<Longrightarrow> fst (try_lock l) = 0 \<and> \<not> free (snd (try_lock l))"
    and try_inv: "inv l \<Longrightarrow> inv (snd (try_lock l))"
    and try_held: "inv l \<Longrightarrow> \<not> free l \<Longrightarrow> try_lock l = (- 1, l)"
    and acquire_free: "inv l \<Longrightarrow> free l \<Longrightarrow> acquire l = Some (try_lock l)"
    and release_taken: "inv l \<Longrightarrow> free l \<Longrightarrow> release (snd (try_lock l)) = Some (0, l)"
begin

lemma try_twice: "inv l \<Longrightarrow> free l \<Longrightarrow> try_lock (snd (try_lock l)) = (- 1, snd (try_lock l))"
  using try_free try_inv try_held by blast

lemma try_success_iff: "inv l \<Longrightarrow> fst (try_lock l) = 0 \<longleftrightarrow> free l"
  using try_free try_held by (cases "free l") auto

text \<open>A critical section between a successful acquire and its release leaves the lock as found.\<close>

lemma critical_section:
  "inv l \<Longrightarrow> free l \<Longrightarrow> do { (r, l) \<leftarrow> acquire l; release l } = Some (0, l)"
  using acquire_free [of l] release_taken [of l] by (cases "try_lock l") simp

lemma critical_sections:
  "inv l \<Longrightarrow> free l \<Longrightarrow>
   ((\<lambda>s. s \<bind> (\<lambda>l. do { (r, l) \<leftarrow> acquire l; map_option snd (release l) })) ^^ n) (Some l) = Some l"
proof (induction n)
  case (Suc n)
  then show ?case
    using acquire_free [of l] release_taken [of l] by (cases "try_lock l") simp
qed simp

end

interpretation plain_lock: lock_contract "\<lambda>l. busy l = 0" "\<lambda>l. busy l = 0 \<or> busy l = 1"
  lock_try_acquire lock_acquire "\<lambda>l. Some (lock_release l)"
  by unfold_locales
    (auto simp: lock_try_acquire_def lock_acquire_def lock_release_def acquire_spin_returns c_true_def)

text \<open>The invariant of the recursive lock: it has an owner exactly while its count is positive.\<close>

definition rlock_inv :: "rlock_t \<Rightarrow> bool" where
  "rlock_inv l \<longleftrightarrow> (owner l = NULL \<longleftrightarrow> cnt l = 0)"

lemma recursive_lock_contract:
  assumes cur: "cur \<noteq> NULL" and bug: "BUG_ON False = Some ()"
  shows "lock_contract (\<lambda>l. owner l = NULL) rlock_inv (lock_try_acquire_recursive cur)
    (lock_acquire_recursive cur) (lock_release_recursive BUG_ON cur)"
  using assms
  by unfold_locales
    (auto simp: rlock_inv_def lock_try_acquire_recursive_def lock_acquire_recursive_def
      lock_release_recursive_def racquire_spin_returns c_true_def)

text \<open>A thread pointer is never NULL, so the current thread is \<open>Suc t\<close>.\<close>

interpretation recursive_lock: lock_contract "\<lambda>l. owner l = NULL" rlock_inv
  "lock_try_acquire_recursive (Suc t)" "lock_acquire_recursive (Suc t)"
  "lock_release_recursive BUG_ON_stub (Suc t)" for t
  by (rule recursive_lock_contract) (simp_all add: BUG_ON_stub_def)

section \<open>Nesting\<close>

fun acquire_times :: "nat \<Rightarrow> addr \<Rightarrow> rlock_t \<Rightarrow> rlock_t option" where
  "acquire_times 0 cur l = Some l"
| "acquire_times (Suc n) cur l = do {
     (_, l') \<leftarrow> lock_acquire_recursive cur l;
     acquire_times n cur l' }"

fun release_times :: "nat \<Rightarrow> addr \<Rightarrow> rlock_t \<Rightarrow> rlock_t option" where
  "release_times 0 cur l = Some l"
| "release_times (Suc n) cur l = do {
     (_, l') \<leftarrow> lock_release_recursive BUG_ON_stub cur l;
     release_times n cur l' }"

lemma acquire_times_owned:
  "owner l = cur \<Longrightarrow> acquire_times n cur l = Some (l\<lparr>cnt := cnt l + of_nat n\<rparr>)"
  by (induction n arbitrary: l) (simp_all add: lock_acquire_recursive_def add.assoc)

lemma release_times_owned:
  "owner l = cur \<Longrightarrow> cnt l = of_nat n \<Longrightarrow> n < 2 ^ 32 \<Longrightarrow> k < n \<Longrightarrow>
   release_times k cur l = Some (l\<lparr>cnt := of_nat (n - k)\<rparr>)"
proof (induction k arbitrary: l n)
  case (Suc k)
  then obtain n' where n: "n = Suc n'" "0 < n'" by (cases n) auto
  have "(of_nat n' :: u32) \<noteq> 0"
    using n Suc.prems(3) by (simp add: word_of_nat_eq_0_iff nat_dvd_not_less)
  with Suc n show ?case
    by (simp add: lock_release_recursive_def BUG_ON_stub_def c_true_def Let_def)
qed simp

lemma release_times_add:
  "release_times (j + k) cur l = release_times j cur l \<bind> release_times k cur"
proof (induction j arbitrary: l)
  case (Suc j)
  then show ?case
    by (cases "lock_release_recursive BUG_ON_stub cur l") (auto simp: split_def)
qed simp

section \<open>What the locks promise\<close>

text \<open>
  A thread that takes a free recursive lock \<open>n\<close> times and releases it \<open>k\<close> times holds it with
  count \<open>n - k\<close>; it owns the lock until the last release, which frees it, and none of these calls
  blocks.
\<close>

theorem recursive_lock_nesting:
  assumes "owner l = NULL" "cnt l = 0" "cur \<noteq> NULL" "0 < n" "n < 2 ^ 32" "k \<le> n"
  shows "acquire_times n cur l \<bind> release_times k cur =
    Some (if k = n then l else l\<lparr>owner := cur, cnt := of_nat (n - k)\<rparr>)"
proof -
  obtain n' where n: "n = Suc n'" using assms(4) by (cases n) auto
  let ?l = "l\<lparr>owner := cur, cnt := of_nat n\<rparr>"
  have acq: "acquire_times n cur l = Some ?l"
    using assms n
    by (simp add: lock_acquire_recursive_def racquire_spin_returns acquire_times_owned)
  show ?thesis
  proof (cases "k = n")
    case False
    then show ?thesis
      using acq assms release_times_owned [of ?l cur n k] by simp
  next
    case True
    have "release_times n' cur ?l = Some (?l\<lparr>cnt := 1\<rparr>)"
      using assms n release_times_owned [of ?l cur n n'] by simp
    then have "release_times n cur ?l = Some (l\<lparr>owner := NULL, cnt := 0\<rparr>)"
      using release_times_add [of n' 1 cur ?l] n
      by (simp add: lock_release_recursive_def BUG_ON_stub_def Let_def)
    then show ?thesis using acq True assms(1,2) by simp
  qed
qed

theorem recursive_lock_nesting_witness:
  "acquire_times 2 7 \<lparr>owner = 0, cnt = 0\<rparr> \<bind> release_times 1 7 = Some \<lparr>owner = 7, cnt = 1\<rparr>"
  using recursive_lock_nesting [of "\<lparr>owner = 0, cnt = 0\<rparr>" 7 2 1] by simp

text \<open>
  \<open>___lock_init_recursive\<close> does not reset the count. Initialised over a positive count, the
  lock is never freed by a matching acquire and release, and every other thread that then asks for
  it spins forever.
\<close>

theorem lock_init_recursive_stale_count:
  assumes "cnt l = c" "c \<noteq> 0" "cur \<noteq> NULL" "other \<noteq> cur"
  shows "\<exists>l'. lock_acquire_recursive cur (snd (lock_init_recursive l)) = Some (0, l') \<and>
    lock_release_recursive BUG_ON_stub cur l' = Some (0, l\<lparr>owner := cur\<rparr>) \<and>
    lock_acquire_recursive other (l\<lparr>owner := cur\<rparr>) = None"
  using assms
  by (auto simp: lock_init_recursive_def lock_acquire_recursive_def lock_release_recursive_def
      BUG_ON_stub_def racquire_spin_returns c_true_def Let_def)

theorem lock_init_recursive_stale_count_witness:
  "lock_acquire_recursive 8 (\<lparr>owner = 5, cnt = 3\<rparr>\<lparr>owner := 7\<rparr>) = None"
  using lock_init_recursive_stale_count [of "\<lparr>owner = 5, cnt = 3\<rparr>" 3 7 8] by auto

text \<open>
  On a free plain lock, acquire, try and release keep their contract: any number of critical
  sections leaves the lock free, trying it twice fails the second time and changes nothing, and
  acquiring it while it is held never returns.
\<close>

theorem plain_lock_sections:
  assumes "busy l = 0"
  shows "((\<lambda>s. s \<bind> (\<lambda>l. do {
      (r, l) \<leftarrow> lock_acquire l;
      map_option snd (Some (lock_release l)) })) ^^ n) (Some l) = Some l \<and>
    lock_try_acquire (snd (lock_try_acquire l)) = (- 1, snd (lock_try_acquire l)) \<and>
    lock_acquire (snd (lock_try_acquire l)) = None"
proof (intro conjI)
  show "((\<lambda>s. s \<bind> (\<lambda>l. do {
      (r, l) \<leftarrow> lock_acquire l;
      map_option snd (Some (lock_release l)) })) ^^ n) (Some l) = Some l"
    using assms by (intro plain_lock.critical_sections) auto
  show "lock_try_acquire (snd (lock_try_acquire l)) = (- 1, snd (lock_try_acquire l))"
    using assms by (intro plain_lock.try_twice) auto
  show "lock_acquire (snd (lock_try_acquire l)) = None"
    using assms by (simp add: lock_acquire_def lock_try_acquire_def acquire_spin_returns)
qed

theorem plain_lock_sections_witness:
  "lock_acquire (snd (lock_try_acquire \<lparr>busy = 0\<rparr>)) = None"
  using plain_lock_sections [of "\<lparr>busy = 0\<rparr>"] by simp

end
