(* ===== verification/Preemption.thy ===== *)
theory Preemption
  imports Xen_Prelude
begin

text \<open>
  Threads of one processor that share a lock, under preemption. A lock's functions are given as
  statements: what the running thread can execute next, from the lock and the place where it
  stands. A switch to another thread can happen between any two statements while interrupts are
  enabled. The locale \<open>lock_statements\<close> is the contract such statements have to meet; from it follow,
  once for every lock, mutual exclusion and the refinement of an atomic lock. The proof is
  Owicki and Gries' one: an assertion for every place, kept by the thread's own statements and not
  disturbed by those of the others. Whether interrupts are masked, and where the scheduler preempts
  a thread, are parameters: the sources leave both open.
\<close>

section \<open>Threads and steps\<close>

text \<open>What a statement does to the interrupt flag: \<open>local_irq_save\<close>, \<open>local_irq_restore\<close>, neither.\<close>

datatype irq = Keep | Save | Restore

type_synonym ('l, 'pc) statements = "nat \<Rightarrow> 'l \<Rightarrow> 'pc \<Rightarrow> ('l \<times> irq \<times> 'pc) list"

record ('l, 'pc) sys =
  lock :: 'l
  irqs_off :: bool
  running :: nat
  pcs :: "nat \<Rightarrow> 'pc"

text \<open>
  The machine: whether \<open>local_irq_save\<close> disables interrupts (Xen's does, the stub in the sources does
  nothing), and the places at which a thread can lose the processor when interrupts are enabled (a
  scheduler that preempts everywhere, a cooperative one, or anything between). The lock functions
  are called with interrupts enabled.
\<close>

record 'pc machine =
  irq_masks :: bool
  preempts :: "'pc \<Rightarrow> bool"

definition masking :: "'pc machine" where
  "masking = \<lparr>irq_masks = True, preempts = (\<lambda>_. True)\<rparr>"

definition stub :: "('pc \<Rightarrow> bool) \<Rightarrow> 'pc machine" where
  "stub places = \<lparr>irq_masks = False, preempts = places\<rparr>"

lemma machine_simps [simp]:
  "irq_masks masking" "preempts masking c" "\<not> irq_masks (stub places)" "preempts (stub places) c = places c"
  by (simp_all add: masking_def stub_def)

fun irq_after :: "bool \<Rightarrow> irq \<Rightarrow> bool \<Rightarrow> bool" where
  "irq_after masks Keep off = off"
| "irq_after masks Save off = masks"
| "irq_after masks Restore off = False"

definition execute :: "'pc machine \<Rightarrow> 'l \<times> irq \<times> 'pc \<Rightarrow> ('l, 'pc) sys \<Rightarrow> ('l, 'pc) sys" where
  "execute m e s = (case e of (l, i, c) \<Rightarrow>
     s\<lparr>lock := l, irqs_off := irq_after (irq_masks m) i (irqs_off s), pcs := (pcs s)(running s := c)\<rparr>)"

definition next_statements :: "('l, 'pc) statements \<Rightarrow> ('l, 'pc) sys \<Rightarrow> ('l \<times> irq \<times> 'pc) list" where
  "next_statements stmts s = stmts (running s) (lock s) (pcs s (running s))"

inductive sys_step :: "'pc machine \<Rightarrow> ('l, 'pc) statements \<Rightarrow> ('l, 'pc) sys \<Rightarrow> ('l, 'pc) sys \<Rightarrow> bool"
  for m stmts where
  switch: "\<not> irqs_off s \<Longrightarrow> preempts m (pcs s (running s)) \<Longrightarrow> sys_step m stmts s (s\<lparr>running := t\<rparr>)"
| statement: "e \<in> set (next_statements stmts s) \<Longrightarrow> sys_step m stmts s (execute m e s)"

definition start_sys :: "'l \<Rightarrow> 'pc \<Rightarrow> ('l, 'pc) sys" where
  "start_sys l c = \<lparr>lock = l, irqs_off = False, running = 0, pcs = (\<lambda>_. c)\<rparr>"

inductive reach :: "'pc machine \<Rightarrow> ('l, 'pc) statements \<Rightarrow> ('l, 'pc) sys \<Rightarrow> ('l, 'pc) sys \<Rightarrow> bool"
  for m stmts s\<^sub>0 where
  start: "reach m stmts s\<^sub>0 s\<^sub>0"
| step: "reach m stmts s\<^sub>0 s \<Longrightarrow> sys_step m stmts s t \<Longrightarrow> reach m stmts s\<^sub>0 t"

inductive_cases stepE: "sys_step m stmts s t"

text \<open>The running thread's first possible statement, as a function.\<close>

definition advance :: "'pc machine \<Rightarrow> ('l, 'pc) statements \<Rightarrow> ('l, 'pc) sys \<Rightarrow> ('l, 'pc) sys" where
  "advance m stmts s = (case next_statements stmts s of [] \<Rightarrow> s | e # _ \<Rightarrow> execute m e s)"

lemmas run_simps = numeral_eq_Suc advance_def next_statements_def execute_def start_sys_def

lemma advance_cases:
  "advance m stmts s = s \<or> sys_step m stmts s (advance m stmts s)"
  by (cases "next_statements stmts s") (auto simp: advance_def intro: sys_step.statement)

lemma reach_advance:
  "reach m stmts s\<^sub>0 s \<Longrightarrow> reach m stmts s\<^sub>0 ((advance m stmts ^^ n) s)"
proof (induction n)
  case (Suc n)
  then show ?case
    using advance_cases [of m stmts "(advance m stmts ^^ n) s"] by (auto intro: reach.step)
qed simp

lemma reach_switch:
  "reach m stmts s\<^sub>0 s \<Longrightarrow> \<not> irqs_off s \<Longrightarrow> preempts m (pcs s (running s)) \<Longrightarrow>
   reach m stmts s\<^sub>0 (s\<lparr>running := t\<rparr>)"
  by (auto intro: reach.step sys_step.switch)

lemma reach_trans: "reach m stmts s t \<Longrightarrow> reach m stmts s\<^sub>0 s \<Longrightarrow> reach m stmts s\<^sub>0 t"
  by (induction rule: reach.induct) (auto intro: reach.step)

lemma execute_simps [simp]:
  "lock (execute m (l, i, c) s) = l"
  "irqs_off (execute m (l, i, c) s) = irq_after (irq_masks m) i (irqs_off s)"
  "running (execute m (l, i, c) s) = running s"
  "pcs (execute m (l, i, c) s) = (pcs s)(running s := c)"
  by (simp_all add: execute_def)

section \<open>The atomic lock\<close>

text \<open>
  The specification: the state is the holder, if any; threads take the lock when nobody holds it,
  give it back when they hold it, and are refused when somebody does.
\<close>

datatype lock_event = Takes nat | Gives nat | Refused nat

fun spec_step :: "lock_event \<Rightarrow> nat option \<Rightarrow> nat option option" where
  "spec_step (Takes t) h = (if h = None then Some (Some t) else None)"
| "spec_step (Gives t) h = (if h = Some t then Some None else None)"
| "spec_step (Refused t) h = (if h \<noteq> None then Some h else None)"

fun spec_run :: "lock_event list \<Rightarrow> nat option \<Rightarrow> nat option option" where
  "spec_run [] h = Some h"
| "spec_run (e # es) h = spec_step e h \<bind> spec_run es"

lemma spec_run_append: "spec_run (es @ es') h = spec_run es h \<bind> spec_run es'"
proof (induction es arbitrary: h)
  case (Cons e es)
  then show ?case by (cases "spec_step e h") simp_all
qed simp

text \<open>
  The event a thread's statement stands for, from the places before and after it: which of them
  own the lock (\<open>owns\<close>), and which are those of a failed attempt (\<open>refused\<close>).
\<close>

definition events_between :: "('pc \<Rightarrow> bool) \<Rightarrow> ('pc \<Rightarrow> bool) \<Rightarrow> nat \<Rightarrow> 'pc \<Rightarrow> 'pc \<Rightarrow> lock_event list" where
  "events_between owns refused t c c' =
     (if owns c' \<and> \<not> owns c then [Takes t] else if owns c \<and> \<not> owns c' then [Gives t]
      else if refused c' \<and> \<not> refused c then [Refused t] else [])"

definition events_of :: "('pc \<Rightarrow> bool) \<Rightarrow> ('pc \<Rightarrow> bool) \<Rightarrow> ('l, 'pc) sys \<Rightarrow> ('l, 'pc) sys \<Rightarrow> lock_event list" where
  "events_of owns refused s s' =
     events_between owns refused (running s) (pcs s (running s)) (pcs s' (running s))"

text \<open>\<open>trace m stmts owns refused s\<^sub>0 es s\<close>: a run from \<open>s\<^sub>0\<close> to \<open>s\<close> with the events \<open>es\<close>.\<close>

inductive trace ::
    "'pc machine \<Rightarrow> ('l, 'pc) statements \<Rightarrow> ('pc \<Rightarrow> bool) \<Rightarrow> ('pc \<Rightarrow> bool) \<Rightarrow> ('l, 'pc) sys \<Rightarrow>
     lock_event list \<Rightarrow> ('l, 'pc) sys \<Rightarrow> bool"
  for m stmts owns refused s\<^sub>0 where
  trace_start: "trace m stmts owns refused s\<^sub>0 [] s\<^sub>0"
| trace_step: "trace m stmts owns refused s\<^sub>0 es s \<Longrightarrow> sys_step m stmts s t \<Longrightarrow>
    trace m stmts owns refused s\<^sub>0 (es @ events_of owns refused s t) t"

lemma trace_reach: "trace m stmts owns refused s\<^sub>0 es s \<Longrightarrow> reach m stmts s\<^sub>0 s"
  by (induction rule: trace.induct) (auto intro: reach.intros)

lemma reach_trace: "reach m stmts s\<^sub>0 s \<Longrightarrow> \<exists>es. trace m stmts owns refused s\<^sub>0 es s"
  by (induction rule: reach.induct) (auto intro: trace.intros)

text \<open>
  A schedule: to which thread the processor switches, which of its possible statements the running
  thread executes. A choice that is not possible is passed over.
\<close>

datatype choice = Switch nat | Run nat

fun replay ::
    "'pc machine \<Rightarrow> ('l, 'pc) statements \<Rightarrow> ('pc \<Rightarrow> bool) \<Rightarrow> ('pc \<Rightarrow> bool) \<Rightarrow> choice list \<Rightarrow> ('l, 'pc) sys \<Rightarrow>
     lock_event list \<times> ('l, 'pc) sys" where
  "replay m stmts owns refused [] s = ([], s)"
| "replay m stmts owns refused (Switch t # cs) s =
     replay m stmts owns refused cs (if irqs_off s \<or> \<not> preempts m (pcs s (running s)) then s else s\<lparr>running := t\<rparr>)"
| "replay m stmts owns refused (Run k # cs) s =
     (if k < length (next_statements stmts s) then
        let s' = execute m (next_statements stmts s ! k) s;
            (es, s'') = replay m stmts owns refused cs s'
        in (events_of owns refused s s' @ es, s'')
      else replay m stmts owns refused cs s)"

lemma trace_switch:
  "trace m stmts owns refused s\<^sub>0 es s \<Longrightarrow> \<not> irqs_off s \<Longrightarrow> preempts m (pcs s (running s)) \<Longrightarrow>
   trace m stmts owns refused s\<^sub>0 es (s\<lparr>running := t\<rparr>)"
  using trace.trace_step [of m stmts owns refused s\<^sub>0 es s "s\<lparr>running := t\<rparr>"]
  by (fastforce simp: events_of_def events_between_def intro: sys_step.switch)

lemma trace_replay:
  "trace m stmts owns refused s\<^sub>0 es s \<Longrightarrow> replay m stmts owns refused cs s = (es', s') \<Longrightarrow>
   trace m stmts owns refused s\<^sub>0 (es @ es') s'"
proof (induction cs arbitrary: es es' s)
  case (Cons c cs)
  show ?case
  proof (cases c)
    case (Switch t)
    have "trace m stmts owns refused s\<^sub>0 es
      (if irqs_off s \<or> \<not> preempts m (pcs s (running s)) then s else s\<lparr>running := t\<rparr>)"
      using Cons.prems(1) trace_switch [OF Cons.prems(1)] by simp
    from Cons.IH [OF this] show ?thesis using Cons.prems(2) Switch by simp
  next
    case (Run k)
    let ?n = "execute m (next_statements stmts s ! k) s"
    show ?thesis
    proof (cases "k < length (next_statements stmts s)")
      case True
      then have "sys_step m stmts s ?n" by (intro sys_step.statement nth_mem)
      with Cons.prems(1) have "trace m stmts owns refused s\<^sub>0 (es @ events_of owns refused s ?n) ?n"
        by (rule trace.trace_step)
      from Cons.IH [OF this] show ?thesis
        using Cons.prems(2) Run True by (auto simp: Let_def split: prod.splits)
    next
      case False
      then show ?thesis using Cons Run by simp
    qed
  qed
qed simp

lemmas replay_simps = run_simps events_of_def events_between_def

definition holder_is :: "('pc \<Rightarrow> bool) \<Rightarrow> nat option \<Rightarrow> ('l, 'pc) sys \<Rightarrow> bool" where
  "holder_is owns h s \<longleftrightarrow> (\<forall>t. owns (pcs s t) \<longleftrightarrow> h = Some t)"

section \<open>The contract of a lock's statements\<close>

text \<open>
  \<open>inv t l c\<close> is the assertion of thread \<open>t\<close> at the place \<open>c\<close>; \<open>held\<close> says whether the lock counts as
  taken. The law \<open>other\<close> is the freedom from interference: a statement of one thread keeps the
  assertion of another one, which does not stand at a \<open>critical\<close> place, where a test of the lock is still
  to be acted on. The critical places lie in the parts executed between \<open>local_irq_save\<close> and
  \<open>local_irq_restore\<close>, the \<open>masked\<close> ones.
\<close>

locale lock_statements =
  fixes stmts :: "('l, 'pc) statements"
    and l\<^sub>0 :: 'l
    and c\<^sub>0 :: 'pc
    and masked :: "'pc \<Rightarrow> bool"
    and critical :: "'pc \<Rightarrow> bool"
    and owns :: "'pc \<Rightarrow> bool"
    and refused :: "'pc \<Rightarrow> bool"
    and held :: "'l \<Rightarrow> bool"
    and inv :: "nat \<Rightarrow> 'l \<Rightarrow> 'pc \<Rightarrow> bool"
  assumes start_ok: "\<not> masked c\<^sub>0 \<and> \<not> owns c\<^sub>0 \<and> \<not> held l\<^sub>0 \<and> inv t l\<^sub>0 c\<^sub>0"
    and critical_masked: "critical c \<Longrightarrow> masked c"
    and irq: "(l', i, c') \<in> set (stmts t l c) \<Longrightarrow> masked c' \<longleftrightarrow> irq_after True i (masked c)"
    and own: "(l', i, c') \<in> set (stmts t l c) \<Longrightarrow> inv t l c \<Longrightarrow> inv t l' c'"
    and other: "(l', i, c') \<in> set (stmts t l c) \<Longrightarrow> inv t l c \<Longrightarrow> inv u l d \<Longrightarrow> t \<noteq> u \<Longrightarrow>
      \<not> critical d \<Longrightarrow> \<not> (owns c \<and> owns d) \<Longrightarrow> inv u l' d"
    and owns_held: "inv t l c \<Longrightarrow> owns c \<Longrightarrow> held l"
    and takes: "(l', i, c') \<in> set (stmts t l c) \<Longrightarrow> inv t l c \<Longrightarrow> owns c' \<Longrightarrow> \<not> owns c \<Longrightarrow> \<not> held l"
    and holds: "(l', i, c') \<in> set (stmts t l c) \<Longrightarrow> inv t l c \<Longrightarrow> \<not> (owns c \<and> \<not> owns c') \<Longrightarrow>
      held l' \<longleftrightarrow> held l \<or> owns c'"
    and gives: "(l', i, c') \<in> set (stmts t l c) \<Longrightarrow> inv t l c \<Longrightarrow> owns c \<Longrightarrow> \<not> owns c' \<Longrightarrow> \<not> held l'"
    and refuses: "(l', i, c') \<in> set (stmts t l c) \<Longrightarrow> inv t l c \<Longrightarrow> refused c' \<Longrightarrow> \<not> refused c \<Longrightarrow> held l"
begin

text \<open>
  The machines on which the lock works: either interrupts are masked, or no thread is preempted at
  a critical place (\<open>guarded\<close>) or at any masked one (\<open>closed\<close>).
\<close>

definition guarded :: "'pc machine \<Rightarrow> bool" where
  "guarded m \<longleftrightarrow> irq_masks m \<or> (\<forall>c. critical c \<longrightarrow> \<not> preempts m c)"

definition closed :: "'pc machine \<Rightarrow> bool" where
  "closed m \<longleftrightarrow> irq_masks m \<or> (\<forall>c. masked c \<longrightarrow> \<not> preempts m c)"

lemma closed_guarded: "closed m \<Longrightarrow> guarded m"
  using critical_masked by (auto simp: closed_def guarded_def)

definition sys_inv :: "'pc machine \<Rightarrow> ('l, 'pc) sys \<Rightarrow> bool" where
  "sys_inv m s \<longleftrightarrow>
     (\<forall>t. inv t (lock s) (pcs s t)) \<and>
     (\<forall>t. t \<noteq> running s \<longrightarrow> \<not> critical (pcs s t) \<and> (closed m \<longrightarrow> \<not> masked (pcs s t))) \<and>
     (irqs_off s \<longleftrightarrow> irq_masks m \<and> masked (pcs s (running s))) \<and>
     (\<forall>t u. owns (pcs s t) \<and> owns (pcs s u) \<longrightarrow> t = u) \<and>
     (held (lock s) \<longrightarrow> (\<exists>t. owns (pcs s t)))"

lemma sys_inv_start: "sys_inv m (start_sys l\<^sub>0 c\<^sub>0)"
  using start_ok critical_masked by (auto simp: sys_inv_def start_sys_def)

lemma preempted_place:
  assumes "sys_inv m s" "\<not> irqs_off s" "preempts m (pcs s (running s))" "guarded m"
  shows "\<not> critical (pcs s (running s)) \<and> (closed m \<longrightarrow> \<not> masked (pcs s (running s)))"
  using assms critical_masked by (auto simp: sys_inv_def guarded_def closed_def)

lemma sys_inv_switch:
  assumes "sys_inv m s" "\<not> irqs_off s" "preempts m (pcs s (running s))" "guarded m"
  shows "sys_inv m (s\<lparr>running := t\<rparr>)"
proof -
  have "closed m" if "irq_masks m" using that by (simp add: closed_def)
  then show ?thesis using assms(1,2) preempted_place [OF assms] unfolding sys_inv_def by (simp, metis)
qed

lemma sys_inv_execute:
  assumes s: "sys_inv m s" and e: "(l', i, c') \<in> set (next_statements stmts s)"
  shows "sys_inv m (execute m (l', i, c') s)"
proof -
  let ?t = "running s" let ?c = "pcs s ?t"
  have e: "(l', i, c') \<in> set (stmts ?t (lock s) ?c)" using e by (simp add: next_statements_def)
  have inv: "inv u (lock s) (pcs s u)" for u using s by (simp add: sys_inv_def)
  have others: "\<not> critical (pcs s u) \<and> (closed m \<longrightarrow> \<not> masked (pcs s u))" if "u \<noteq> ?t" for u
    using s that by (simp add: sys_inv_def)
  have one: "u = v" if "owns (pcs s u)" "owns (pcs s v)" for u v using s that by (simp add: sys_inv_def)
  have owner: "\<exists>u. owns (pcs s u)" if "held (lock s)" using s that by (simp add: sys_inv_def)
  have inv': "inv u l' (((pcs s)(?t := c')) u)" for u
  proof (cases "u = ?t")
    case True
    then show ?thesis using own [OF e inv] by simp
  next
    case False
    then have "\<not> critical (pcs s u)" "\<not> (owns ?c \<and> owns (pcs s u))" using others one by auto
    then show ?thesis using other [OF e inv inv] False by simp
  qed
  have one': "u = v" if "owns (((pcs s)(?t := c')) u)" "owns (((pcs s)(?t := c')) v)" for u v
    using that takes [OF e inv] owns_held [OF inv] one by (auto split: if_splits)
  have owner': "\<exists>u. owns (((pcs s)(?t := c')) u)" if "held l'"
  proof (cases "owns c'")
    case False
    with that have "\<not> owns ?c" "held (lock s)" using gives [OF e inv] holds [OF e inv] by auto
    then show ?thesis using owner by (metis fun_upd_other)
  qed (auto intro: exI [of _ ?t])
  have "irqs_off s \<longleftrightarrow> irq_masks m \<and> masked ?c" using s by (simp add: sys_inv_def)
  then have irqs: "irq_after (irq_masks m) i (irqs_off s) \<longleftrightarrow> irq_masks m \<and> masked c'"
    using irq [OF e] by (cases i) auto
  have others': "\<not> critical (((pcs s)(?t := c')) u)" "closed m \<Longrightarrow> \<not> masked (((pcs s)(?t := c')) u)"
    if "u \<noteq> ?t" for u using others that by simp_all
  show ?thesis
    unfolding sys_inv_def execute_simps fun_upd_same
    by (intro conjI allI impI; (elim conjE)?; (rule inv' others' irqs one' owner'; assumption?))
qed

lemma sys_inv_step: "sys_step m stmts s t \<Longrightarrow> guarded m \<Longrightarrow> sys_inv m s \<Longrightarrow> sys_inv m t"
  by (erule stepE) (auto intro: sys_inv_switch sys_inv_execute)

lemma reach_inv: "guarded m \<Longrightarrow> reach m stmts (start_sys l\<^sub>0 c\<^sub>0) s \<Longrightarrow> sys_inv m s"
  by (rotate_tac, induction rule: reach.induct) (auto intro: sys_inv_start sys_inv_step)

lemma assertion: "guarded m \<Longrightarrow> reach m stmts (start_sys l\<^sub>0 c\<^sub>0) s \<Longrightarrow> inv t (lock s) (pcs s t)"
  using reach_inv by (simp add: sys_inv_def)

lemma mutual_exclusion:
  "guarded m \<Longrightarrow> reach m stmts (start_sys l\<^sub>0 c\<^sub>0) s \<Longrightarrow> owns (pcs s t) \<Longrightarrow> owns (pcs s u) \<Longrightarrow> t = u"
  using reach_inv by (simp add: sys_inv_def)

lemma holder_held: "sys_inv m s \<Longrightarrow> holder_is owns h s \<Longrightarrow> held (lock s) \<longleftrightarrow> h \<noteq> None"
  using owns_held by (fastforce simp: sys_inv_def holder_is_def)

lemma step_refines:
  assumes s: "sys_inv m s" "holder_is owns h s" and st: "sys_step m stmts s s'"
  shows "\<exists>h'. spec_run (events_of owns refused s s') h = Some h' \<and> holder_is owns h' s'"
  using st
proof (cases rule: sys_step.cases)
  case (switch t)
  then show ?thesis using s(2) by (simp add: events_of_def events_between_def holder_is_def)
next
  case (statement e)
  obtain l' i c' where e: "e = (l', i, c')" by (cases e)
  let ?t = "running s" let ?c = "pcs s ?t"
  have st: "(l', i, c') \<in> set (stmts ?t (lock s) ?c)"
    using statement e by (simp add: next_statements_def)
  have inv: "inv ?t (lock s) ?c" using s(1) by (simp add: sys_inv_def)
  have held: "held (lock s) \<longleftrightarrow> h \<noteq> None" using holder_held s by blast
  have h: "owns (pcs s u) \<longleftrightarrow> h = Some u" for u using s(2) by (simp add: holder_is_def)
  show ?thesis
    using takes [OF st inv] refuses [OF st inv] held h statement(1) e
    by (auto simp: events_of_def events_between_def holder_is_def)
qed

text \<open>Every run, at the granularity of statements, is one of the atomic lock.\<close>

lemma refines_atomic_lock:
  "trace m stmts owns refused (start_sys l\<^sub>0 c\<^sub>0) es s \<Longrightarrow> guarded m \<Longrightarrow>
   \<exists>h. spec_run es None = Some h \<and> holder_is owns h s"
proof (induction rule: trace.induct)
  case trace_start
  then show ?case using start_ok by (simp add: holder_is_def start_sys_def)
next
  case (trace_step es s t)
  then obtain h where h: "spec_run es None = Some h" "holder_is owns h s" by blast
  from step_refines [OF reach_inv [OF trace_step(4) trace_reach [OF trace_step(1)]] h(2) trace_step(2)] h(1)
  show ?case by (auto simp: spec_run_append)
qed

end

section \<open>Progress\<close>

text \<open>
  A thread that runs alone: \<open>solo stmts t ks\<close> executes, from the lock and the place of \<open>t\<close>, the possible
  statements numbered \<open>ks\<close>. A number that is not possible is passed over.
\<close>

fun solo :: "('l, 'pc) statements \<Rightarrow> nat \<Rightarrow> nat list \<Rightarrow> 'l \<times> 'pc \<Rightarrow> 'l \<times> 'pc" where
  "solo stmts t [] p = p"
| "solo stmts t (k # ks) (l, c) =
     (if k < length (stmts t l c) then case stmts t l c ! k of (l', i, c') \<Rightarrow> solo stmts t ks (l', c')
      else solo stmts t ks (l, c))"

lemma solo_append: "solo stmts t (ks @ ks') p = solo stmts t ks' (solo stmts t ks p)"
  by (induction stmts t ks p rule: solo.induct) (auto split: prod.split)

lemma reach_solo:
  "\<exists>s'. reach m stmts s s' \<and> running s' = running s \<and>
     (lock s', pcs s' (running s)) = solo stmts (running s) ks (lock s, pcs s (running s))"
proof (induction ks arbitrary: s)
  case Nil
  show ?case by (intro exI [of _ s]) (simp add: reach.start)
next
  case (Cons k ks)
  show ?case
  proof (cases "k < length (next_statements stmts s)")
    case True
    let ?n = "execute m (next_statements stmts s ! k) s"
    obtain l' i c' where e: "next_statements stmts s ! k = (l', i, c')" by (rule prod_cases3)
    have "sys_step m stmts s ?n" using True by (intro sys_step.statement nth_mem)
    then have r: "reach m stmts s ?n" by (rule reach.step [OF reach.start])
    obtain s' where "reach m stmts ?n s'" "running s' = running ?n"
        "(lock s', pcs s' (running ?n)) = solo stmts (running ?n) ks (lock ?n, pcs ?n (running ?n))"
      using Cons.IH by blast
    then show ?thesis
      using True e reach_trans [OF _ r] by (intro exI [of _ s']) (simp add: next_statements_def)
  next
    case False
    then show ?thesis using Cons.IH [of s] by (simp add: next_statements_def)
  qed
qed

text \<open>
  What a lock has to promise so that no thread is locked out: a masked part ends, a thread that owns
  the lock can give it up, and a thread that finds the lock free gets to the place \<open>home\<close>, where it
  holds it.
\<close>

locale live_lock = lock_statements +
  fixes home :: 'b
  assumes masked_ends: "masked c \<Longrightarrow> inv t l c \<Longrightarrow> \<exists>ks. \<not> masked (snd (solo stmts t ks (l, c)))"
    and owner_gives_up: "owns c \<Longrightarrow> \<not> masked c \<Longrightarrow> inv t l c \<Longrightarrow>
      \<exists>ks. \<not> held (fst (solo stmts t ks (l, c))) \<and> \<not> masked (snd (solo stmts t ks (l, c)))"
    and free_taken: "\<not> held l \<Longrightarrow> \<not> masked c \<Longrightarrow> inv t l c \<Longrightarrow> \<exists>ks. snd (solo stmts t ks (l, c)) = home"
begin

text \<open>The running thread leaves its masked part.\<close>

lemma gets_unmasked:
  assumes "sys_inv m s"
  shows "\<exists>s'. reach m stmts s s' \<and> \<not> masked (pcs s' (running s'))"
proof (cases "masked (pcs s (running s))")
  case True
  with assms obtain ks where k: "\<not> masked (snd (solo stmts (running s) ks (lock s, pcs s (running s))))"
    using masked_ends by (metis sys_inv_def)
  from reach_solo [of m stmts s ks] obtain s' where "reach m stmts s s'" "running s' = running s"
      "(lock s', pcs s' (running s)) = solo stmts (running s) ks (lock s, pcs s (running s))" by blast
  then show ?thesis using k by (metis snd_conv)
qed (auto intro: reach.start)

text \<open>
  On a closed machine that preempts outside the masked parts, any thread can be given the processor
  when the running one stands there.
\<close>

definition fair :: "'b machine \<Rightarrow> bool" where
  "fair m \<longleftrightarrow> closed m \<and> (\<forall>c. \<not> masked c \<longrightarrow> preempts m c)"

lemma fair_guarded: "fair m \<Longrightarrow> guarded m"
  by (simp add: fair_def closed_guarded)

lemma all_unmasked:
  "fair m \<Longrightarrow> sys_inv m s \<Longrightarrow> \<not> masked (pcs s (running s)) \<Longrightarrow> \<not> masked (pcs s t)"
  by (cases "t = running s") (auto simp: fair_def sys_inv_def)

lemma runs_solo:
  assumes "fair m" "sys_inv m s" "\<not> masked (pcs s (running s))"
  shows "\<exists>s'. reach m stmts s s' \<and> running s' = t \<and> (lock s', pcs s' t) = solo stmts t ks (lock s, pcs s t)"
proof -
  let ?s = "s\<lparr>running := t\<rparr>"
  have "\<not> irqs_off s" using assms by (simp add: sys_inv_def)
  then have r: "reach m stmts s ?s" using assms by (intro reach_switch reach.start) (simp_all add: fair_def)
  from reach_solo [of m stmts ?s ks] obtain s' where "reach m stmts ?s s'" "running s' = t"
      "(lock s', pcs s' t) = solo stmts t ks (lock s, pcs s t)" by auto
  then show ?thesis using reach_trans [OF _ r] by blast
qed

lemma no_deadlock:
  assumes fair: "fair m" and s: "reach m stmts (start_sys l\<^sub>0 c\<^sub>0) s"
  shows "\<exists>s'. reach m stmts s s' \<and> pcs s' t = home"
proof -
  have inv: "sys_inv m r" if "reach m stmts s r" for r
    using reach_inv [OF fair_guarded [OF fair]] reach_trans [OF that s] by blast
  note solo = runs_solo [OF fair inv]
  from gets_unmasked [OF inv [OF reach.start]] obtain s1
    where r1: "reach m stmts s s1" and on1: "\<not> masked (pcs s1 (running s1))" by blast
  obtain s2 where r2: "reach m stmts s s2" and free: "\<not> held (lock s2)" "\<not> masked (pcs s2 (running s2))"
  proof (cases "held (lock s1)")
    case True
    then obtain u where u: "owns (pcs s1 u)" "inv u (lock s1) (pcs s1 u)"
      using inv [OF r1] by (metis sys_inv_def)
    then obtain ks where ks: "\<not> held (fst (solo stmts u ks (lock s1, pcs s1 u)))"
        "\<not> masked (snd (solo stmts u ks (lock s1, pcs s1 u)))"
      using owner_gives_up all_unmasked [OF fair inv [OF r1] on1] by blast
    from solo [OF r1 on1, of u ks] obtain s2 where s2: "reach m stmts s1 s2" "running s2 = u"
        "(lock s2, pcs s2 u) = solo stmts u ks (lock s1, pcs s1 u)" by blast
    then have "reach m stmts s s2" using reach_trans [OF s2(1) r1] by blast
    moreover have "\<not> held (lock s2)" "\<not> masked (pcs s2 u)" using ks s2(3) by (metis fst_conv, metis snd_conv)
    ultimately show ?thesis using that s2(2) by simp
  qed (use r1 on1 that in blast)
  have "inv t (lock s2) (pcs s2 t)" using inv [OF r2] by (simp add: sys_inv_def)
  then obtain ks where ks: "snd (solo stmts t ks (lock s2, pcs s2 t)) = home"
    using free_taken free(1) all_unmasked [OF fair inv [OF r2] free(2)] by blast
  from solo [OF r2 free(2), of t ks] obtain s3 where s3: "reach m stmts s2 s3"
      "(lock s3, pcs s3 t) = solo stmts t ks (lock s2, pcs s2 t)" by blast
  then show ?thesis using reach_trans [OF s3(1) r2] ks by (metis snd_conv)
qed

end

end
