(* ===== verification/Lock_Interleaving.thy ===== *)
theory Lock_Interleaving
  imports Lock Preemption
begin

text \<open>
  The plain lock under preemption. Any number of threads run \<open>___lock_acquire\<close>, \<open>___lock_try_acquire\<close>
  and \<open>___lock_release\<close> of lock_verified.c, statement by statement; a thread releases the lock only
  when it holds it. \<open>wake_up\<close> has an empty body in the sources.
\<close>

section \<open>Statements\<close>

text \<open>Where a thread stands, named by the statement it executes next.\<close>

datatype pc =
    Idle         \<comment> \<open>outside the lock functions, not holding\<close>
  | A_save       \<comment> \<open>acquire: \<open>local_irq_save(flags)\<close>\<close>
  | A_test       \<comment> \<open>acquire: \<open>if (!lock->busy) break\<close>\<close>
  | A_again      \<comment> \<open>acquire: \<open>local_irq_restore(flags)\<close> in the loop\<close>
  | A_set        \<comment> \<open>acquire: \<open>lock->busy = 1\<close>\<close>
  | A_done       \<comment> \<open>acquire: the final \<open>local_irq_restore(flags)\<close>\<close>
  | T_save       \<comment> \<open>try: \<open>local_irq_save(flags)\<close>\<close>
  | T_test       \<comment> \<open>try: \<open>if (!lock->busy)\<close>\<close>
  | T_set        \<comment> \<open>try: \<open>lock->busy = 1; ret = 0\<close>\<close>
  | T_done bool  \<comment> \<open>try: \<open>local_irq_restore(flags); return ret\<close>, and whether \<open>ret\<close> is 0\<close>
  | Holding      \<comment> \<open>between acquire and release\<close>
  | R_save       \<comment> \<open>release: \<open>local_irq_save(flags)\<close>\<close>
  | R_clear      \<comment> \<open>release: \<open>lock->busy = 0\<close>\<close>
  | R_done       \<comment> \<open>release: \<open>local_irq_restore(flags)\<close>\<close>

fun lock_stmts :: "(lock_t, pc) statements" where
  "lock_stmts t l Idle = [(l, Keep, A_save), (l, Keep, T_save)]"
| "lock_stmts t l A_save = [(l, Save, A_test)]"
| "lock_stmts t l A_test = [(l, Keep, if \<not> c_true (busy l) then A_set else A_again)]"
| "lock_stmts t l A_again = [(l, Restore, A_save)]"
| "lock_stmts t l A_set = [(l\<lparr>busy := 1\<rparr>, Keep, A_done)]"
| "lock_stmts t l A_done = [(l, Restore, Holding)]"
| "lock_stmts t l T_save = [(l, Save, T_test)]"
| "lock_stmts t l T_test = [(l, Keep, if \<not> c_true (busy l) then T_set else T_done False)]"
| "lock_stmts t l T_set = [(l\<lparr>busy := 1\<rparr>, Keep, T_done True)]"
| "lock_stmts t l (T_done ok) = [(l, Restore, if ok then Holding else Idle)]"
| "lock_stmts t l Holding = [(l, Keep, R_save)]"
| "lock_stmts t l R_save = [(l, Save, R_clear)]"
| "lock_stmts t l R_clear = [(l\<lparr>busy := 0\<rparr>, Keep, R_done)]"
| "lock_stmts t l R_done = [(l, Restore, Idle)]"

definition init_sys :: "(lock_t, pc) sys" where
  "init_sys = start_sys \<lparr>busy = 0\<rparr> Idle"

text \<open>
  The statements executed with interrupts off, those executed as the lock's owner, and the last one
  of a failed attempt.
\<close>

fun masked_pc :: "pc \<Rightarrow> bool" where
  "masked_pc Idle = False"
| "masked_pc A_save = False"
| "masked_pc T_save = False"
| "masked_pc Holding = False"
| "masked_pc R_save = False"
| "masked_pc _ = True"

text \<open>Where a test of \<open>lock->busy\<close> has found the lock free and the store is still to come.\<close>

definition set_pending :: "pc \<Rightarrow> bool" where
  "set_pending c \<longleftrightarrow> c = A_set \<or> c = T_set"

fun owns :: "pc \<Rightarrow> bool" where
  "owns A_done = True"
| "owns (T_done ok) = ok"
| "owns Holding = True"
| "owns R_save = True"
| "owns R_clear = True"
| "owns _ = False"

definition refused :: "pc \<Rightarrow> bool" where
  "refused c \<longleftrightarrow> c = T_done False"

text \<open>The assertion of a place: the owner finds the lock busy, a thread about to set it finds it free.\<close>

definition lock_assertion :: "nat \<Rightarrow> lock_t \<Rightarrow> pc \<Rightarrow> bool" where
  "lock_assertion t l c \<longleftrightarrow>
     (owns c \<longrightarrow> c_true (busy l)) \<and> (c = A_set \<or> c = T_set \<longrightarrow> \<not> c_true (busy l))"

interpretation plain: lock_statements lock_stmts "\<lparr>busy = 0\<rparr>" Idle masked_pc set_pending owns refused
  "\<lambda>l. c_true (busy l)" lock_assertion
proof (unfold_locales, goal_cases)
  case (1 t)
  show ?case by (simp add: lock_assertion_def)
next
  case (2 c)
  then show ?case by (auto simp: set_pending_def)
next
  case (3 l' i c' t l c)
  then show ?case by (cases c) (auto split: if_splits)
next
  case (4 l' i c' t l c)
  then show ?case by (cases c) (auto simp: lock_assertion_def split: if_splits)
next
  case (5 l' i c' t l c u d)
  then show ?case by (cases c) (auto simp: lock_assertion_def set_pending_def)
next
  case (6 t l c)
  then show ?case by (simp add: lock_assertion_def)
next
  case (7 l' i c' t l c)
  then show ?case by (cases c) (auto simp: lock_assertion_def split: if_splits)
next
  case (8 l' i c' t l c)
  then show ?case by (cases c) (auto simp: lock_assertion_def split: if_splits)
next
  case (9 l' i c' t l c)
  then show ?case by (cases c) (auto split: if_splits)
next
  case (10 l' i c' t l c)
  then show ?case by (cases c) (auto simp: refused_def split: if_splits)
qed

text \<open>
  The two kinds of machine: interrupts masked or no preemption between the test and the store; and
  those that, besides, never preempt in a masked part and can preempt everywhere else.
\<close>

definition lock_safe :: "pc machine \<Rightarrow> bool" where
  "lock_safe m \<longleftrightarrow> irq_masks m \<or> \<not> preempts m A_set \<and> \<not> preempts m T_set"

definition lock_fair :: "pc machine \<Rightarrow> bool" where
  "lock_fair m \<longleftrightarrow> (irq_masks m \<or> (\<forall>c. masked_pc c \<longrightarrow> \<not> preempts m c)) \<and>
     (\<forall>c. \<not> masked_pc c \<longrightarrow> preempts m c)"

lemma lock_safe_guarded: "lock_safe m \<longleftrightarrow> plain.guarded m"
  by (auto simp: lock_safe_def plain.guarded_def set_pending_def)

section \<open>Nobody waits for ever\<close>

text \<open>The masked parts are short, an owner can give the lock back, and a free lock can be taken.\<close>

lemma unmasked_pc_cases:
  "\<not> masked_pc c \<Longrightarrow> c = Idle \<or> c = A_save \<or> c = T_save \<or> c = Holding \<or> c = R_save"
  by (cases c) auto

lemma masked_part_ends:
  assumes "masked_pc c"
  shows "\<exists>ks. \<not> masked_pc (snd (solo lock_stmts t ks (l, c)))"
proof (cases c)
  case A_test
  then show ?thesis
    by (cases "c_true (busy l)") (rule exI [of _ "[0, 0]"] exI [of _ "[0, 0, 0]"], simp)+
next
  case T_test
  then show ?thesis
    by (cases "c_true (busy l)") (rule exI [of _ "[0, 0]"] exI [of _ "[0, 0, 0]"], simp)+
next
  case (T_done ok)
  then show ?thesis by (intro exI [of _ "[0]"]) simp
qed (use assms in \<open>auto intro: exI [of _ "[0]"] exI [of _ "[0, 0]"]\<close>)

lemma owner_gives_back:
  assumes "owns c" "\<not> masked_pc c"
  shows "\<exists>ks. \<not> c_true (busy (fst (solo lock_stmts t ks (l, c)))) \<and> \<not> masked_pc (snd (solo lock_stmts t ks (l, c)))"
proof -
  from assms unmasked_pc_cases [OF assms(2)] consider "c = Holding" | "c = R_save" by auto
  then show ?thesis
  proof cases
    case 1
    then show ?thesis by (intro exI [of _ "[0, 0, 0, 0]"]) simp
  next
    case 2
    then show ?thesis by (intro exI [of _ "[0, 0, 0]"]) simp
  qed
qed

lemma free_lock_taken:
  assumes "\<not> c_true (busy l)" "\<not> masked_pc c" "lock_assertion t l c"
  shows "\<exists>ks. snd (solo lock_stmts t ks (l, c)) = Holding"
proof -
  from assms unmasked_pc_cases [OF assms(2)] consider "c = Idle" | "c = A_save" | "c = T_save"
    by (auto simp: lock_assertion_def)
  then show ?thesis
  proof cases
    case 1
    then show ?thesis using assms(1) by (intro exI [of _ "[0, 0, 0, 0, 0]"]) simp
  next
    case 2
    then show ?thesis using assms(1) by (intro exI [of _ "[0, 0, 0, 0]"]) simp
  next
    case 3
    then show ?thesis using assms(1) by (intro exI [of _ "[0, 0, 0, 0]"]) simp
  qed
qed

interpretation plain_live: live_lock lock_stmts "\<lparr>busy = 0\<rparr>" Idle masked_pc set_pending owns refused
  "\<lambda>l. c_true (busy l)" lock_assertion Holding
  by unfold_locales (blast intro: masked_part_ends owner_gives_back free_lock_taken)+

lemma lock_fair_fair: "lock_fair m \<longleftrightarrow> plain_live.fair m"
  by (simp add: lock_fair_def plain_live.fair_def plain.closed_def)

section \<open>What the lock promises under preemption\<close>

text \<open>
  On a safe machine no two threads ever hold the lock (or stand between taking and giving it back)
  at the same time, whatever the interleaving.
\<close>

theorem lock_mutual_exclusion:
  assumes "lock_safe m" "reach m lock_stmts init_sys s" "owns (pcs s t)" "owns (pcs s u)"
  shows "t = u"
  using assms unfolding init_sys_def lock_safe_guarded by (rule plain.mutual_exclusion)

theorem lock_mutual_exclusion_witness:
  "\<exists>s. reach masking lock_stmts init_sys s \<and> owns (pcs s 0) \<and> (\<forall>u. owns (pcs s u) \<longrightarrow> 0 = u)"
proof -
  let ?s = "(advance masking lock_stmts ^^ 5) init_sys"
  have r: "reach masking lock_stmts init_sys ?s" by (intro reach_advance reach.start)
  have o: "owns (pcs ?s 0)"
    by (simp add: run_simps init_sys_def)
  have "lock_safe masking" by (simp add: lock_safe_def)
  then show ?thesis using lock_mutual_exclusion [OF _ r o] r o by blast
qed

text \<open>What a run of the atomic lock explains: the events, the owners and the busy field.\<close>

definition atomic_run :: "lock_event list \<Rightarrow> (lock_t, pc) sys \<Rightarrow> bool" where
  "atomic_run es s \<longleftrightarrow> (\<exists>h. spec_run es None = Some h \<and> (\<forall>t. owns (pcs s t) \<longleftrightarrow> h = Some t) \<and>
     (c_true (busy (lock s)) \<longleftrightarrow> h \<noteq> None))"

lemma lock_atomic_run:
  assumes "lock_safe m" "trace m lock_stmts owns refused init_sys es s"
  shows "atomic_run es s"
proof -
  have tr: "trace m lock_stmts owns refused (start_sys \<lparr>busy = 0\<rparr> Idle) es s" and g: "plain.guarded m"
    using assms by (simp_all add: init_sys_def lock_safe_guarded)
  obtain h where h: "spec_run es None = Some h" "holder_is owns h s"
    using plain.refines_atomic_lock [OF tr g] by blast
  moreover have "c_true (busy (lock s)) \<longleftrightarrow> h \<noteq> None"
    by (rule plain.holder_held [OF plain.reach_inv [OF g trace_reach [OF tr]] h(2)])
  ultimately show ?thesis by (auto simp: holder_is_def atomic_run_def)
qed

text \<open>
  Thread 0 is preempted between its test and its store (\<open>k\<close> chooses the function), thread 1 takes the
  lock and is preempted while it holds it, and thread 0 takes the lock as well.
\<close>

lemma lock_race:
  assumes "\<not> irq_masks m" "preempts m Holding" "preempts m (if k = 0 then A_set else T_set)" "(k :: nat) < 2"
  shows "\<exists>s. trace m lock_stmts owns refused init_sys [Takes 1, Takes 0] s \<and>
    pcs s 0 = Holding \<and> pcs s 1 = Holding"
proof -
  let ?cs = "Run k # replicate 2 (Run 0) @ Switch 1 # replicate 5 (Run 0) @ Switch 0 # replicate 2 (Run 0)"
  obtain es s where r: "replay m lock_stmts owns refused ?cs init_sys = (es, s)" by fastforce
  have "es = [Takes 1, Takes 0] \<and> pcs s 0 = Holding \<and> pcs s 1 = Holding"
    using r assms by (cases k) (auto simp: replay_simps init_sys_def refused_def less_Suc_eq)
  moreover have "trace m lock_stmts owns refused init_sys ([] @ es) s"
    by (rule trace_replay [OF trace.trace_start r])
  ultimately show ?thesis by auto
qed

text \<open>
  C7. When the lock is atomic. \<open>local_irq_save\<close> may mask interrupts or, as the stub of the sources
  (line 22), do nothing, and the scheduler may preempt a thread at any set of places that contains
  the one between acquire and release. Then the following are equivalent: every interleaved run,
  statement by statement, has the events (who takes the lock, who gives it back, whose attempt is
  refused) that a lock with indivisible operations allows in the same order, with its holder as the
  only owner and the busy field set exactly while there is one; and interrupts are masked or no thread
  is preempted between the test of \<open>lock->busy\<close> and the store. So the sources as they stand, with the
  stub, are right only under a scheduler that does not preempt there.
\<close>

theorem lock_refines_atomic:
  assumes "preempts m Holding"
  shows "(\<forall>es s. trace m lock_stmts owns refused init_sys es s \<longrightarrow>
      (\<exists>h. spec_run es None = Some h \<and> (\<forall>t. owns (pcs s t) \<longleftrightarrow> h = Some t) \<and>
        (c_true (busy (lock s)) \<longleftrightarrow> h \<noteq> None))) \<longleftrightarrow>
    irq_masks m \<or> \<not> preempts m A_set \<and> \<not> preempts m T_set"
proof -
  have "\<exists>s. trace m lock_stmts owns refused init_sys [Takes 1, Takes 0] s" if "\<not> lock_safe m"
    using that lock_race [of m 0] lock_race [of m 1] assms by (auto simp: lock_safe_def)
  moreover have "\<not> atomic_run [Takes 1, Takes 0] s" for s by (simp add: atomic_run_def)
  ultimately show ?thesis
    using lock_atomic_run [of m] unfolding lock_safe_def [symmetric] atomic_run_def [symmetric] by blast
qed

text \<open>
  The stub with a scheduler that preempts outside the lock functions only: thread 0 takes the lock,
  thread 1 tries it and is refused, thread 0 gives it back. The same stub, preemptive everywhere,
  is not atomic.
\<close>

theorem lock_refines_atomic_witness:
  "(\<exists>s h. trace (stub (\<lambda>c. c = Idle \<or> c = Holding)) lock_stmts owns refused init_sys [Takes 0, Refused 1, Gives 0] s \<and>
      spec_run [Takes 0, Refused 1, Gives 0] None = Some h \<and> (\<forall>t. owns (pcs s t) \<longleftrightarrow> h = Some t)) \<and>
   (\<exists>es s. trace (stub (\<lambda>_. True)) lock_stmts owns refused init_sys es s \<and>
      \<not> (\<exists>h. spec_run es None = Some h \<and> (\<forall>t. owns (pcs s t) \<longleftrightarrow> h = Some t) \<and>
        (c_true (busy (lock s)) \<longleftrightarrow> h \<noteq> None)))"
proof (rule conjI)
  let ?m = "stub (\<lambda>c. c = Idle \<or> c = Holding)"
  let ?cs = "replicate 5 (Run 0) @ Switch 1 # Run 1 # replicate 3 (Run 0) @ Switch 0 # replicate 3 (Run 0)"
  obtain es s where r: "replay ?m lock_stmts owns refused ?cs init_sys = (es, s)" by fastforce
  then have es: "es = [Takes 0, Refused 1, Gives 0]"
    by (simp add: replay_simps init_sys_def refused_def)
  have "trace ?m lock_stmts owns refused init_sys ([] @ es) s"
    by (rule trace_replay [OF trace.trace_start r])
  then have tr: "trace ?m lock_stmts owns refused init_sys [Takes 0, Refused 1, Gives 0] s"
    by (simp add: es)
  then show "\<exists>s h. trace ?m lock_stmts owns refused init_sys [Takes 0, Refused 1, Gives 0] s \<and>
      spec_run [Takes 0, Refused 1, Gives 0] None = Some h \<and> (\<forall>t. owns (pcs s t) \<longleftrightarrow> h = Some t)"
    using lock_refines_atomic [of ?m] by fastforce
next
  show "\<exists>es s. trace (stub (\<lambda>_. True)) lock_stmts owns refused init_sys es s \<and>
      \<not> (\<exists>h. spec_run es None = Some h \<and> (\<forall>t. owns (pcs s t) \<longleftrightarrow> h = Some t) \<and>
        (c_true (busy (lock s)) \<longleftrightarrow> h \<noteq> None))"
    using lock_refines_atomic [of "stub (\<lambda>_. True)"] by fastforce
qed

text \<open>
  With the stub that does nothing in place of \<open>local_irq_save\<close>, as the sources define it, the
  test and the set can be separated by a switch: two threads come to hold the lock together.
\<close>

theorem lock_stub_race:
  "\<exists>s t u. reach (stub (\<lambda>_. True)) lock_stmts init_sys s \<and> t \<noteq> u \<and> pcs s t = Holding \<and> pcs s u = Holding"
proof -
  obtain s where "trace (stub (\<lambda>_. True)) lock_stmts owns refused init_sys [Takes 1, Takes 0] s"
      "pcs s 0 = Holding" "pcs s 1 = Holding"
    using lock_race [of "stub (\<lambda>_. True)" 0] by auto
  then show ?thesis using trace_reach by (metis zero_neq_one)
qed

text \<open>
  C34. No deadlock and no lock-out, on every machine that preempts a thread everywhere outside the
  masked parts and on which the masked parts are not interrupted, either since \<open>local_irq_save\<close> masks
  interrupts or, with the stub of the sources, since the scheduler does not preempt there: from every
  reachable state, whoever holds the lock and wherever the threads stand, any thread can be brought
  to hold it by a continuation of the run, and no other thread then owns it.
\<close>

theorem lock_no_deadlock:
  assumes "irq_masks m \<or> (\<forall>c. masked_pc c \<longrightarrow> \<not> preempts m c)" "\<forall>c. \<not> masked_pc c \<longrightarrow> preempts m c"
    and "reach m lock_stmts init_sys s"
  shows "\<exists>s'. reach m lock_stmts s s' \<and> pcs s' t = Holding \<and> (\<forall>u. owns (pcs s' u) \<longleftrightarrow> u = t)"
proof -
  have fair: "plain_live.fair m" using assms(1,2) by (simp add: lock_fair_fair [symmetric] lock_fair_def)
  have r: "reach m lock_stmts (start_sys \<lparr>busy = 0\<rparr> Idle) s" using assms(3) by (simp add: init_sys_def)
  obtain s' where s': "reach m lock_stmts s s'" "pcs s' t = Holding"
    using plain_live.no_deadlock [OF fair r] by blast
  have "u = t" if "owns (pcs s' u)" for u
    using plain.mutual_exclusion [OF plain_live.fair_guarded [OF fair] reach_trans [OF s'(1) r] that] s'(2) by simp
  with s' show ?thesis by auto
qed

text \<open>
  The stub, preempting outside the masked parts: thread 0 holds the lock; thread 7 can still come
  to hold it.
\<close>

theorem lock_no_deadlock_witness:
  "\<exists>s s'. reach (stub (\<lambda>c. \<not> masked_pc c)) lock_stmts init_sys s \<and> pcs s 0 = Holding \<and>
    reach (stub (\<lambda>c. \<not> masked_pc c)) lock_stmts s s' \<and> pcs s' 7 = Holding"
proof -
  let ?m = "stub (\<lambda>c. \<not> masked_pc c)"
  let ?s = "(advance ?m lock_stmts ^^ 5) init_sys"
  have r: "reach ?m lock_stmts init_sys ?s" by (intro reach_advance reach.start)
  have h: "pcs ?s 0 = Holding" by (simp add: run_simps init_sys_def)
  from lock_no_deadlock [OF _ _ r, of 7] obtain s' where "reach ?m lock_stmts ?s s'" "pcs s' 7 = Holding"
    by auto
  with r h show ?thesis by blast
qed

text \<open>
  A thread about to disable interrupts in \<open>___lock_acquire\<close> holds the lock after four of its
  own statements when the lock is free; when it is held by another thread, three statements bring
  it back to the same place with the lock untouched and interrupts enabled, so the holder can run.
\<close>

theorem lock_acquire_progress:
  assumes "lock_safe m" "reach m lock_stmts init_sys s" "pcs s (running s) = A_save"
  shows "if c_true (busy (lock s)) then (advance m lock_stmts ^^ 3) s = s
    else pcs ((advance m lock_stmts ^^ 4) s) (running s) = Holding \<and>
      c_true (busy (lock ((advance m lock_stmts ^^ 4) s)))"
proof -
  have "plain.sys_inv m s" using assms(1,2) plain.reach_inv by (simp add: init_sys_def lock_safe_guarded)
  then have "\<not> irqs_off s" using assms(3) by (simp add: plain.sys_inv_def)
  then show ?thesis
    using assms(3) by (auto simp: run_simps fun_upd_idem)
qed

theorem lock_acquire_progress_witness:
  "pcs ((advance masking lock_stmts ^^ 4) ((advance masking lock_stmts ^^ 1) init_sys)) 0 = Holding"
proof -
  let ?s = "(advance masking lock_stmts ^^ 1) init_sys"
  have r: "reach masking lock_stmts init_sys ?s" by (intro reach_advance reach.start)
  have s: "lock_safe masking" by (simp add: lock_safe_def)
  have "pcs ?s (running ?s) = A_save" "\<not> c_true (busy (lock ?s))" "running ?s = 0"
    by (simp_all add: run_simps init_sys_def)
  with lock_acquire_progress [OF s r] show ?thesis by simp
qed

end
