(* ===== verification/Rlock_Interleaving.thy ===== *)
theory Rlock_Interleaving
  imports Lock Preemption
begin

text \<open>
  The recursive lock under preemption: any number of threads run \<open>___lock_acquire_recursive\<close>,
  \<open>___lock_try_acquire_recursive\<close> and \<open>___lock_release_recursive\<close> of lock_verified.c statement by
  statement. \<open>lock->count++\<close> and \<open>--lock->count\<close> are outside the masked parts; they are two steps
  here, a load and a store. A thread releases the lock only as often as it has acquired it, and
  holds it at most \<open>lim\<close> times at once (the sources assume that the count stays below \<open>INT_MAX\<close>).
  \<open>get_current()\<close>, a stub that returns nothing in the sources, is for thread \<open>t\<close> the pointer \<open>Suc t\<close>,
  which is not NULL.
\<close>

section \<open>Statements\<close>

text \<open>Where a thread stands; the number is how often it holds the lock outside the function it runs.\<close>

datatype rpc =
    Out nat              \<comment> \<open>outside the lock functions\<close>
  | RA_check nat         \<comment> \<open>acquire: \<open>if (lock->owner != get_current())\<close>\<close>
  | RA_save              \<comment> \<open>acquire: \<open>local_irq_save(flags)\<close>\<close>
  | RA_test              \<comment> \<open>acquire: \<open>if (!lock->owner) break\<close>\<close>
  | RA_again             \<comment> \<open>acquire: \<open>local_irq_restore(flags)\<close> in the loop\<close>
  | RA_own               \<comment> \<open>acquire: \<open>lock->owner = get_current()\<close>\<close>
  | RA_restore           \<comment> \<open>acquire: \<open>local_irq_restore(flags)\<close>\<close>
  | RA_load nat          \<comment> \<open>acquire: the load of \<open>lock->count++\<close>\<close>
  | RA_store nat u32     \<comment> \<open>acquire: the store of \<open>lock->count++\<close>\<close>
  | RT_save nat          \<comment> \<open>try: \<open>local_irq_save(flags)\<close>\<close>
  | RT_test nat          \<comment> \<open>try: \<open>if (!lock->owner)\<close>\<close>
  | RT_own               \<comment> \<open>try: \<open>ret = 0; lock->owner = get_current()\<close>\<close>
  | RT_load              \<comment> \<open>try: the load of \<open>lock->count++\<close>\<close>
  | RT_store u32         \<comment> \<open>try: the store of \<open>lock->count++\<close>\<close>
  | RT_done bool nat     \<comment> \<open>try: \<open>local_irq_restore(flags); return ret\<close>, and whether \<open>ret\<close> is 0\<close>
  | RR_bug nat           \<comment> \<open>release: \<open>BUG_ON(lock->owner != get_current())\<close>\<close>
  | RR_load nat          \<comment> \<open>release: the load of \<open>--lock->count\<close>\<close>
  | RR_store nat u32     \<comment> \<open>release: the store of \<open>--lock->count\<close>, and the test of the new value\<close>
  | RR_save              \<comment> \<open>release: \<open>local_irq_save(flags)\<close>\<close>
  | RR_clear             \<comment> \<open>release: \<open>lock->owner = NULL\<close>\<close>
  | RR_done              \<comment> \<open>release: \<open>local_irq_restore(flags)\<close>\<close>

fun rlock_stmts :: "nat \<Rightarrow> (rlock_t, rpc) statements" where
  "rlock_stmts lim t l (Out n) =
     (if n < lim then [(l, Keep, RA_check n), (l, Keep, RT_save n)] else []) @
     (if 0 < n then [(l, Keep, RR_bug n)] else [])"
| "rlock_stmts lim t l (RA_check n) = [(l, Keep, if owner l \<noteq> Suc t then RA_save else RA_load n)]"
| "rlock_stmts lim t l RA_save = [(l, Save, RA_test)]"
| "rlock_stmts lim t l RA_test = [(l, Keep, if owner l = NULL then RA_own else RA_again)]"
| "rlock_stmts lim t l RA_again = [(l, Restore, RA_save)]"
| "rlock_stmts lim t l RA_own = [(l\<lparr>owner := Suc t\<rparr>, Keep, RA_restore)]"
| "rlock_stmts lim t l RA_restore = [(l, Restore, RA_load 0)]"
| "rlock_stmts lim t l (RA_load n) = [(l, Keep, RA_store n (cnt l))]"
| "rlock_stmts lim t l (RA_store n v) = [(l\<lparr>cnt := v + 1\<rparr>, Keep, Out (Suc n))]"
| "rlock_stmts lim t l (RT_save n) = [(l, Save, RT_test n)]"
| "rlock_stmts lim t l (RT_test n) = [(l, Keep, if owner l = NULL then RT_own else RT_done False n)]"
| "rlock_stmts lim t l RT_own = [(l\<lparr>owner := Suc t\<rparr>, Keep, RT_load)]"
| "rlock_stmts lim t l RT_load = [(l, Keep, RT_store (cnt l))]"
| "rlock_stmts lim t l (RT_store v) = [(l\<lparr>cnt := v + 1\<rparr>, Keep, RT_done True 0)]"
| "rlock_stmts lim t l (RT_done ok n) = [(l, Restore, Out (if ok then Suc n else n))]"
| "rlock_stmts lim t l (RR_bug n) = [(l, Keep, RR_load n)]"
| "rlock_stmts lim t l (RR_load n) = [(l, Keep, RR_store n (cnt l))]"
| "rlock_stmts lim t l (RR_store n v) =
     [(l\<lparr>cnt := v - 1\<rparr>, Keep, if c_true (v - 1) then Out (n - 1) else RR_save)]"
| "rlock_stmts lim t l RR_save = [(l, Save, RR_clear)]"
| "rlock_stmts lim t l RR_clear = [(l\<lparr>owner := NULL\<rparr>, Keep, RR_done)]"
| "rlock_stmts lim t l RR_done = [(l, Restore, Out 0)]"

definition rinit_sys :: "(rlock_t, rpc) sys" where
  "rinit_sys = start_sys \<lparr>owner = NULL, cnt = 0\<rparr> (Out 0)"

fun rmasked :: "rpc \<Rightarrow> bool" where
  "rmasked RA_test = True"
| "rmasked RA_again = True"
| "rmasked RA_own = True"
| "rmasked RA_restore = True"
| "rmasked (RT_test n) = True"
| "rmasked RT_own = True"
| "rmasked RT_load = True"
| "rmasked (RT_store v) = True"
| "rmasked (RT_done ok n) = True"
| "rmasked RR_clear = True"
| "rmasked RR_done = True"
| "rmasked _ = False"

fun rowns :: "rpc \<Rightarrow> bool" where
  "rowns (Out n) = (0 < n)"
| "rowns (RA_check n) = (0 < n)"
| "rowns RA_restore = True"
| "rowns (RA_load n) = True"
| "rowns (RA_store n v) = True"
| "rowns (RT_save n) = (0 < n)"
| "rowns (RT_test n) = (0 < n)"
| "rowns RT_load = True"
| "rowns (RT_store v) = True"
| "rowns (RT_done ok n) = (ok \<or> 0 < n)"
| "rowns (RR_bug n) = True"
| "rowns (RR_load n) = True"
| "rowns (RR_store n v) = True"
| "rowns RR_save = True"
| "rowns RR_clear = True"
| "rowns _ = False"

text \<open>Where a test of \<open>lock->owner\<close> has found the lock free and the store is still to come.\<close>

definition rset_pending :: "rpc \<Rightarrow> bool" where
  "rset_pending c \<longleftrightarrow> c = RA_own \<or> c = RT_own"

definition rrefused :: "rpc \<Rightarrow> bool" where
  "rrefused c \<longleftrightarrow> (\<exists>n. c = RT_done False n)"

section \<open>Assertions\<close>

text \<open>The count the lock has while its owner stands at a place.\<close>

fun count_at :: "rpc \<Rightarrow> nat" where
  "count_at (Out n) = n"
| "count_at (RA_check n) = n"
| "count_at (RA_load n) = n"
| "count_at (RA_store n v) = n"
| "count_at (RT_save n) = n"
| "count_at (RT_test n) = n"
| "count_at (RT_done ok n) = (if ok then Suc n else n)"
| "count_at (RR_bug n) = n"
| "count_at (RR_load n) = n"
| "count_at (RR_store n v) = n"
| "count_at _ = 0"

text \<open>What is known of a place itself: bounds of its number, and the value it has loaded.\<close>

fun place_ok :: "nat \<Rightarrow> rlock_t \<Rightarrow> rpc \<Rightarrow> bool" where
  "place_ok lim l (Out n) = (n \<le> lim)"
| "place_ok lim l (RA_check n) = (n < lim)"
| "place_ok lim l RA_own = (owner l = NULL)"
| "place_ok lim l (RA_load n) = (n < lim)"
| "place_ok lim l (RA_store n v) = (n < lim \<and> v = cnt l)"
| "place_ok lim l (RT_save n) = (n < lim)"
| "place_ok lim l (RT_test n) = (n < lim)"
| "place_ok lim l RT_own = (owner l = NULL)"
| "place_ok lim l (RT_store v) = (v = cnt l)"
| "place_ok lim l (RT_done ok n) = (if ok then n = 0 else n < lim)"
| "place_ok lim l (RR_bug n) = (0 < n \<and> n \<le> lim)"
| "place_ok lim l (RR_load n) = (0 < n \<and> n \<le> lim)"
| "place_ok lim l (RR_store n v) = (0 < n \<and> n \<le> lim \<and> v = cnt l)"
| "place_ok lim l _ = True"

definition rlock_assertion :: "nat \<Rightarrow> nat \<Rightarrow> rlock_t \<Rightarrow> rpc \<Rightarrow> bool" where
  "rlock_assertion lim t l c \<longleftrightarrow>
     (owner l = Suc t \<longleftrightarrow> rowns c) \<and> (rowns c \<longrightarrow> cnt l = of_nat (count_at c)) \<and>
     (owner l = NULL \<longrightarrow> cnt l = 0) \<and> place_ok lim l c"

lemma count_word_0: "n < 2 ^ 32 \<Longrightarrow> (of_nat n :: u32) = 0 \<longleftrightarrow> n = 0"
  by (auto simp: word_of_nat_eq_0_iff dest: dvd_imp_le)

lemma rlock_own:
  assumes "0 < lim" "lim < 2 ^ 32" "(l', i, c') \<in> set (rlock_stmts lim t l c)" "rlock_assertion lim t l c"
  shows "rlock_assertion lim t l' c'"
proof (cases c)
  case (RR_store n v)
  then obtain k where k: "n = Suc k" "Suc k \<le> lim"
    using assms(4) by (auto simp: rlock_assertion_def gr0_conv_Suc)
  then have "(of_nat k :: u32) = 0 \<longleftrightarrow> k = 0" using assms(2) count_word_0 by simp
  then show ?thesis using RR_store k assms(3,4)
    by (auto simp: rlock_assertion_def c_true_def)
qed (use assms in \<open>auto simp: rlock_assertion_def split: if_splits\<close>)

lemma rlock_other:
  assumes "(l', i, c') \<in> set (rlock_stmts lim t l c)" "rlock_assertion lim t l c" "rlock_assertion lim u l d"
    and "t \<noteq> u" "\<not> rset_pending d" "\<not> (rowns c \<and> rowns d)"
  shows "rlock_assertion lim u l' d"
  using assms by (cases c; cases d) (auto simp: rlock_assertion_def rset_pending_def split: if_splits)

lemma rlock_statements:
  assumes "0 < lim" "lim < 2 ^ 32"
  shows "lock_statements (rlock_stmts lim) \<lparr>owner = NULL, cnt = 0\<rparr> (Out 0) rmasked rset_pending rowns rrefused
    (\<lambda>l. owner l \<noteq> NULL) (rlock_assertion lim)"
proof (unfold_locales, goal_cases)
  case (1 t)
  show ?case by (simp add: rlock_assertion_def)
next
  case (2 c)
  then show ?case by (auto simp: rset_pending_def)
next
  case (3 l' i c' t l c)
  then show ?case by (cases c) (auto split: if_splits)
next
  case (4 l' i c' t l c)
  then show ?case using rlock_own assms by blast
next
  case (5 l' i c' t l c u d)
  then show ?case using rlock_other by blast
next
  case (6 t l c)
  then show ?case by (auto simp: rlock_assertion_def)
next
  case (7 l' i c' t l c)
  then show ?case by (cases c) (auto simp: rlock_assertion_def split: if_splits)
next
  case (8 l' i c' t l c)
  then show ?case by (cases c) (auto simp: rlock_assertion_def split: if_splits)
next
  case (9 l' i c' t l c)
  show ?case
  proof (cases c)
    case (RR_store n v)
    have "(1 :: u32) - 1 = 0" by simp
    with RR_store 9 show ?thesis
      by (cases n; cases "n - 1") (auto simp: rlock_assertion_def split: if_splits)
  qed (use 9 in \<open>auto simp: rlock_assertion_def split: if_splits\<close>)
next
  case (10 l' i c' t l c)
  then show ?case by (cases c) (auto simp: rrefused_def rlock_assertion_def split: if_splits)
qed

text \<open>\<open>INT_MAX\<close>: the sources assume \<open>lock->count < INT_MAX\<close> where they count up.\<close>

definition COUNT_LIMIT :: nat where
  "COUNT_LIMIT = 2 ^ 31 - 1"

lemma small_counts [simp]: "0 < COUNT_LIMIT" "Suc 0 < COUNT_LIMIT" "Suc (Suc 0) < COUNT_LIMIT"
  by (simp_all add: COUNT_LIMIT_def)

interpretation recursive: lock_statements "rlock_stmts COUNT_LIMIT" "\<lparr>owner = NULL, cnt = 0\<rparr>" "Out 0"
  rmasked rset_pending rowns rrefused "\<lambda>l. owner l \<noteq> NULL" "rlock_assertion COUNT_LIMIT"
  by (rule rlock_statements) (simp_all add: COUNT_LIMIT_def)

section \<open>Nobody waits for ever\<close>

lemma runmasked_cases:
  assumes "\<not> rmasked c"
  obtains n where "c = Out n" | n where "c = RA_check n" | "c = RA_save" | n where "c = RA_load n"
    | n v where "c = RA_store n v" | n where "c = RT_save n" | n where "c = RR_bug n" | n where "c = RR_load n"
    | n v where "c = RR_store n v" | "c = RR_save"
  using assms by (cases c) auto

lemma rmasked_part_ends:
  assumes "rmasked c"
  shows "\<exists>ks. \<not> rmasked (snd (solo (rlock_stmts lim) t ks (l, c)))"
proof (cases c)
  case RA_test
  then show ?thesis
    by (cases "owner l = NULL") (rule exI [of _ "[0, 0]"] exI [of _ "[0, 0, 0]"], simp)+
next
  case (RT_test n)
  then show ?thesis
    by (cases "owner l = NULL") (rule exI [of _ "[0, 0]"] exI [of _ "[0, 0, 0, 0, 0]"], simp)+
next
  case RT_own
  then show ?thesis by (intro exI [of _ "[0, 0, 0, 0]"]) simp
next
  case RT_load
  then show ?thesis by (intro exI [of _ "[0, 0, 0]"]) simp
qed (use assms in \<open>auto intro: exI [of _ "[0]"] exI [of _ "[0, 0]"]\<close>)

text \<open>Where the thread gets to when it releases the lock once, and as often as it holds it.\<close>

definition rreleased :: "nat \<Rightarrow> nat \<Rightarrow> rlock_t \<times> rpc \<Rightarrow> bool" where
  "rreleased lim t p \<longleftrightarrow> (\<exists>ks. \<not> owner (fst (solo (rlock_stmts lim) t ks p)) \<noteq> NULL \<and>
     \<not> rmasked (snd (solo (rlock_stmts lim) t ks p)))"

lemma rreleased_later:
  "rreleased lim t (solo (rlock_stmts lim) t ks p) \<Longrightarrow> rreleased lim t p"
  unfolding rreleased_def by (metis solo_append)

lemma rreleased_save: "rreleased lim t (l, RR_save)"
  unfolding rreleased_def by (intro exI [of _ "[0, 0, 0]"]) simp

lemma rreleased_store:
  assumes "lim < 2 ^ 32"
  shows "n \<le> lim \<Longrightarrow> 0 < n \<Longrightarrow> cnt l = of_nat n \<Longrightarrow> rreleased lim t (l, RR_store n (cnt l))"
proof (induction n arbitrary: l)
  case (Suc n)
  let ?l = "l\<lparr>cnt := of_nat n\<rparr>"
  have z: "(of_nat n :: u32) = 0 \<longleftrightarrow> n = 0" using Suc.prems(1) assms count_word_0 by simp
  show ?case
  proof (cases n)
    case 0
    then have "solo (rlock_stmts lim) t [0] (l, RR_store (Suc n) (cnt l)) = (?l, RR_save)"
      using Suc.prems by (simp add: c_true_def)
    then show ?thesis using rreleased_save rreleased_later by metis
  next
    case (Suc k)
    let ?k = "if n < lim then 2 else (0 :: nat)"
    have "solo (rlock_stmts lim) t [0, ?k, 0, 0] (l, RR_store (Suc n) (cnt l)) = (?l, RR_store n (cnt ?l))"
      using Suc.prems z Suc by (simp add: c_true_def)
    moreover have "rreleased lim t (?l, RR_store n (cnt ?l))" using Suc.IH [of ?l] Suc.prems Suc by simp
    ultimately show ?thesis using rreleased_later by metis
  qed
qed simp

lemma rreleased_load:
  assumes "lim < 2 ^ 32" "n \<le> lim" "0 < n" "cnt l = of_nat n"
  shows "rreleased lim t (l, RR_load n)"
proof -
  have "solo (rlock_stmts lim) t [0] (l, RR_load n) = (l, RR_store n (cnt l))" by simp
  then show ?thesis using rreleased_store [OF assms] rreleased_later by metis
qed

lemma rreleased_bug:
  assumes "lim < 2 ^ 32" "n \<le> lim" "0 < n" "cnt l = of_nat n"
  shows "rreleased lim t (l, RR_bug n)"
proof -
  have "solo (rlock_stmts lim) t [0] (l, RR_bug n) = (l, RR_load n)" by simp
  then show ?thesis using rreleased_load [OF assms] rreleased_later by metis
qed

lemma rreleased_out:
  assumes "lim < 2 ^ 32" "n \<le> lim" "0 < n" "cnt l = of_nat n"
  shows "rreleased lim t (l, Out n)"
proof -
  let ?k = "if n < lim then 2 else (0 :: nat)"
  have "solo (rlock_stmts lim) t [?k] (l, Out n) = (l, RR_bug n)" using assms by simp
  then show ?thesis using rreleased_bug [OF assms] rreleased_later by metis
qed

text \<open>An acquire or a try under way is finished first.\<close>

lemma rreleased_up_store:
  assumes "lim < 2 ^ 32" "n < lim" "cnt l = of_nat n"
  shows "rreleased lim t (l, RA_store n (cnt l))"
proof -
  let ?l = "l\<lparr>cnt := of_nat (Suc n)\<rparr>"
  have "solo (rlock_stmts lim) t [0] (l, RA_store n (cnt l)) = (?l, Out (Suc n))" using assms by simp
  moreover have "rreleased lim t (?l, Out (Suc n))" using assms by (intro rreleased_out) simp_all
  ultimately show ?thesis using rreleased_later by metis
qed

lemma rreleased_up_load:
  assumes "lim < 2 ^ 32" "n < lim" "cnt l = of_nat n"
  shows "rreleased lim t (l, RA_load n)"
proof -
  have "solo (rlock_stmts lim) t [0] (l, RA_load n) = (l, RA_store n (cnt l))" by simp
  then show ?thesis using rreleased_up_store [OF assms] rreleased_later by metis
qed

lemma rreleased_up_check:
  assumes "lim < 2 ^ 32" "n < lim" "cnt l = of_nat n" "owner l = Suc t"
  shows "rreleased lim t (l, RA_check n)"
proof -
  have "solo (rlock_stmts lim) t [0] (l, RA_check n) = (l, RA_load n)" using assms(4) by simp
  then show ?thesis using rreleased_up_load [OF assms(1-3)] rreleased_later by metis
qed

lemma rreleased_try:
  assumes "lim < 2 ^ 32" "n < lim" "0 < n" "cnt l = of_nat n" "owner l = Suc t"
  shows "rreleased lim t (l, RT_save n)"
proof -
  have "solo (rlock_stmts lim) t [0, 0, 0] (l, RT_save n) = (l, Out n)" using assms(5) by simp
  moreover have "rreleased lim t (l, Out n)" using assms by (intro rreleased_out) simp_all
  ultimately show ?thesis using rreleased_later by metis
qed

lemmas rreleased_intros = rreleased_out rreleased_up_check rreleased_up_load rreleased_try
  rreleased_bug rreleased_load rreleased_save

lemma rlock_released:
  assumes "lim < 2 ^ 32" "rowns c" "\<not> rmasked c" "rlock_assertion lim t l c"
  shows "rreleased lim t (l, c)"
  using assms(3)
proof (cases rule: runmasked_cases)
  case (5 n v)
  then show ?thesis using assms rreleased_up_store [of lim n l t] by (simp add: rlock_assertion_def)
next
  case (9 n v)
  then show ?thesis using assms rreleased_store [of lim n l t] by (simp add: rlock_assertion_def)
qed (use assms(1,2,4) in \<open>auto simp: rlock_assertion_def intro!: rreleased_intros\<close>)

lemma rlock_taken:
  assumes "0 < lim" "\<not> owner l \<noteq> NULL" "\<not> rmasked c" "rlock_assertion lim t l c"
  shows "\<exists>ks. snd (solo (rlock_stmts lim) t ks (l, c)) = Out 1"
proof -
  from assms(2,4) have free: "owner l = NULL" "\<not> rowns c" by (auto simp: rlock_assertion_def)
  from assms(3) free(2) consider "c = Out 0" | "c = RA_check 0" | "c = RA_save" | "c = RT_save 0"
    by (cases c) auto
  then show ?thesis
  proof cases
    case 1
    then show ?thesis using free assms(1) by (intro exI [of _ "replicate 8 0"]) (simp add: numeral_eq_Suc)
  next
    case 2
    then show ?thesis using free assms(1) by (intro exI [of _ "replicate 7 0"]) (simp add: numeral_eq_Suc)
  next
    case 3
    then show ?thesis using free assms(1) by (intro exI [of _ "replicate 6 0"]) (simp add: numeral_eq_Suc)
  next
    case 4
    then show ?thesis using free assms(1) by (intro exI [of _ "replicate 6 0"]) (simp add: numeral_eq_Suc)
  qed
qed

lemma count_limit_word: "COUNT_LIMIT < 2 ^ 32"
  by (simp add: COUNT_LIMIT_def)

interpretation recursive_live: live_lock "rlock_stmts COUNT_LIMIT" "\<lparr>owner = NULL, cnt = 0\<rparr>" "Out 0"
  rmasked rset_pending rowns rrefused "\<lambda>l. owner l \<noteq> NULL" "rlock_assertion COUNT_LIMIT" "Out 1"
  by unfold_locales
    (blast intro: rmasked_part_ends rlock_released [OF count_limit_word, unfolded rreleased_def]
      rlock_taken [OF small_counts(1)])+

text \<open>
  The machines on which the recursive lock works: interrupts masked, or no preemption between the
  test and the store; and those that, besides, preempt everywhere outside the masked parts only.
\<close>

definition rlock_safe :: "rpc machine \<Rightarrow> bool" where
  "rlock_safe m \<longleftrightarrow> irq_masks m \<or> \<not> preempts m RA_own \<and> \<not> preempts m RT_own"

lemma rlock_safe_guarded: "rlock_safe m \<longleftrightarrow> recursive.guarded m"
  by (auto simp: rlock_safe_def recursive.guarded_def rset_pending_def)

lemma rlock_fair:
  "irq_masks m \<or> (\<forall>c. rmasked c \<longrightarrow> \<not> preempts m c) \<Longrightarrow> \<forall>c. \<not> rmasked c \<longrightarrow> preempts m c \<Longrightarrow>
   recursive_live.fair m"
  by (simp add: recursive_live.fair_def recursive.closed_def)

section \<open>What the recursive lock promises under preemption\<close>

text \<open>
  C9. In every reachable state of the recursive lock, when \<open>local_irq_save\<close> masks interrupts or, with
  the stub of the sources, no thread is preempted between the test of \<open>lock->owner\<close> and the store,
  and no thread holds the lock more than \<open>INT_MAX\<close> times at once: a thread that holds it \<open>n > 0\<close> times
  and is outside the lock functions is its owner, the count is exactly \<open>n\<close>, no other thread holds it,
  and the test of \<open>BUG_ON\<close> in the release finds the releasing thread to be the owner; while no thread
  owns it the count is 0.
\<close>

theorem rlock_count_exact:
  assumes "irq_masks m \<or> \<not> preempts m RA_own \<and> \<not> preempts m RT_own"
    and "reach m (rlock_stmts COUNT_LIMIT) rinit_sys s"
  shows "(pcs s t = Out n \<and> 0 < n \<longrightarrow> owner (lock s) = Suc t \<and> cnt (lock s) = of_nat n \<and>
      (\<forall>u. u \<noteq> t \<longrightarrow> \<not> rowns (pcs s u))) \<and>
    (pcs s t = RR_bug n \<longrightarrow> owner (lock s) = Suc t) \<and>
    ((\<forall>u. \<not> rowns (pcs s u)) \<longrightarrow> lock s = \<lparr>owner = NULL, cnt = 0\<rparr>)"
proof (intro conjI impI)
  have g: "recursive.guarded m" using assms(1) by (simp add: rlock_safe_guarded [symmetric] rlock_safe_def)
  have r: "reach m (rlock_stmts COUNT_LIMIT) (start_sys \<lparr>owner = NULL, cnt = 0\<rparr> (Out 0)) s"
    using assms(2) by (simp add: rinit_sys_def)
  note a = recursive.assertion [OF g r, unfolded rlock_assertion_def]
  show "owner (lock s) = Suc t" "cnt (lock s) = of_nat n" if "pcs s t = Out n \<and> 0 < n"
    using a [of t] that by auto
  show "\<forall>u. u \<noteq> t \<longrightarrow> \<not> rowns (pcs s u)" if "pcs s t = Out n \<and> 0 < n"
    using recursive.mutual_exclusion [OF g r, of _ t] that by auto
  show "owner (lock s) = Suc t" if "pcs s t = RR_bug n" using a [of t] that by auto
  show "lock s = \<lparr>owner = NULL, cnt = 0\<rparr>" if free: "\<forall>u. \<not> rowns (pcs s u)"
  proof -
    have "\<not> owner (lock s) \<noteq> NULL"
      using recursive.reach_inv [OF g r] free unfolding recursive.sys_inv_def by blast
    then show ?thesis using a [of 0] by (cases "lock s") simp
  qed
qed

text \<open>
  The stub, with a scheduler that preempts outside the lock functions only: thread 3 acquires the
  lock twice, thread 1 tries in vain.
\<close>

theorem rlock_count_exact_witness:
  "\<exists>s. reach (stub (\<lambda>c. \<exists>n. c = Out n)) (rlock_stmts COUNT_LIMIT) rinit_sys s \<and> pcs s 3 = Out 2 \<and>
    owner (lock s) = 4 \<and> cnt (lock s) = 2"
proof -
  let ?m = "stub (\<lambda>c. \<exists>n. c = Out n)"
  let ?cs = "Switch 3 # replicate 8 (Run 0) @ replicate 4 (Run 0) @ Switch 1 # Run 1 # replicate 3 (Run 0)"
  obtain es s where r: "replay ?m (rlock_stmts COUNT_LIMIT) rowns rrefused ?cs rinit_sys = (es, s)" by fastforce
  have re: "reach ?m (rlock_stmts COUNT_LIMIT) rinit_sys s"
    by (rule trace_reach [OF trace_replay [OF trace.trace_start r]])
  have "pcs s 3 = Out 2"
    using r by (auto simp: replay_simps rinit_sys_def)
  then show ?thesis
    using rlock_count_exact [OF _ re, of 3 2] re by auto
qed

text \<open>What a run of the atomic lock explains: the events, the owners and the owner field.\<close>

definition ratomic_run :: "lock_event list \<Rightarrow> (rlock_t, rpc) sys \<Rightarrow> bool" where
  "ratomic_run es s \<longleftrightarrow> (\<exists>h. spec_run es None = Some h \<and> (\<forall>t. rowns (pcs s t) \<longleftrightarrow> h = Some t) \<and>
     (\<forall>t. owner (lock s) = Suc t \<longleftrightarrow> h = Some t))"

lemma rlock_atomic_run:
  assumes "rlock_safe m" "trace m (rlock_stmts COUNT_LIMIT) rowns rrefused rinit_sys es s"
  shows "ratomic_run es s"
proof -
  have tr: "trace m (rlock_stmts COUNT_LIMIT) rowns rrefused (start_sys \<lparr>owner = NULL, cnt = 0\<rparr> (Out 0)) es s"
    and g: "recursive.guarded m"
    using assms by (simp_all add: rinit_sys_def rlock_safe_guarded)
  obtain h where h: "spec_run es None = Some h" "holder_is rowns h s"
    using recursive.refines_atomic_lock [OF tr g] by blast
  moreover have "owner (lock s) = Suc t \<longleftrightarrow> rowns (pcs s t)" for t
    using recursive.assertion [OF g trace_reach [OF tr]] by (simp add: rlock_assertion_def)
  ultimately show ?thesis by (auto simp: holder_is_def ratomic_run_def)
qed

text \<open>
  Thread 0 is preempted between its test and its store, in acquire or in try; thread 1 acquires the
  lock and is preempted while it holds it; thread 0 becomes its owner as well.
\<close>

lemma rlock_race:
  assumes "\<not> irq_masks m" "preempts m (Out 1)" "preempts m RA_own \<or> preempts m RT_own"
  shows "\<exists>s. trace m (rlock_stmts COUNT_LIMIT) rowns rrefused rinit_sys [Takes 1, Takes 0] s \<and>
    pcs s 0 = Out 1 \<and> pcs s 1 = Out 1"
proof -
  define k :: nat where "k = (if preempts m RA_own then 0 else 1)"
  let ?cs = "(if k = 0 then replicate 4 (Run 0) else Run 1 # replicate 2 (Run 0)) @
    Switch 1 # replicate 8 (Run 0) @ Switch 0 # replicate 4 (Run 0)"
  obtain es s where r: "replay m (rlock_stmts COUNT_LIMIT) rowns rrefused ?cs rinit_sys = (es, s)" by fastforce
  have "es = [Takes 1, Takes 0] \<and> pcs s 0 = Out 1 \<and> pcs s 1 = Out 1"
  proof (cases "preempts m RA_own")
    case True
    then show ?thesis using r assms by (auto simp: k_def replay_simps rinit_sys_def rrefused_def)
  next
    case False
    then show ?thesis using r assms by (auto simp: k_def replay_simps rinit_sys_def rrefused_def)
  qed
  moreover have "trace m (rlock_stmts COUNT_LIMIT) rowns rrefused rinit_sys ([] @ es) s"
    by (rule trace_replay [OF trace.trace_start r])
  ultimately show ?thesis by auto
qed

text \<open>
  C8. When the recursive lock is atomic. \<open>local_irq_save\<close> may mask interrupts or, as the stub of the
  sources, do nothing, and the scheduler may preempt a thread at any set of places that contains the
  one where it holds the lock once and is outside the lock functions; no thread holds the lock more than \<open>INT_MAX\<close>
  times at once. Then the following are equivalent: every interleaved run has events that the atomic
  lock allows in the same order, with the outermost acquire and the last release as the events that
  take it and give it back, its holder as the only owner and the one the owner field names; and
  interrupts are masked or no thread is preempted between the test of \<open>lock->owner\<close> and the store.
\<close>

theorem rlock_refines_atomic:
  assumes "preempts m (Out 1)"
  shows "(\<forall>es s. trace m (rlock_stmts COUNT_LIMIT) rowns rrefused rinit_sys es s \<longrightarrow>
      (\<exists>h. spec_run es None = Some h \<and> (\<forall>t. rowns (pcs s t) \<longleftrightarrow> h = Some t) \<and>
        (\<forall>t. owner (lock s) = Suc t \<longleftrightarrow> h = Some t))) \<longleftrightarrow>
    irq_masks m \<or> \<not> preempts m RA_own \<and> \<not> preempts m RT_own"
proof -
  have "\<exists>s. trace m (rlock_stmts COUNT_LIMIT) rowns rrefused rinit_sys [Takes 1, Takes 0] s" if "\<not> rlock_safe m"
    using that rlock_race [OF _ assms] by (auto simp: rlock_safe_def)
  moreover have "\<not> ratomic_run [Takes 1, Takes 0] s" for s by (simp add: ratomic_run_def)
  ultimately show ?thesis
    using rlock_atomic_run [of m] unfolding rlock_safe_def [symmetric] ratomic_run_def [symmetric] by blast
qed

text \<open>
  The stub with a scheduler that preempts outside the lock functions only: thread 3 holds the lock
  twice, thread 1 is refused. The same stub, preemptive everywhere, is not atomic.
\<close>

theorem rlock_refines_atomic_witness:
  "(\<exists>s h. trace (stub (\<lambda>c. \<exists>n. c = Out n)) (rlock_stmts COUNT_LIMIT) rowns rrefused rinit_sys
        [Takes 3, Refused 1] s \<and>
      spec_run [Takes 3, Refused 1] None = Some h \<and> (\<forall>t. owner (lock s) = Suc t \<longleftrightarrow> h = Some t)) \<and>
   (\<exists>es s. trace (stub (\<lambda>_. True)) (rlock_stmts COUNT_LIMIT) rowns rrefused rinit_sys es s \<and>
      \<not> (\<exists>h. spec_run es None = Some h \<and> (\<forall>t. rowns (pcs s t) \<longleftrightarrow> h = Some t) \<and>
        (\<forall>t. owner (lock s) = Suc t \<longleftrightarrow> h = Some t)))"
proof (rule conjI)
  let ?m = "stub (\<lambda>c. \<exists>n. c = Out n)"
  let ?cs = "Switch 3 # replicate 8 (Run 0) @ replicate 4 (Run 0) @ Switch 1 # Run 1 # replicate 3 (Run 0)"
  obtain es s where r: "replay ?m (rlock_stmts COUNT_LIMIT) rowns rrefused ?cs rinit_sys = (es, s)" by fastforce
  then have es: "es = [Takes 3, Refused 1]"
    by (simp add: replay_simps rinit_sys_def rrefused_def)
  have "trace ?m (rlock_stmts COUNT_LIMIT) rowns rrefused rinit_sys ([] @ es) s"
    by (rule trace_replay [OF trace.trace_start r])
  then have tr: "trace ?m (rlock_stmts COUNT_LIMIT) rowns rrefused rinit_sys [Takes 3, Refused 1] s"
    by (simp add: es)
  then show "\<exists>s h. trace ?m (rlock_stmts COUNT_LIMIT) rowns rrefused rinit_sys [Takes 3, Refused 1] s \<and>
      spec_run [Takes 3, Refused 1] None = Some h \<and> (\<forall>t. owner (lock s) = Suc t \<longleftrightarrow> h = Some t)"
    using rlock_refines_atomic [of ?m] by fastforce
next
  show "\<exists>es s. trace (stub (\<lambda>_. True)) (rlock_stmts COUNT_LIMIT) rowns rrefused rinit_sys es s \<and>
      \<not> (\<exists>h. spec_run es None = Some h \<and> (\<forall>t. rowns (pcs s t) \<longleftrightarrow> h = Some t) \<and>
        (\<forall>t. owner (lock s) = Suc t \<longleftrightarrow> h = Some t))"
    using rlock_refines_atomic [of "stub (\<lambda>_. True)"] by fastforce
qed

text \<open>The stub of the sources and a preemptive scheduler: two threads hold the lock once each.\<close>

theorem rlock_stub_race:
  "\<exists>s t u. reach (stub (\<lambda>_. True)) (rlock_stmts COUNT_LIMIT) rinit_sys s \<and> t \<noteq> u \<and>
    pcs s t = Out 1 \<and> pcs s u = Out 1"
proof -
  obtain s where "trace (stub (\<lambda>_. True)) (rlock_stmts COUNT_LIMIT) rowns rrefused rinit_sys [Takes 1, Takes 0] s"
      "pcs s 0 = Out 1" "pcs s 1 = Out 1"
    using rlock_race [of "stub (\<lambda>_. True)"] by auto
  then show ?thesis using trace_reach by (metis zero_neq_one)
qed

text \<open>
  C33. The recursive lock locks nobody out either, on every machine that preempts a thread everywhere
  outside the masked parts and on which the masked parts are not interrupted (interrupts masked, or
  the stub and a scheduler that does not preempt there), and with at most \<open>INT_MAX\<close> holdings at once:
  from every reachable state, however deep the holder's nesting and wherever the threads stand, the
  run has a continuation in which any given thread holds the lock, once, as its only owner. The
  holder has to undo its whole nesting for that; a single release is not enough.
\<close>

theorem rlock_no_deadlock:
  assumes "irq_masks m \<or> (\<forall>c. rmasked c \<longrightarrow> \<not> preempts m c)" "\<forall>c. \<not> rmasked c \<longrightarrow> preempts m c"
    and "reach m (rlock_stmts COUNT_LIMIT) rinit_sys s"
  shows "\<exists>s'. reach m (rlock_stmts COUNT_LIMIT) s s' \<and> pcs s' t = Out 1 \<and>
    lock s' = \<lparr>owner = Suc t, cnt = 1\<rparr> \<and> (\<forall>u. rowns (pcs s' u) \<longleftrightarrow> u = t)"
proof -
  have fair: "recursive_live.fair m" using assms(1,2) by (rule rlock_fair)
  note g = recursive_live.fair_guarded [OF fair]
  have r: "reach m (rlock_stmts COUNT_LIMIT) (start_sys \<lparr>owner = NULL, cnt = 0\<rparr> (Out 0)) s"
    using assms(3) by (simp add: rinit_sys_def)
  obtain s' where s': "reach m (rlock_stmts COUNT_LIMIT) s s'" "pcs s' t = Out 1"
    using recursive_live.no_deadlock [OF fair r] by blast
  note r' = reach_trans [OF s'(1) r]
  have "rlock_assertion COUNT_LIMIT t (lock s') (pcs s' t)"
    by (rule recursive.assertion [OF g r'])
  then have "lock s' = \<lparr>owner = Suc t, cnt = 1\<rparr>"
    using s'(2) by (auto simp: rlock_assertion_def intro: rlock_t.equality)
  moreover have "u = t" if "rowns (pcs s' u)" for u
    using recursive.mutual_exclusion [OF g r' that] s'(2) by simp
  ultimately show ?thesis using s' by auto
qed

text \<open>
  The stub, preempting outside the masked parts: thread 3 holds the lock twice; thread 1 can still
  come to hold it.
\<close>

theorem rlock_no_deadlock_witness:
  "\<exists>s s'. reach (stub (\<lambda>c. \<not> rmasked c)) (rlock_stmts COUNT_LIMIT) rinit_sys s \<and> pcs s 3 = Out 2 \<and>
    reach (stub (\<lambda>c. \<not> rmasked c)) (rlock_stmts COUNT_LIMIT) s s' \<and> pcs s' 1 = Out 1"
proof -
  let ?m = "stub (\<lambda>c. \<not> rmasked c)"
  let ?cs = "Switch 3 # replicate 8 (Run 0) @ replicate 4 (Run 0)"
  obtain es s where r: "replay ?m (rlock_stmts COUNT_LIMIT) rowns rrefused ?cs rinit_sys = (es, s)" by fastforce
  have re: "reach ?m (rlock_stmts COUNT_LIMIT) rinit_sys s"
    by (rule trace_reach [OF trace_replay [OF trace.trace_start r]])
  have h: "pcs s 3 = Out 2"
    using r by (auto simp: replay_simps rinit_sys_def)
  from rlock_no_deadlock [OF _ _ re, of 1] obtain s' where
      "reach ?m (rlock_stmts COUNT_LIMIT) s s'" "pcs s' 1 = Out 1" by auto
  with re h show ?thesis by blast
qed

end
