(* ===== verification/Lock_Calls.thy ===== *)
theory Lock_Calls
  imports Lock_Interleaving Rlock_Interleaving
begin

text \<open>
  The two views of lock_verified.c agree: a call of a lock function in the theory \<open>Lock\<close>, which has no
  statements and no other threads, is what its statements in \<open>Lock_Interleaving\<close> and
  \<open>Rlock_Interleaving\<close> do when the thread is not preempted, with the same lock afterwards, the same
  outcome, and without an end in the same cases.
\<close>

section \<open>Running a call\<close>

text \<open>
  A thread runs alone up to the next place at rest, outside the lock functions. Inside a function
  there is one statement to execute at each place.
\<close>

partial_function (option) run_call ::
    "('l, 'pc) statements \<Rightarrow> ('pc \<Rightarrow> bool) \<Rightarrow> nat \<Rightarrow> 'l \<times> 'pc \<Rightarrow> ('l \<times> 'pc) option" where
  "run_call stmts at_rest t p =
     (if at_rest (snd p) then Some p
      else case stmts t (fst p) (snd p) of
        [] \<Rightarrow> None
      | e # es \<Rightarrow> run_call stmts at_rest t (fst e, snd (snd e)))"

lemma run_call_rest: "at_rest c \<Longrightarrow> run_call stmts at_rest t (l, c) = Some (l, c)"
  by (simp add: run_call.simps)

lemma run_call_step:
  "\<not> at_rest c \<Longrightarrow> stmts t l c = [(l', i, c')] \<Longrightarrow>
   run_call stmts at_rest t (l, c) = run_call stmts at_rest t (l', c')"
  by (subst run_call.simps) simp

text \<open>A set of places that the statements do not leave holds no place at rest: the call never ends.\<close>

lemma run_call_loops:
  assumes stays: "\<And>p e. p \<in> S \<Longrightarrow> \<not> at_rest (snd p) \<and>
      (\<forall>e \<in> set (stmts t (fst p) (snd p)). (fst e, snd (snd e)) \<in> S)"
    and p: "p \<in> S"
  shows "run_call stmts at_rest t p = None"
proof -
  have "s = stmts \<longrightarrow> a = at_rest \<longrightarrow> u = t \<longrightarrow> p \<notin> S" if "run_call s a u p = Some q" for s a u p q
  proof (rule run_call.raw_induct [where P = "\<lambda>s a u p q. s = stmts \<longrightarrow> a = at_rest \<longrightarrow> u = t \<longrightarrow> p \<notin> S", OF _ that])
    fix rec s a u p q
    assume IH: "\<And>s a u p q. rec s a u p = Some q \<Longrightarrow> s = stmts \<longrightarrow> a = at_rest \<longrightarrow> u = t \<longrightarrow> p \<notin> S"
      and r: "(if a (snd p) then Some p else case s u (fst p) (snd p) of [] \<Rightarrow> None
        | e # es \<Rightarrow> rec s a u (fst e, snd (snd e))) = Some q"
    show "s = stmts \<longrightarrow> a = at_rest \<longrightarrow> u = t \<longrightarrow> p \<notin> S"
    proof (intro impI notI)
      assume eq: "s = stmts" "a = at_rest" "u = t" and "p \<in> S"
      with stays have st: "\<not> at_rest (snd p)" "\<forall>e \<in> set (stmts t (fst p) (snd p)). (fst e, snd (snd e)) \<in> S"
        by blast+
      then obtain e es where e: "stmts t (fst p) (snd p) = e # es" "rec s a u (fst e, snd (snd e)) = Some q"
        using r eq by (auto split: list.splits)
      from IH [OF e(2)] st(2) e(1) eq show False by simp
    qed
  qed
  with p show ?thesis by (metis not_Some_eq)
qed

section \<open>The plain lock\<close>

definition outside :: "pc \<Rightarrow> bool" where
  "outside c \<longleftrightarrow> c = Idle \<or> c = Holding"

lemma outside_simps [simp]:
  "outside Idle" "outside Holding" "\<not> outside A_save" "\<not> outside A_test" "\<not> outside A_again" "\<not> outside A_set"
  "\<not> outside A_done" "\<not> outside T_save" "\<not> outside T_test" "\<not> outside T_set" "\<not> outside (T_done ok)"
  "\<not> outside R_save" "\<not> outside R_clear" "\<not> outside R_done"
  by (simp_all add: outside_def)

lemmas run_plain = run_call_rest [of outside] run_call_step [of outside _ lock_stmts]

lemma lock_acquire_waits:
  assumes "c_true (busy l)"
  shows "run_call lock_stmts outside t (l, A_save) = None"
  by (rule run_call_loops [of "{(l, A_save), (l, A_test), (l, A_again)}"]) (use assms in auto)

lemma lock_acquire_value:
  "lock_acquire l = (if c_true (busy l) then None else Some (0, l\<lparr>busy := 1\<rparr>))"
  by (simp add: lock_acquire_def acquire_spin_returns c_true_def)

text \<open>
  Run without preemption, the statements of the plain lock compute the functions of the one-thread
  view: the same lock, the thread holding it exactly when the function returns 0, and no end exactly
  when \<open>___lock_acquire\<close> does not return.
\<close>

theorem lock_calls_agree:
  "run_call lock_stmts outside t (l, A_save) = map_option (\<lambda>(r, l'). (l', Holding)) (lock_acquire l) \<and>
   run_call lock_stmts outside t (l, T_save) =
     (case lock_try_acquire l of (r, l') \<Rightarrow> Some (l', if r = 0 then Holding else Idle)) \<and>
   run_call lock_stmts outside t (l, R_save) = Some (snd (lock_release l), Idle)"
proof (intro conjI)
  show "run_call lock_stmts outside t (l, A_save) = map_option (\<lambda>(r, l'). (l', Holding)) (lock_acquire l)"
  proof (cases "c_true (busy l)")
    case True
    then show ?thesis by (simp add: lock_acquire_waits lock_acquire_value)
  next
    case False
    then show ?thesis by (simp add: lock_acquire_value run_plain)
  qed
  show "run_call lock_stmts outside t (l, T_save) =
      (case lock_try_acquire l of (r, l') \<Rightarrow> Some (l', if r = 0 then Holding else Idle))"
    by (cases "c_true (busy l)") (simp_all add: lock_try_acquire_def run_plain)
  show "run_call lock_stmts outside t (l, R_save) = Some (snd (lock_release l), Idle)"
    by (simp add: lock_release_def run_plain)
qed

section \<open>The recursive lock\<close>

fun at_rest :: "rpc \<Rightarrow> bool" where
  "at_rest (Out n) = True"
| "at_rest _ = False"

lemmas run_recursive = run_call_rest [of at_rest] run_call_step [of at_rest _ "rlock_stmts lim" for lim]

lemma rlock_acquire_waits:
  assumes "owner l \<noteq> NULL"
  shows "run_call (rlock_stmts lim) at_rest t (l, RA_save) = None"
  by (rule run_call_loops [of "{(l, RA_save), (l, RA_test), (l, RA_again)}"]) (use assms in auto)

text \<open>
  So do the statements of the recursive lock, for a thread that holds it \<open>n\<close> times: it holds it once
  more after \<open>___lock_acquire_recursive\<close> (once, when it was not the owner), once after a try that returns
  0 and as often as before after one that fails, and once less after \<open>___lock_release_recursive\<close>
  (not at all, when the count comes to 0).
\<close>

theorem rlock_calls_agree:
  "run_call (rlock_stmts lim) at_rest t (l, RA_check n) =
     map_option (\<lambda>(r, l'). (l', Out (if owner l = Suc t then Suc n else 1))) (lock_acquire_recursive (Suc t) l) \<and>
   run_call (rlock_stmts lim) at_rest t (l, RT_save n) =
     (case lock_try_acquire_recursive (Suc t) l of (r, l') \<Rightarrow> Some (l', Out (if r = 0 then 1 else n))) \<and>
   run_call (rlock_stmts lim) at_rest t (l, RR_bug n) =
     map_option (\<lambda>(r, l'). (l', Out (if c_true (cnt l') then n - 1 else 0)))
       (lock_release_recursive BUG_ON_stub (Suc t) l)"
proof (intro conjI)
  show "run_call (rlock_stmts lim) at_rest t (l, RA_check n) =
      map_option (\<lambda>(r, l'). (l', Out (if owner l = Suc t then Suc n else 1))) (lock_acquire_recursive (Suc t) l)"
  proof (cases "owner l \<noteq> NULL \<and> owner l \<noteq> Suc t")
    case True
    then have "run_call (rlock_stmts lim) at_rest t (l, RA_check n) = run_call (rlock_stmts lim) at_rest t (l, RA_save)"
      by (subst run_recursive(2)) simp_all
    with True show ?thesis by (simp add: rlock_acquire_waits lock_acquire_recursive_def racquire_spin_returns)
  next
    case False
    then consider "owner l = NULL" | "owner l = Suc t" by blast
    then show ?thesis
      by cases (simp_all add: lock_acquire_recursive_def racquire_spin_returns run_recursive)
  qed
  show "run_call (rlock_stmts lim) at_rest t (l, RT_save n) =
      (case lock_try_acquire_recursive (Suc t) l of (r, l') \<Rightarrow> Some (l', Out (if r = 0 then 1 else n)))"
    by (cases "owner l = NULL") (simp_all add: lock_try_acquire_recursive_def run_recursive)
  show "run_call (rlock_stmts lim) at_rest t (l, RR_bug n) =
      map_option (\<lambda>(r, l'). (l', Out (if c_true (cnt l') then n - 1 else 0)))
        (lock_release_recursive BUG_ON_stub (Suc t) l)"
    by (cases "c_true (cnt l - 1)")
      (simp_all add: lock_release_recursive_def BUG_ON_stub_def run_recursive Let_def)
qed

end
