(* ===== verification/C_Loops.thy ===== *)
theory C_Loops
  imports Xen_Prelude
begin

text \<open>
  The loop shapes and the array accesses the components share: a bounds-checked array, the
  search loop \<open>for (i = a; i < n; i++) if (P(i)) return i;\<close>, the counting loop
  \<open>for (i = a; i < n; i++) body(i);\<close> and their rules.
\<close>

named_theorems array_simps \<open>bounds-checked reads and writes of arrays\<close>

section \<open>Arrays\<close>

text \<open>A read or a write outside the array has no defined behaviour.\<close>

definition at :: "'a list \<Rightarrow> nat \<Rightarrow> 'a option" where
  "at xs i = (if i < length xs then Some (xs ! i) else None)"

definition upd :: "'a list \<Rightarrow> nat \<Rightarrow> 'a \<Rightarrow> 'a list option" where
  "upd xs i x = (if i < length xs then Some (xs[i := x]) else None)"

lemma at_Some_iff: "at xs i = Some x \<longleftrightarrow> i < length xs \<and> x = xs ! i"
  by (auto simp: at_def)

lemma upd_Some_iff: "upd xs i x = Some ys \<longleftrightarrow> i < length xs \<and> ys = xs[i := x]"
  by (auto simp: upd_def)

lemma at_in [array_simps]: "i < length xs \<Longrightarrow> at xs i = Some (xs ! i)"
  by (simp add: at_def)

lemma at_out [array_simps]: "length xs \<le> i \<Longrightarrow> at xs i = None"
  by (simp add: at_def)

lemma upd_in [array_simps]: "i < length xs \<Longrightarrow> upd xs i x = Some (xs[i := x])"
  by (simp add: upd_def)

lemma upd_out [array_simps]: "length xs \<le> i \<Longrightarrow> upd xs i x = None"
  by (simp add: upd_def)

lemma at_list_update [array_simps]:
  "i < length xs \<Longrightarrow> at (xs[i := x]) j = (if i = j then Some x else at xs j)"
  by (auto simp: at_def)

section \<open>The search loop\<close>

function search :: "(nat \<Rightarrow> bool option) \<Rightarrow> nat \<Rightarrow> nat \<Rightarrow> nat option option" where
  "search P i n =
     (if i < n then do {
        b \<leftarrow> P i;
        if b then Some (Some i) else search P (Suc i) n }
      else Some None)"
  by auto
termination by (relation "measure (\<lambda>(P, i, n). n - i)") auto

declare search.simps [simp del]

lemma search_steps [array_simps]:
  "n \<le> i \<Longrightarrow> search P i n = Some None"
  "i < n \<Longrightarrow> P i = None \<Longrightarrow> search P i n = None"
  "i < n \<Longrightarrow> P i = Some True \<Longrightarrow> search P i n = Some (Some i)"
  "i < n \<Longrightarrow> P i = Some False \<Longrightarrow> search P i n = search P (Suc i) n"
  by (subst search.simps, simp)+

lemma search_cases:
  fixes P :: "nat \<Rightarrow> bool option" and i n :: nat
  obtains "n \<le> i" | "i < n" "P i = None" | "i < n" "P i = Some True" | "i < n" "P i = Some False"
  by (cases "i < n"; cases "P i"; cases "the (P i)") auto

text \<open>How far a search that started at \<open>i\<close> has to look, one step further on.\<close>

lemma all_from_Suc: "P i \<Longrightarrow> (\<forall>j. i \<le> j \<and> j < k \<longrightarrow> P j) \<longleftrightarrow> (\<forall>j. Suc i \<le> j \<and> j < k \<longrightarrow> P j)"
  for i :: nat
  by (metis Suc_leD Suc_leI le_neq_implies_less)

lemma search_found_iff:
  "search P i n = Some (Some k) \<longleftrightarrow>
   i \<le> k \<and> k < n \<and> P k = Some True \<and> (\<forall>j. i \<le> j \<and> j < k \<longrightarrow> P j = Some False)"
proof (induction "n - i" arbitrary: i)
  case (Suc d)
  show ?case
  proof (cases rule: search_cases [where P = P and i = i and n = n])
    case 4
    then have "i \<le> k \<and> P k = Some True \<longleftrightarrow> Suc i \<le> k \<and> P k = Some True"
      by (metis Suc_leD Suc_leI le_neq_implies_less option.inject)
    with 4 Suc show ?thesis
      using all_from_Suc [of "\<lambda>j. P j = Some False" i k] by (auto simp: search_steps)
  next
    case 3
    then show ?thesis by (auto simp: search_steps)
  next
    case 2
    then show ?thesis by (auto simp: search_steps) (metis le_neq_implies_less option.distinct(1) order_refl)
  qed (use Suc in simp)
qed (auto simp: search_steps)

lemma search_none_iff:
  "search P i n = Some None \<longleftrightarrow> (\<forall>j. i \<le> j \<and> j < n \<longrightarrow> P j = Some False)"
proof (induction "n - i" arbitrary: i)
  case (Suc d)
  show ?case
  proof (cases rule: search_cases [where P = P and i = i and n = n])
    case 4
    with Suc show ?thesis
      using all_from_Suc [of "\<lambda>j. P j = Some False" i n] by (auto simp: search_steps)
  qed (use Suc in \<open>auto simp: search_steps\<close>)
qed (auto simp: search_steps)

lemma search_undefined_iff:
  "search P i n = None \<longleftrightarrow>
   (\<exists>k. i \<le> k \<and> k < n \<and> P k = None \<and> (\<forall>j. i \<le> j \<and> j < k \<longrightarrow> P j = Some False))"
proof (induction "n - i" arbitrary: i)
  case (Suc d)
  show ?case
  proof (cases rule: search_cases [where P = P and i = i and n = n])
    case 4
    then have "i \<le> k \<and> P k = None \<longleftrightarrow> Suc i \<le> k \<and> P k = None" for k
      by (metis Suc_leD Suc_leI le_neq_implies_less option.distinct(1))
    with 4 Suc show ?thesis
      using all_from_Suc [of "\<lambda>j. P j = Some False" i] by (auto simp: search_steps)
  next
    case 3
    then show ?thesis by (auto simp: search_steps) (metis le_neq_implies_less option.distinct(1) option.inject order_refl)
  qed (use Suc in \<open>auto simp: search_steps\<close>)
qed (auto simp: search_steps)

text \<open>Where every test is defined, the loop is the library's \<open>find\<close>.\<close>

lemma search_find:
  assumes "\<And>j. i \<le> j \<Longrightarrow> j < n \<Longrightarrow> P j = Some (Q j)"
  shows "search P i n = Some (find Q [i..<n])"
  using assms
proof (induction "n - i" arbitrary: i)
  case (Suc d)
  then have i: "i < n" by simp
  have rest: "search P (Suc i) n = Some (find Q [Suc i..<n])"
    using Suc.hyps(1) [of "Suc i"] Suc.hyps(2) Suc.prems by simp
  have "P i = Some (Q i)" using Suc.prems i by simp
  then show ?case
    using i rest by (cases "Q i") (simp_all add: search_steps upt_conv_Cons)
qed (simp add: search_steps)

lemma find_upt_None: "find Q [i..<n] = None \<longleftrightarrow> (\<forall>j. i \<le> j \<and> j < n \<longrightarrow> \<not> Q j)"
  by (auto simp: find_None_iff)

text \<open>A result that only says whether the loop returned early.\<close>

lemma case_option_if: "(r = None \<longleftrightarrow> A) \<Longrightarrow> (case r of Some i \<Rightarrow> x | None \<Rightarrow> y) = (if A then y else x)"
  by (cases r) auto

lemmas search_iffs = search_found_iff search_none_iff search_undefined_iff

section \<open>The counting loop\<close>

function for_loop :: "(nat \<Rightarrow> 's \<Rightarrow> 's option) \<Rightarrow> nat \<Rightarrow> nat \<Rightarrow> 's \<Rightarrow> 's option" where
  "for_loop f i n s =
     (if i < n then do {
        s \<leftarrow> f i s;
        for_loop f (Suc i) n s }
      else Some s)"
  by auto
termination by (relation "measure (\<lambda>(f, i, n, s). n - i)") auto

declare for_loop.simps [simp del]

lemma for_loop_done [simp]: "n \<le> i \<Longrightarrow> for_loop f i n s = Some s"
  by (subst for_loop.simps) simp

lemma for_loop_step: "i < n \<Longrightarrow> for_loop f i n s = f i s \<bind> for_loop f (Suc i) n"
  by (subst for_loop.simps) simp

text \<open>The invariant rule: the body is defined and steps the invariant from \<open>i\<close> to \<open>Suc i\<close>.\<close>

lemma for_loop_rule:
  assumes "I i s" "i \<le> n"
    and "\<And>j s. i \<le> j \<Longrightarrow> j < n \<Longrightarrow> I j s \<Longrightarrow> \<exists>s'. f j s = Some s' \<and> I (Suc j) s'"
  shows "\<exists>s'. for_loop f i n s = Some s' \<and> I n s'"
  using assms
proof (induction "n - i" arbitrary: i s)
  case (Suc d)
  then have "i < n" by simp
  then obtain s' where "f i s = Some s'" "I (Suc i) s'" using Suc.prems by blast
  moreover have "\<exists>s''. for_loop f (Suc i) n s' = Some s'' \<and> I n s''"
    using Suc.hyps(1) [of "Suc i" s'] Suc.hyps(2) Suc.prems(3) calculation(2) \<open>i < n\<close> by simp
  ultimately show ?case using \<open>i < n\<close> by (simp add: for_loop_step)
qed simp

text \<open>What one body preserves whenever it is defined, the loop preserves whenever it is defined.\<close>

lemma for_loop_preserves:
  assumes "for_loop f i n s = Some t" "I s"
    and "\<And>j s s'. i \<le> j \<Longrightarrow> j < n \<Longrightarrow> I s \<Longrightarrow> f j s = Some s' \<Longrightarrow> I s'"
  shows "I t"
  using assms
proof (induction "n - i" arbitrary: i s)
  case (Suc d)
  then obtain s' where s': "f i s = Some s'" "for_loop f (Suc i) n s' = Some t" and i: "i < n"
    by (auto simp: for_loop_step bind_eq_Some_conv)
  show ?case
    by (rule Suc.hyps(1) [of "Suc i" s']) (use Suc.hyps(2) Suc.prems s' i in \<open>auto intro: Suc_leD\<close>)
qed simp

text \<open>A loop that writes \<open>g i\<close> to every cell of an array.\<close>

lemma for_loop_fill:
  assumes "n = length xs" "\<And>j ys. j < n \<Longrightarrow> length ys = n \<Longrightarrow> f j ys = Some (ys[j := g (ys ! j)])"
  shows "for_loop f 0 n xs = Some (map g xs)"
proof -
  have "\<exists>ys. for_loop f 0 n xs = Some ys \<and>
      length ys = length xs \<and> (\<forall>j < length xs. ys ! j = (if j < n then g (xs ! j) else xs ! j))"
  proof (rule for_loop_rule [where I = "\<lambda>i ys. length ys = length xs \<and>
      (\<forall>j < length xs. ys ! j = (if j < i then g (xs ! j) else xs ! j))"], goal_cases)
    case (3 j ys)
    then have "f j ys = Some (ys[j := g (xs ! j)])" using assms by simp
    with 3 assms(1) show ?case by (auto simp: nth_list_update less_Suc_eq)
  qed simp_all
  then obtain ys where "for_loop f 0 n xs = Some ys" "length ys = length xs"
    "\<And>j. j < length xs \<Longrightarrow> ys ! j = g (xs ! j)"
    using assms(1) by auto
  moreover from this have "ys = map g xs" by (intro nth_equalityI) simp_all
  ultimately show ?thesis by simp
qed

text \<open>A loop whose bound exceeds the array it walks over has no defined behaviour.\<close>

lemma for_loop_overrun:
  assumes "\<And>j ys zs. f j ys = Some zs \<Longrightarrow> j < length ys \<and> length zs = length ys"
    and "i \<le> length xs" "length xs < n"
  shows "for_loop f i n xs = None"
  using assms(2,3)
proof (induction "length xs - i" arbitrary: i xs)
  case 0
  then have "f i xs = None" using assms(1) [of i xs] by (cases "f i xs") auto
  with 0 show ?case by (simp add: for_loop_step)
next
  case (Suc d)
  show ?case
  proof (cases "f i xs")
    case (Some ys)
    with assms(1) have "i < length xs" "length ys = length xs" by blast+
    with Suc Some show ?thesis by (simp add: for_loop_step)
  qed (use Suc in \<open>simp add: for_loop_step\<close>)
qed

end
