(* ===== verification/Srat.thy ===== *)
theory Srat
  imports C_Loops
begin

text \<open>
  The NUMA discovery of srat_verified.c: the table of proximity domains, the memory blocks and
  node ranges, the callbacks for the ACPI SRAT and SLIT tables, the check that the nodes cover all
  RAM, and the registration of the nodes. \<open>None\<close> is undefined behaviour; an array has exactly the
  entries the source declares, and the loops run to the bounds the source writes (\<open>sizeof\<close>, a
  number of bytes). At the end stands what is shown of the SLIT.
\<close>

section \<open>Data\<close>

record node =
  nd_start :: u32
  nd_end :: u32

record pxm2node =
  pm_pxm :: u32
  pm_node :: u32

record slit =
  slit_entry :: "u32 list"
  slit_ok :: bool
  slit_header :: u32
  locality_count :: u32

record x2apic_affinity =
  xa_flags :: u32
  xa_apic_id :: int
  xa_pxm :: u32

record cpu_affinity =
  ca_flags :: u32
  ca_apic_id :: int
  ca_pxm_lo :: u32
  ca_pxm_hi :: "u32 list"

record mem_affinity =
  ma_flags :: u32
  ma_base :: u32
  ma_length :: u32
  ma_pxm :: u32

text \<open>
  One entry of the memory map; \<open>struct map\<close> is not declared in the sources. \<open>is_ram\<close> is the
  outcome of comparing its type with \<open>"E820_RAM"\<close>.
\<close>

record e820_map =
  is_ram :: bool
  map_addr :: u64
  map_size :: u64

text \<open>The file's variables, and the \<open>static\<close> locals \<open>nodes_found\<close> and \<open>warned\<close> of \<open>setup_node\<close>.\<close>

record srat =
  acpi_numa :: int
  apicid_to_node :: "u32 list"
  srat_rev :: int
  mem_hotplug :: u32
  nodes :: "node list"
  num_node_memblks :: int
  memblk_nodeid :: "u32 list"
  node_memblk_range :: "node list"
  pxm2node :: "pxm2node list"
  nodes_found :: u32
  warned :: bool
  acpi_slit :: slit

definition MAX_NUMNODES :: nat where "MAX_NUMNODES = 1000"
definition NR_NODE_MEMBLKS :: nat where "NR_NODE_MEMBLKS = 2000"
definition MAX_LOCAL_APIC :: nat where "MAX_LOCAL_APIC = 256"
abbreviation (input) NUMA_NO_NODE :: u32 where "NUMA_NO_NODE \<equiv> 0"

text \<open>An element of \<open>pxm2node\<close> is an \<open>unsigned\<close> and an \<open>int\<close>, 8 bytes.\<close>

definition sizeof_pxm2node :: nat where "sizeof_pxm2node = 8 * MAX_NUMNODES"

text \<open>The sizes the affinity callbacks compare: \<open>header\<close> is one \<open>unsigned\<close>.\<close>

definition sizeof_header :: nat where "sizeof_header = 4"
definition sizeof_x2apic_affinity :: nat where "sizeof_x2apic_affinity = 16"
definition sizeof_cpu_affinity :: nat where "sizeof_cpu_affinity = 28"
definition sizeof_mem_affinity :: nat where "sizeof_mem_affinity = 20"

text \<open>The state before any table is parsed: static storage is zero.\<close>

definition srat_boot :: srat where
  "srat_boot =
     \<lparr>acpi_numa = 0, apicid_to_node = replicate 256 0, srat_rev = 0, mem_hotplug = 0,
      nodes = replicate MAX_NUMNODES \<lparr>nd_start = 0, nd_end = 0\<rparr>, num_node_memblks = 0,
      memblk_nodeid = replicate NR_NODE_MEMBLKS 0,
      node_memblk_range = replicate NR_NODE_MEMBLKS \<lparr>nd_start = 0, nd_end = 0\<rparr>,
      pxm2node = replicate MAX_NUMNODES \<lparr>pm_pxm = 0, pm_node = 0\<rparr>,
      nodes_found = 0, warned = False,
      acpi_slit = \<lparr>slit_entry = [0], slit_ok = False, slit_header = 0, locality_count = 0\<rparr>\<rparr>"

lemma below_max: "unat w < MAX_NUMNODES \<Longrightarrow> w \<noteq> - 1" for w :: u32
  by (auto simp: MAX_NUMNODES_def unsigned_minus_1_eq_mask mask_eq_exp_minus_1)

section \<open>Proximity domains\<close>

definition node_found :: "pxm2node list \<Rightarrow> nat \<Rightarrow> u32 \<Rightarrow> bool option" where
  "node_found t idx p = do {
     e \<leftarrow> at t idx;
     Some (pm_pxm e = p \<and> pm_node e \<noteq> 0) }"

definition pxm_to_node :: "pxm2node list \<Rightarrow> u32 \<Rightarrow> u32 option" where
  "pxm_to_node t p = do {
     direct \<leftarrow> (if unat p < sizeof_pxm2node then node_found t (unat p) p else Some False);
     if direct then Some (pm_node (t ! unat p))
     else do {
       r \<leftarrow> search (\<lambda>i. node_found t i p) 0 sizeof_pxm2node;
       case r of Some i \<Rightarrow> Some (pm_node (t ! i)) | None \<Rightarrow> Some 0 } }"

definition slot_free :: "pxm2node list \<Rightarrow> nat \<Rightarrow> bool option" where
  "slot_free t idx = do {
     e \<leftarrow> at t idx;
     Some (pm_node e = NUMA_NO_NODE) }"

text \<open>\<open>setup_node\<close> from its label \<open>finish\<close> on.\<close>

definition setup_finish :: "u32 \<Rightarrow> nat \<Rightarrow> srat \<Rightarrow> (u32 \<times> srat) option" where
  "setup_finish p idx s =
     (let node = nodes_found s; s = s\<lparr>nodes_found := nodes_found s + 1\<rparr> in
      if MAX_NUMNODES \<le> unat node then Some (NUMA_NO_NODE, s)
      else do {
        t \<leftarrow> upd (pxm2node s) idx \<lparr>pm_pxm = p, pm_node = node\<rparr>;
        Some (node, s\<lparr>pxm2node := t\<rparr>) })"

text \<open>Its loop over the free slots.\<close>

definition setup_search :: "u32 \<Rightarrow> srat \<Rightarrow> (u32 \<times> srat) option" where
  "setup_search p s = do {
     r \<leftarrow> search (slot_free (pxm2node s)) 0 sizeof_pxm2node;
     case r of
       Some idx \<Rightarrow> setup_finish p idx s
     | None \<Rightarrow> Some (NUMA_NO_NODE, s\<lparr>warned := True\<rparr>) }"

definition setup_node :: "u32 \<Rightarrow> srat \<Rightarrow> (u32 \<times> srat) option" where
  "setup_node p s =
     (if unat p < sizeof_pxm2node then do {
        found \<leftarrow> node_found (pxm2node s) (unat p) p;
        if found then Some (pm_node (pxm2node s ! unat p), s)
        else do {
          free \<leftarrow> slot_free (pxm2node s) (unat p);
          if free then setup_finish p (unat p) s else setup_search p s } }
      else setup_search p s)"

text \<open>\<open>n\<close> is the \<open>int\<close> argument as its 32 bits; a negative one fails the unsigned comparison.\<close>

definition node_to_pxm :: "pxm2node list \<Rightarrow> u32 \<Rightarrow> u32 option" where
  "node_to_pxm t n = do {
     direct \<leftarrow> (if unat n < sizeof_pxm2node
       then do { e \<leftarrow> at t (unat n); Some (pm_node e = n) } else Some False);
     if direct then Some (pm_pxm (t ! unat n))
     else do {
       r \<leftarrow> search (\<lambda>i. do { e \<leftarrow> at t i; Some (pm_node e = n) }) 0 sizeof_pxm2node;
       case r of Some i \<Rightarrow> Some (pm_pxm (t ! i)) | None \<Rightarrow> Some 0 } }"

section \<open>Memory blocks\<close>

definition valid_numa_range :: "u32 \<Rightarrow> u32 \<Rightarrow> u32 \<Rightarrow> srat \<Rightarrow> int option" where
  "valid_numa_range start end node s = do {
     r \<leftarrow> search (\<lambda>i. do {
         nd \<leftarrow> at (node_memblk_range s) i;
         id \<leftarrow> at (memblk_nodeid s) i;
         Some (nd_start nd \<le> start \<and> nd_end nd \<ge> end \<and> id = node) })
       0 (nat (num_node_memblks s));
     case r of Some i \<Rightarrow> Some 1 | None \<Rightarrow> Some 0 }"

definition block_conflicts :: "node \<Rightarrow> u32 \<Rightarrow> u32 \<Rightarrow> bool" where
  "block_conflicts nd start end =
     (if nd_start nd = nd_end nd then False
      else if nd_end nd > start \<and> nd_start nd < end then True
      else nd_end nd = end \<and> nd_start nd = start)"

definition conflicting_memblks :: "u32 \<Rightarrow> u32 \<Rightarrow> srat \<Rightarrow> int option" where
  "conflicting_memblks start end s = do {
     r \<leftarrow> search (\<lambda>i. do {
         nd \<leftarrow> at (node_memblk_range s) i;
         Some (block_conflicts nd start end) })
       0 (nat (num_node_memblks s));
     case r of Some i \<Rightarrow> Some (int i) | None \<Rightarrow> Some (- 1) }"

definition cutoff_node :: "u32 \<Rightarrow> u32 \<Rightarrow> node \<Rightarrow> node" where
  "cutoff_node start end nd =
     (let nd = (if nd_start nd < start
                then let nd = nd\<lparr>nd_start := start\<rparr>
                     in if nd_end nd < nd_start nd then nd\<lparr>nd_start := nd_end nd\<rparr> else nd
                else nd)
      in if nd_end nd > end
         then let nd = nd\<lparr>nd_end := end\<rparr>
              in if nd_start nd > nd_end nd then nd\<lparr>nd_start := nd_end nd\<rparr> else nd
         else nd)"

text \<open>The \<open>mem_hotplug\<close> it clears is a local variable that hides the file's.\<close>

definition bad_srat :: "srat \<Rightarrow> srat option" where
  "bad_srat s = do {
     let s = s\<lparr>acpi_numa := - 1\<rparr>;
     a \<leftarrow> for_loop (\<lambda>i a. upd a i NUMA_NO_NODE) 0 256 (apicid_to_node s);
     t \<leftarrow> for_loop (\<lambda>i t. do {
         e \<leftarrow> at t i;
         upd t i (e\<lparr>pm_node := NUMA_NO_NODE\<rparr>) }) 0 sizeof_pxm2node (pxm2node s);
     Some (s\<lparr>apicid_to_node := a, pxm2node := t\<rparr>) }"

section \<open>The SLIT\<close>

text \<open>\<open>entry\<close> is declared with one element and used as the table that follows the structure.\<close>

definition slit_cell_bad :: "slit \<Rightarrow> nat \<Rightarrow> nat \<Rightarrow> bool option" where
  "slit_cell_bad sl i j = do {
     val \<leftarrow> at (slit_entry sl) (unat (locality_count sl * of_nat i + of_nat j));
     Some (if i = j then val \<noteq> 10 else val \<le> 10) }"

definition slit_valid :: "slit \<Rightarrow> int option" where
  "slit_valid sl = do {
     let d = unat (locality_count sl);
     r \<leftarrow> search (\<lambda>i. do {
         r \<leftarrow> search (slit_cell_bad sl i) 0 d;
         Some (r \<noteq> None) }) 0 d;
     case r of Some i \<Rightarrow> Some 0 | None \<Rightarrow> Some 1 }"

text \<open>
  The allocator and the address conversions are declared only. The final \<open>memcpy\<close> takes the
  global by value, so it writes nothing here.
\<close>

definition acpi_numa_slit_init ::
    "(nat \<Rightarrow> nat) \<Rightarrow> (nat \<Rightarrow> nat \<Rightarrow> nat) \<Rightarrow> (nat \<Rightarrow> nat) \<Rightarrow> (nat \<Rightarrow> slit) \<Rightarrow> slit \<Rightarrow> srat \<Rightarrow> srat" where
  "acpi_numa_slit_init PFN_UP alloc_boot_pages mfn_x mfn_to_virt sl s =
     (let mfn = alloc_boot_pages (PFN_UP sizeof_header) 1
      in s\<lparr>acpi_slit := mfn_to_virt (mfn_x mfn)\<rparr>)"

text \<open>\<open>index\<close> is a local variable that is read uninitialised.\<close>

definition node_distance :: "u32 \<Rightarrow> u32 \<Rightarrow> u32 \<Rightarrow> srat \<Rightarrow> u32 option" where
  "node_distance index a b s =
     (if \<not> slit_ok (acpi_slit s) then Some (if a = b then 10 else 20)
      else do {
        pxm \<leftarrow> node_to_pxm (pxm2node s) b;
        slit_val \<leftarrow> at (slit_entry (acpi_slit s)) (unat (index + pxm));
        Some (if slit_val = 0xff \<or> slit_val \<le> 9 then 0 else slit_val) })"

section \<open>The affinity callbacks\<close>

text \<open>\<open>srat_disabled\<close> is declared only.\<close>

definition acpi_numa_x2apic_affinity_init ::
    "(srat \<Rightarrow> bool) \<Rightarrow> x2apic_affinity \<Rightarrow> srat \<Rightarrow> srat option" where
  "acpi_numa_x2apic_affinity_init srat_disabled pa s =
     (if srat_disabled s then Some s
      else if sizeof_header < sizeof_x2apic_affinity then bad_srat s
      else if xa_flags pa AND 1 = 0 then Some s
      else if xa_apic_id pa \<ge> int MAX_LOCAL_APIC then Some s
      else do {
        (node, s) \<leftarrow> setup_node (xa_pxm pa) s;
        if node = NUMA_NO_NODE then bad_srat s
        else if xa_apic_id pa < 0 then None
        else do {
          a \<leftarrow> upd (apicid_to_node s) (nat (xa_apic_id pa)) node;
          Some (s\<lparr>apicid_to_node := a, acpi_numa := 1\<rparr>) } })"

text \<open>The flag test is \<open>&&\<close> where the other callbacks have \<open>&\<close>.\<close>

definition acpi_numa_processor_affinity_init ::
    "(srat \<Rightarrow> bool) \<Rightarrow> cpu_affinity \<Rightarrow> srat \<Rightarrow> srat option" where
  "acpi_numa_processor_affinity_init srat_disabled pa s =
     (if srat_disabled s then Some s
      else if sizeof_header \<noteq> sizeof_cpu_affinity then bad_srat s
      else if \<not> c_true (ca_flags pa) then Some s
      else do {
        hi0 \<leftarrow> at (ca_pxm_hi pa) 0;
        hi1 \<leftarrow> at (ca_pxm_hi pa) 1;
        hi2 \<leftarrow> at (ca_pxm_hi pa) 2;
        let p = (if srat_rev s \<ge> 2
          then ca_pxm_lo pa OR push_bit 8 hi0 OR push_bit 16 hi1 OR push_bit 24 hi2
          else ca_pxm_lo pa);
        (node, s) \<leftarrow> setup_node p s;
        if node = NUMA_NO_NODE then bad_srat s
        else if ca_apic_id pa < 0 then None
        else do {
          a \<leftarrow> upd (apicid_to_node s) (nat (ca_apic_id pa)) node;
          Some (s\<lparr>apicid_to_node := a, acpi_numa := 1\<rparr>) } })"

text \<open>
  \<open>test_bit\<close> and \<open>node_test_and_set\<close> are declared only; \<open>hp\<close> is the local \<open>memblk_hotplug\<close>, read
  uninitialised, and \<open>parsed\<close> the file's \<open>memory_nodes_parsed\<close>, passed by value. The index \<open>i\<close> of a
  conflicting block is used without a test for -1.
\<close>

definition acpi_numa_memory_affinity_init ::
    "(srat \<Rightarrow> bool) \<Rightarrow> (int \<Rightarrow> int \<Rightarrow> bool) \<Rightarrow> int \<Rightarrow> (u32 \<Rightarrow> u32 \<Rightarrow> bool) \<Rightarrow> u32 \<Rightarrow>
     mem_affinity \<Rightarrow> srat \<Rightarrow> srat option" where
  "acpi_numa_memory_affinity_init srat_disabled test_bit hp node_test_and_set parsed ma s =
     (if srat_disabled s then Some s
      else if sizeof_header \<noteq> sizeof_mem_affinity then bad_srat s
      else if ma_flags ma AND 1 = 0 then Some s
      else
        let start = ma_base ma; end = start + ma_length ma in
        if num_node_memblks s \<ge> int NR_NODE_MEMBLKS then bad_srat s
        else
          let p = (if srat_rev s < 2 then ma_pxm ma AND 0xff else ma_pxm ma) in do {
          (node, s) \<leftarrow> setup_node p s;
          if node = NUMA_NO_NODE then bad_srat s
          else do {
            i \<leftarrow> conflicting_memblks start end s;
            id \<leftarrow> (if i < 0 then None else at (memblk_nodeid s) (nat i));
            let pluggable = (ma_flags ma AND 1 \<noteq> 0);
            if id = node \<and> (\<not> pluggable) \<noteq> (\<not> test_bit i hp) then bad_srat s
            else if id \<noteq> node then bad_srat s
            else do {
              s \<leftarrow> (if \<not> pluggable then do {
                  nd \<leftarrow> at (nodes s) (unat node);
                  let nd = (if \<not> node_test_and_set node parsed
                    then nd\<lparr>nd_start := start, nd_end := end\<rparr>
                    else let nd = (if start < nd_start nd then nd\<lparr>nd_start := start\<rparr> else nd)
                         in if nd_end nd < end then nd\<lparr>nd_end := end\<rparr> else nd);
                  ns \<leftarrow> upd (nodes s) (unat node) nd;
                  Some (s\<lparr>nodes := ns\<rparr>) }
                else Some s);
              if num_node_memblks s < 0 then None
              else do {
                rs \<leftarrow> upd (node_memblk_range s) (nat (num_node_memblks s)) \<lparr>nd_start = start, nd_end = end\<rparr>;
                ids \<leftarrow> upd (memblk_nodeid s) (nat (num_node_memblks s)) node;
                let s = s\<lparr>node_memblk_range := rs, memblk_nodeid := ids\<rparr>;
                let s = (if pluggable \<and> end > mem_hotplug s then s\<lparr>mem_hotplug := end\<rparr> else s);
                Some (s\<lparr>num_node_memblks := num_node_memblks s + 1\<rparr>) } } } })"

section \<open>The nodes cover the memory\<close>

text \<open>
  The body of the loop over the nodes: cut what this node covers off the low end and off the high
  end of the range still to be covered. The loop is bounded by a local \<open>memory_nodes_parsed\<close> that
  is read uninitialised: the parameter \<open>n\<close>.
\<close>

definition trim_node :: "node \<Rightarrow> u64 \<times> u64 \<times> bool \<Rightarrow> u64 \<times> u64 \<times> bool" where
  "trim_node nd = (\<lambda>(start, end, found).
     if start < ucast (nd_end nd) \<and> end > ucast (nd_start nd) then
       let (start, found) =
             (if start \<ge> ucast (nd_start nd) then (ucast (nd_end nd), True) else (start, found))
       in if end \<le> ucast (nd_end nd) then (start, ucast (nd_start nd), True) else (start, end, found)
     else (start, end, found))"

definition trim_pass :: "node list \<Rightarrow> int \<Rightarrow> u64 \<Rightarrow> u64 \<Rightarrow> (u64 \<times> u64 \<times> bool) option" where
  "trim_pass ns n start end =
     for_loop (\<lambda>j st. do {
       nd \<leftarrow> at ns j;
       Some (trim_node nd st) }) 0 (nat n) (start, end, False)"

text \<open>A pass that found something leaves strictly less between \<open>start\<close> and \<open>end\<close>.\<close>

definition gap :: "u64 \<times> u64 \<times> bool \<Rightarrow> int" where
  "gap = (\<lambda>(start, end, found). uint end - uint start)"

lemma trim_node_gap:
  "gap (trim_node nd st) \<le> gap st \<and>
   (snd (snd (trim_node nd st)) \<longrightarrow> snd (snd st) \<or> gap (trim_node nd st) < gap st)"
  by (cases st) (auto simp: trim_node_def gap_def word_less_def word_le_def Let_def)

lemma trim_pass_gap:
  assumes "trim_pass ns n start end = Some (start', end', True)"
  shows "uint end' - uint start' < uint end - uint start"
proof -
  let ?I = "\<lambda>st. gap st \<le> gap (start, end, False) \<and>
    (snd (snd st) \<longrightarrow> gap st < gap (start, end, False))"
  have step: "?I (trim_node nd st)" if "?I st" for nd st
    using trim_node_gap [of nd st] that by (cases "snd (snd (trim_node nd st))") auto
  have "?I (start', end', True)"
  proof (rule for_loop_preserves [OF assms [unfolded trim_pass_def], of ?I])
    show "?I (start, end, False)" by simp
    show "?I st'" if "?I st" "(do { nd \<leftarrow> at ns j; Some (trim_node nd st) }) = Some st'" for j st st'
      using step [OF that(1)] that(2) by (auto simp: bind_eq_Some_conv)
  qed
  then show ?thesis by (simp add: gap_def)
qed

function cover_loop :: "node list \<Rightarrow> int \<Rightarrow> u64 \<Rightarrow> u64 \<Rightarrow> (u64 \<times> u64) option" where
  "cover_loop ns n start end = do {
     (start', end', found) \<leftarrow> trim_pass ns n start end;
     if found \<and> start' < end' then cover_loop ns n start' end'
     else Some (start', end') }"
  by auto
termination
  by (relation "measure (\<lambda>(ns, n, start, end). nat (uint end - uint start))")
    (auto simp: word_less_def dest: trim_pass_gap)

declare cover_loop.simps [simp del]

record e820map =
  nr_map :: int
  e820_entries :: "e820_map list"

definition nodes_cover_memory :: "node list \<Rightarrow> int \<Rightarrow> e820map \<Rightarrow> int option" where
  "nodes_cover_memory ns n e820 = do {
     r \<leftarrow> search (\<lambda>i. do {
         m \<leftarrow> at (e820_entries e820) i;
         if \<not> is_ram m then Some False
         else do {
           (start, end) \<leftarrow> cover_loop ns n (map_addr m) (map_addr m + map_size m);
           Some (start < end) } })
       0 (nat (nr_map e820));
     case r of Some i \<Rightarrow> Some 0 | None \<Rightarrow> Some 1 }"

section \<open>Regions\<close>

text \<open>
  \<open>ma\<close> is a local pointer that is read uninitialised: the structure it happens to point to. The
  function ends without a value when the last condition fails.
\<close>

definition srat_parse_region :: "bool \<Rightarrow> mem_affinity \<Rightarrow> addr \<Rightarrow> int option" where
  "srat_parse_region numa_off ma header =
     (if header = NULL then Some (- EINVAL)
      else if ma_length ma = 0 \<or> ma_flags ma AND 1 = 0 \<or> ma_flags ma AND 1 \<noteq> 0 then Some 0
      else if numa_off then Some 0
      else None)"

text \<open>
  \<open>acpi_disabled\<close>, \<open>acpi_table_parse\<close>, \<open>pdx_init_mask\<close> and \<open>pdx_region_mask\<close> are declared only; the
  local \<open>acpi_numa\<close> is a pointer, never below zero. The result is the argument of
  \<open>pfn_pdx_hole_setup\<close>, \<open>None\<close> inside when it is not called.
\<close>

function region_mask_loop ::
    "(u64 \<Rightarrow> u64 \<Rightarrow> bool) \<Rightarrow> e820_map list \<Rightarrow> u32 \<Rightarrow> nat \<Rightarrow> nat \<Rightarrow> u32 option" where
  "region_mask_loop pdx_region_mask ms msk i len =
     (if c_true msk \<and> i < len then do {
        m \<leftarrow> at ms i;
        let msk = (if \<not> is_ram m then msk
          else if NOT msk AND of_bool_w (pdx_region_mask (map_addr m) (map_size m)) \<noteq> 0 then 0
          else msk);
        region_mask_loop pdx_region_mask ms msk (Suc i) len }
      else Some msk)"
  by auto
termination by (relation "measure (\<lambda>(r, ms, msk, i, len). len - i)") auto

declare region_mask_loop.simps [simp del]

definition srat_parse_regions ::
    "bool \<Rightarrow> bool \<Rightarrow> (u32 \<Rightarrow> u32) \<Rightarrow> (u64 \<Rightarrow> u64 \<Rightarrow> bool) \<Rightarrow> e820map \<Rightarrow> u32 \<Rightarrow> u32 option option" where
  "srat_parse_regions acpi_disabled table_parse pdx_init_mask pdx_region_mask e820 addr =
     (if acpi_disabled \<or> table_parse then Some None
      else do {
        msk \<leftarrow> region_mask_loop pdx_region_mask (e820_entries e820) (pdx_init_mask addr) 0
          (unat (word_of_int (nr_map e820) :: u32));
        Some (Some (drop_bit 13 msk)) })"

section \<open>Registering the nodes\<close>

text \<open>The calls \<open>acpi_scan_nodes\<close> makes into code that is declared only.\<close>

datatype scan_call =
    Setup_node_bootmem nat u32 u32
  | Numa_set_node nat u32
  | Numa_init_array

text \<open>
  Parameters: the bound of \<open>nodes_cover_memory\<close>, the locals \<open>all_nodes_parsed\<close>, \<open>nr_cpu_ids\<close> and
  \<open>cpu_to_node\<close> that are read uninitialised, and \<open>node_isset\<close> at \<open>processor_nodes_parsed\<close>. The test
  of the unsigned \<open>memnode_shift\<close> for a negative value never holds. With the message commented out,
  the condition \<open>size == 0\<close> guards the call of \<open>setup_node_bootmem\<close>.
\<close>

definition acpi_scan_nodes ::
    "int \<Rightarrow> int \<Rightarrow> int \<Rightarrow> u32 list \<Rightarrow> (u32 \<Rightarrow> bool) \<Rightarrow> e820map \<Rightarrow> u32 \<Rightarrow> u32 \<Rightarrow> srat \<Rightarrow>
     (int \<times> srat \<times> scan_call list) option" where
  "acpi_scan_nodes n all_nodes nr_cpu_ids cpu_to_node node_isset e820 start end s = do {
     ns \<leftarrow> for_loop (\<lambda>i ns. do {
         nd \<leftarrow> at ns i;
         upd ns i (cutoff_node start end nd) }) 0 MAX_NUMNODES (nodes s);
     let s = s\<lparr>nodes := ns\<rparr>;
     if acpi_numa s \<le> 0 then Some (- 1, s, [])
     else do {
       covered \<leftarrow> nodes_cover_memory (nodes s) n e820;
       if covered = 0 then do {
         s \<leftarrow> bad_srat s;
         Some (- 1, s, []) }
       else do {
         calls \<leftarrow> for_loop (\<lambda>i calls. do {
             nd \<leftarrow> at (nodes s) i;
             Some (if nd_end nd - nd_start nd = 0
               then calls @ [Setup_node_bootmem i (nd_start nd) (nd_end nd)] else calls) })
           0 (nat all_nodes) [];
         calls \<leftarrow> for_loop (\<lambda>i calls. do {
             node \<leftarrow> at cpu_to_node i;
             Some (if node = NUMA_NO_NODE then calls
               else if \<not> node_isset node then calls @ [Numa_set_node i NUMA_NO_NODE]
               else calls) })
           0 (nat nr_cpu_ids) calls;
         Some (0, s, calls @ [Numa_init_array]) } } }"

section \<open>The SLIT\<close>

text \<open>
  On a table whose \<open>d * d\<close> entries exist, \<open>slit_valid\<close> accepts exactly the tables with 10 on the
  diagonal and more than 10 elsewhere. The callback that installs a table does not ask it.
\<close>

theorem slit_valid_correct:
  assumes "d = unat (locality_count sl)" "d * d \<le> length (slit_entry sl)" "d * d < 2 ^ 32"
  shows "slit_valid sl = Some (if \<forall>i < d. \<forall>j < d. if i = j then slit_entry sl ! (d * i + j) = 10
      else 10 < slit_entry sl ! (d * i + j) then 1 else 0) \<and>
    acpi_slit (acpi_numa_slit_init PFN_UP alloc mfn_x mfn_to_virt sl s) =
      mfn_to_virt (mfn_x (alloc (PFN_UP sizeof_header) 1))"
proof
  have cell: "slit_cell_bad sl i j = Some (if i = j then slit_entry sl ! (d * i + j) \<noteq> 10
      else slit_entry sl ! (d * i + j) \<le> 10)" if "i < d" "j < d" for i j
  proof -
    have "d * i + j < d * d"
      using that by (metis add.commute add_less_cancel_right less_le_trans mult.commute mult_Suc mult_le_mono1 Suc_leI)
    moreover have "locality_count sl * of_nat i + of_nat j = of_nat (d * i + j)"
      using assms(1) by simp
    moreover from calculation have "unat (locality_count sl * of_nat i + of_nat j) = d * i + j"
      using assms(3) by (simp only: unat_of_nat take_bit_nat_eq_self_iff) (simp add: take_bit_nat_eq_self)
    ultimately show ?thesis using assms(2) by (simp add: slit_cell_bad_def array_simps)
  qed
  let ?bad = "\<lambda>i j. if i = j then slit_entry sl ! (d * i + j) \<noteq> 10 else slit_entry sl ! (d * i + j) \<le> 10"
  have row: "search (slit_cell_bad sl i) 0 d = Some (find (?bad i) [0..<d])" if "i < d" for i
    using cell [OF that] by (intro search_find) simp
  have "search (\<lambda>i. do { r \<leftarrow> search (slit_cell_bad sl i) 0 d; Some (r \<noteq> None) }) 0 d =
      Some (find (\<lambda>i. find (?bad i) [0..<d] \<noteq> None) [0..<d])"
    using row by (intro search_find) simp
  moreover have "find (\<lambda>i. find (?bad i) [0..<d] \<noteq> None) [0..<d] = None \<longleftrightarrow>
      (\<forall>i < d. \<forall>j < d. if i = j then slit_entry sl ! (d * i + j) = 10
        else 10 < slit_entry sl ! (d * i + j))"
    by (auto simp: find_upt_None not_le)
  ultimately show "slit_valid sl = Some (if \<forall>i < d. \<forall>j < d. if i = j then slit_entry sl ! (d * i + j) = 10
      else 10 < slit_entry sl ! (d * i + j) then 1 else 0)"
    unfolding slit_valid_def assms(1) [symmetric] Let_def
    by (simp only: Option.bind.simps case_option_if if_distrib [of Some])
qed (simp add: acpi_numa_slit_init_def Let_def)

theorem slit_valid_correct_witness:
  "slit_valid \<lparr>slit_entry = [10, 20, 20, 10], slit_ok = True, slit_header = 0, locality_count = 2\<rparr> \<noteq> None"
  using slit_valid_correct [of 2 "\<lparr>slit_entry = [10, 20, 20, 10], slit_ok = True, slit_header = 0, locality_count = 2\<rparr>"]
  by simp

text \<open>
  Without a SLIT the distance of a node from itself is 10 and of two nodes 20. With one, a distance is
  never one of the values the comment excludes, but it does not depend on the first node: the row
  index is read uninitialised.
\<close>

theorem node_distance_ignores_row:
  "(\<not> slit_ok (acpi_slit s) \<longrightarrow> node_distance index a b s = Some (if a = b then 10 else 20)) \<and>
   (slit_ok (acpi_slit s) \<longrightarrow> node_distance index a b s = node_distance index a' b s) \<and>
   (node_distance index a b s = Some r \<longrightarrow> r = 0 \<or> 10 \<le> r \<and> r \<noteq> 0xff)"
proof (cases "slit_ok (acpi_slit s)")
  case True
  have "10 \<le> r" if "\<not> r \<le> 9" for r :: u32
    using that by (simp add: word_le_nat_alt)
  with True show ?thesis by (auto simp: node_distance_def bind_eq_Some_conv split: if_splits)
qed (auto simp: node_distance_def)

end
