(* ===== verification/Srat_Cover.thy ===== *)
theory Srat_Cover
  imports Srat
begin

text \<open>
  What the address ranges of the nodes cover, for srat_verified.c: the blocks of a node, the trimming
  loop of \<open>nodes_cover_memory\<close> and its passes, and what the checks on ranges decide.
\<close>

section \<open>What the node ranges cover\<close>

text \<open>The addresses of a range, of a node, and of the first \<open>n\<close> nodes.\<close>

definition range_of :: "u64 \<Rightarrow> u64 \<Rightarrow> u64 set" where
  "range_of start end = {a. start \<le> a \<and> a < end}"

definition node_range :: "node \<Rightarrow> u64 set" where
  "node_range nd = range_of (ucast (nd_start nd)) (ucast (nd_end nd))"

definition nodes_range :: "node list \<Rightarrow> nat \<Rightarrow> u64 set" where
  "nodes_range ns n = (\<Union>nd\<in>set (take n ns). node_range nd)"

text \<open>What is left to cover, together with what is covered, never shrinks.\<close>

lemma trim_node_covers:
  assumes "trim_node nd (start, end, found) = (start', end', found')"
  shows "range_of start end \<subseteq> range_of start' end' \<union> node_range nd"
    and "range_of start' end' \<subseteq> range_of start end"
  using assms
  by (auto simp: trim_node_def range_of_def node_range_def Let_def not_less split: if_splits)

text \<open>A pass that found nothing changed nothing, and no node covers the low end.\<close>

lemma trim_node_nothing:
  "trim_node nd (start, end, False) = (start', end', False) \<Longrightarrow>
   start' = start \<and> end' = end \<and> (start < end \<longrightarrow> start \<notin> node_range nd)"
  by (auto simp: trim_node_def range_of_def node_range_def Let_def not_less split: if_splits)

lemma trim_node_found: "trim_node nd (start, end, True) = (start', end', f) \<Longrightarrow> f"
  by (auto simp: trim_node_def Let_def split: if_splits)

lemma nodes_range_Suc:
  "j < length ns \<Longrightarrow> nodes_range ns (Suc j) = nodes_range ns j \<union> node_range (ns ! j)"
  by (auto simp: nodes_range_def take_Suc_conv_app_nth)

lemma trim_pass_ok:
  assumes "nat n \<le> length ns"
  obtains start' end' found where "trim_pass ns n start end = Some (start', end', found)"
    and "range_of start end \<subseteq> range_of start' end' \<union> nodes_range ns (nat n)"
    and "range_of start' end' \<subseteq> range_of start end"
    and "\<not> found \<Longrightarrow> start' = start \<and> end' = end \<and>
      (start < end \<longrightarrow> start \<notin> nodes_range ns (nat n))"
proof -
  let ?I = "\<lambda>j (s, e, f). range_of start end \<subseteq> range_of s e \<union> nodes_range ns j \<and>
    range_of s e \<subseteq> range_of start end \<and>
    (\<not> f \<longrightarrow> s = start \<and> e = end \<and> (start < end \<longrightarrow> start \<notin> nodes_range ns j))"
  have "\<exists>st. trim_pass ns n start end = Some st \<and> ?I (nat n) st"
    unfolding trim_pass_def
  proof (rule for_loop_rule [where I = ?I], goal_cases)
    case 1
    show ?case by (simp add: nodes_range_def)
  next
    case 2
    show ?case by simp
  next
    case (3 j st)
    obtain s e f where st: "st = (s, e, f)" by (cases st)
    obtain s' e' f' where t: "trim_node (ns ! j) (s, e, f) = (s', e', f')"
      by (cases "trim_node (ns ! j) (s, e, f)")
    have j: "j < length ns" using 3 assms by simp
    have "?I (Suc j) (s', e', f')"
      using 3 trim_node_covers [OF t] trim_node_nothing [of "ns ! j" s e s' e'] t
        trim_node_found [of "ns ! j" s e s' e' f']
      by (cases f; cases f') (auto simp: st nodes_range_Suc [OF j])
    then show ?case using j t by (simp add: st array_simps)
  qed
  then show thesis using that by (auto simp: split_def)
qed

text \<open>
  The loop ends with a range that is empty exactly when the nodes cover the range it started
  with.
\<close>

lemma cover_loop_ok:
  assumes "nat n \<le> length ns"
  shows "\<exists>start' end'. cover_loop ns n start end = Some (start', end') \<and>
    (start' < end' \<longleftrightarrow> \<not> range_of start end \<subseteq> nodes_range ns (nat n))"
  using assms
proof (induction ns n start "end" rule: cover_loop.induct)
  case (1 ns n start "end")
  obtain s e f where p: "trim_pass ns n start end = Some (s, e, f)"
    and sub: "range_of start end \<subseteq> range_of s e \<union> nodes_range ns (nat n)"
      "range_of s e \<subseteq> range_of start end"
    and nf: "\<not> f \<Longrightarrow> s = start \<and> e = end \<and> (start < end \<longrightarrow> start \<notin> nodes_range ns (nat n))"
    using trim_pass_ok [OF 1(2)] by metis
  have empty: "range_of x y = {} \<longleftrightarrow> \<not> x < y" for x y
    by (auto simp: range_of_def intro: order.strict_trans1)
  show ?case
  proof (cases "f \<and> s < e")
    case True
    then have "cover_loop ns n start end = cover_loop ns n s e"
      using p by (subst cover_loop.simps) simp
    moreover have "range_of start end \<subseteq> nodes_range ns (nat n) \<longleftrightarrow> range_of s e \<subseteq> nodes_range ns (nat n)"
      using sub by auto
    ultimately show ?thesis using 1(1) [OF p refl refl True 1(2)] by simp
  next
    case False
    then have "cover_loop ns n start end = Some (s, e)"
      using p by (subst cover_loop.simps) auto
    moreover have "s < e \<longleftrightarrow> \<not> range_of start end \<subseteq> nodes_range ns (nat n)"
    proof (cases f)
      case True
      with False have "range_of s e = {}" using empty by blast
      then show ?thesis using sub False True by auto
    next
      case f: False
      have "start \<in> range_of start end" if "start < end" using that by (simp add: range_of_def)
      then show ?thesis using nf [OF f] empty [of start "end"] by auto
    qed
    ultimately show ?thesis by simp
  qed
qed

lemma entry_uncovered:
  assumes "cover_loop ns n (map_addr m) (map_addr m + map_size m) = Some (a, b)" "at ms i = Some m"
    and "a < b \<longleftrightarrow> \<not> range_of (map_addr m) (map_addr m + map_size m) \<subseteq> nodes_range ns k"
  shows "do {
         m \<leftarrow> at ms i;
         if \<not> is_ram m then Some False
         else do {
           (start, end) \<leftarrow> cover_loop ns n (map_addr m) (map_addr m + map_size m);
           Some (start < end) } } =
    Some (\<not> (is_ram m \<longrightarrow> range_of (map_addr m) (map_addr m + map_size m) \<subseteq> nodes_range ns k))"
  using assms
  by (simp only: Option.bind.simps prod.case if_True if_False split: if_split) simp

lemma block_conflicts_range:
  assumes "start < end" "nd_start nd \<le> nd_end nd"
  shows "block_conflicts nd start end \<longleftrightarrow> node_range nd \<inter> range_of (ucast start) (ucast end) \<noteq> {}"
proof -
  have "node_range nd \<inter> range_of (ucast start) (ucast end) \<noteq> {} \<longleftrightarrow>
      max (ucast (nd_start nd)) (ucast start) < (min (ucast (nd_end nd)) (ucast end) :: u64)"
  proof -
    have "range_of x y \<inter> range_of u v = range_of (max x u) (min y v)" for x y u v
      by (auto simp: range_of_def)
    moreover have "range_of x y \<noteq> {} \<longleftrightarrow> x < y" for x y
      by (auto simp: range_of_def intro: order.strict_trans1)
    ultimately show ?thesis by (simp only: node_range_def)
  qed
  also have "\<dots> \<longleftrightarrow> block_conflicts nd start end"
    using assms by (auto simp: block_conflicts_def max_def min_def word_uint_eq_iff number_simps)
  finally show ?thesis by simp
qed

lemma nodes_cover_memory_ok:
  assumes "nat n \<le> length ns" "nat (nr_map e820) \<le> length (e820_entries e820)"
  shows "nodes_cover_memory ns n e820 = Some (if \<forall>m \<in> set (take (nat (nr_map e820)) (e820_entries e820)).
    is_ram m \<longrightarrow> range_of (map_addr m) (map_addr m + map_size m) \<subseteq> nodes_range ns (nat n)
    then 1 else 0)"
proof -
  let ?N = "nat (nr_map e820)" and ?ms = "e820_entries e820"
  let ?ok = "\<lambda>m. is_ram m \<longrightarrow> range_of (map_addr m) (map_addr m + map_size m) \<subseteq> nodes_range ns (nat n)"
  have "nodes_cover_memory ns n e820 = Some (case find (\<lambda>i. \<not> ?ok (?ms ! i)) [0..<?N] of
      Some i \<Rightarrow> 0 | None \<Rightarrow> 1)"
    unfolding nodes_cover_memory_def
  proof (subst search_find)
    fix j assume "j < ?N"
    then have "at ?ms j = Some (?ms ! j)" using assms(2) by (simp add: at_def)
    moreover obtain a b where
      "cover_loop ns n (map_addr (?ms ! j)) (map_addr (?ms ! j) + map_size (?ms ! j)) = Some (a, b)"
      "a < b \<longleftrightarrow> \<not> range_of (map_addr (?ms ! j)) (map_addr (?ms ! j) + map_size (?ms ! j))
        \<subseteq> nodes_range ns (nat n)"
      using cover_loop_ok [OF assms(1)] by blast
    ultimately show "do {
         m \<leftarrow> at ?ms j;
         if \<not> is_ram m then Some False
         else do {
           (start, end) \<leftarrow> cover_loop ns n (map_addr m) (map_addr m + map_size m);
           Some (start < end) } } = Some (\<not> ?ok (?ms ! j))"
      by (intro entry_uncovered)
  qed (simp split: option.split)
  moreover have "find (\<lambda>i. \<not> ?ok (?ms ! i)) [0..<?N] = None \<longleftrightarrow> (\<forall>m \<in> set (take ?N ?ms). ?ok m)"
    using assms(2) by (auto simp: find_upt_None all_set_conv_all_nth)
  ultimately show ?thesis by (simp only: case_option_if)
qed

section \<open>What the checks decide\<close>

text \<open>
  C1. \<open>nodes_cover_memory\<close> always returns, without reading outside the node array when its bound
  is inside it, and returns 1 exactly when every address of every RAM entry of the memory map lies
  in one of the nodes.
\<close>

theorem nodes_cover_memory_correct:
  assumes "nat n \<le> length ns" "nat (nr_map e820) \<le> length (e820_entries e820)"
  shows "nodes_cover_memory ns n e820 = Some (if \<forall>m \<in> set (take (nat (nr_map e820)) (e820_entries e820)).
    is_ram m \<longrightarrow> range_of (map_addr m) (map_addr m + map_size m) \<subseteq> nodes_range ns (nat n)
    then 1 else 0)"
  using assms by (rule nodes_cover_memory_ok)

theorem nodes_cover_memory_correct_witness:
  "nodes_cover_memory [\<lparr>nd_start = 0, nd_end = 8\<rparr>] 1
     \<lparr>nr_map = 1, e820_entries = [\<lparr>is_ram = True, map_addr = 6, map_size = 1\<rparr>]\<rparr> \<noteq> None"
  using nodes_cover_memory_correct [of 1 "[\<lparr>nd_start = 0, nd_end = 8\<rparr>]"
      "\<lparr>nr_map = 1, e820_entries = [\<lparr>is_ram = True, map_addr = 6, map_size = 1\<rparr>]\<rparr>"]
  by simp

text \<open>
  \<open>cutoff_node\<close> intersects a node with the window, and leaves it well-formed.
\<close>

theorem cutoff_node_intersects:
  assumes "nd_start nd \<le> nd_end nd" "start \<le> end"
  shows "node_range (cutoff_node start end nd) = node_range nd \<inter> range_of (ucast start) (ucast end) \<and>
    nd_start (cutoff_node start end nd) \<le> nd_end (cutoff_node start end nd)"
  using assms
  by (auto simp: cutoff_node_def node_range_def range_of_def Let_def number_simps)

theorem cutoff_node_intersects_witness:
  "node_range (cutoff_node 4 6 \<lparr>nd_start = 0, nd_end = 5\<rparr>) =
   node_range \<lparr>nd_start = 0, nd_end = 5\<rparr> \<inter> range_of 4 6"
  using cutoff_node_intersects [of "\<lparr>nd_start = 0, nd_end = 5\<rparr>" 4 6] by simp

text \<open>
  \<open>conflicting_memblks\<close> returns the first recorded block that shares an address with the new
  non-empty one, and -1 when there is none.
\<close>

theorem conflicting_memblks_first:
  assumes "nat (num_node_memblks s) \<le> length (node_memblk_range s)" "start < end"
    and "\<forall>nd \<in> set (node_memblk_range s). nd_start nd \<le> nd_end nd"
  shows "conflicting_memblks start end s = Some (case find
      (\<lambda>i. node_range (node_memblk_range s ! i) \<inter> range_of (ucast start) (ucast end) \<noteq> {})
      [0..<nat (num_node_memblks s)] of Some i \<Rightarrow> int i | None \<Rightarrow> - 1)"
proof -
  let ?rs = "node_memblk_range s"
  have "block_conflicts (?rs ! i) start end \<longleftrightarrow>
      node_range (?rs ! i) \<inter> range_of (ucast start) (ucast end) \<noteq> {}"
    if "i < nat (num_node_memblks s)" for i
    using that assms block_conflicts_range [OF assms(2)] by (metis nth_mem order.strict_trans2)
  then show ?thesis
    unfolding conflicting_memblks_def
    by (subst search_find [where Q = "\<lambda>i. node_range (?rs ! i) \<inter> range_of (ucast start) (ucast end) \<noteq> {}"])
      (use assms(1) in \<open>auto simp: array_simps split: option.split\<close>)
qed

theorem conflicting_memblks_first_witness:
  "conflicting_memblks 2 4 (srat_boot\<lparr>num_node_memblks := 1,
     node_memblk_range := [\<lparr>nd_start = 3, nd_end = 9\<rparr>]\<rparr>) \<noteq> None"
  using conflicting_memblks_first [of "srat_boot\<lparr>num_node_memblks := 1,
     node_memblk_range := [\<lparr>nd_start = 3, nd_end = 9\<rparr>]\<rparr>" 2 4] by simp

end
