(* ===== verification/Srat_Domains.thy ===== *)
theory Srat_Domains
  imports Srat
begin

text \<open>
  The table of proximity domains of srat_verified.c: its invariant, which \<open>setup_node\<close> preserves, and
  the lookups in both directions.
\<close>

section \<open>The table of proximity domains\<close>

text \<open>
  The invariant of the table: it has its declared size, and the nodes of the used slots are
  pairwise different and numbers already handed out. A table is indexed when every used slot
  stands at its own domain.
\<close>

definition used :: "pxm2node list \<Rightarrow> nat set" where
  "used t = {i. i < length t \<and> pm_node (t ! i) \<noteq> NUMA_NO_NODE}"

definition table_ok :: "srat \<Rightarrow> bool" where
  "table_ok s \<longleftrightarrow> length (pxm2node s) = MAX_NUMNODES \<and>
     inj_on (\<lambda>i. pm_node (pxm2node s ! i)) (used (pxm2node s)) \<and>
     (\<forall>i \<in> used (pxm2node s). unat (pm_node (pxm2node s ! i)) < MAX_NUMNODES \<and>
        pm_node (pxm2node s ! i) < nodes_found s)"

definition indexed :: "srat \<Rightarrow> bool" where
  "indexed s \<longleftrightarrow> table_ok s \<and> (\<forall>i \<in> used (pxm2node s). pm_pxm (pxm2node s ! i) = of_nat i)"

lemma table_ok_boot: "table_ok srat_boot" "indexed srat_boot"
proof -
  have "used (pxm2node srat_boot) = {}" by (simp add: srat_boot_def used_def)
  then show "table_ok srat_boot" "indexed srat_boot"
    by (simp_all add: indexed_def table_ok_def) (simp_all add: srat_boot_def)
qed

lemma used_update:
  "idx < length t \<Longrightarrow> used (t[idx := e]) =
   (if pm_node e = NUMA_NO_NODE then used t - {idx} else insert idx (used t))"
  by (auto simp: used_def nth_list_update)

text \<open>Node 0 is never stored in a used slot, so one slot always stays free.\<close>

lemma free_slot_exists:
  assumes "table_ok s"
  shows "\<exists>i < MAX_NUMNODES. i \<notin> used (pxm2node s)"
proof (rule ccontr)
  let ?t = "pxm2node s"
  assume "\<not> ?thesis"
  then have all: "{..<MAX_NUMNODES} \<subseteq> used ?t" by auto
  have "inj_on (\<lambda>i. unat (pm_node (?t ! i))) (used ?t)"
    using assms by (simp add: table_ok_def inj_on_def flip: word_unat_eq_iff)
  with all have "inj_on (\<lambda>i. unat (pm_node (?t ! i))) {..<MAX_NUMNODES}"
    by (rule inj_on_subset [rotated])
  moreover have "(\<lambda>i. unat (pm_node (?t ! i))) ` {..<MAX_NUMNODES} \<subseteq> {0<..<MAX_NUMNODES}"
    using assms all by (auto simp: table_ok_def used_def unat_gt_0)
  ultimately have "card {..<MAX_NUMNODES} \<le> card {0<..<MAX_NUMNODES}"
    by (rule card_inj_on_le) simp
  then show False by (simp add: MAX_NUMNODES_def)
qed

lemma slot_free_iff: "i < length t \<Longrightarrow> slot_free t i = Some (i \<notin> used t)"
  by (auto simp: slot_free_def used_def array_simps)

lemma MAX_less_sizeof: "MAX_NUMNODES < sizeof_pxm2node"
  by (simp add: MAX_NUMNODES_def sizeof_pxm2node_def)

text \<open>So the search for a free slot stays inside the array and succeeds.\<close>

lemma free_slot_search:
  assumes "table_ok s"
  obtains idx where "search (slot_free (pxm2node s)) 0 sizeof_pxm2node = Some (Some idx)"
    and "idx < MAX_NUMNODES" and "idx \<notin> used (pxm2node s)"
proof -
  let ?free = "\<lambda>i. i < MAX_NUMNODES \<and> i \<notin> used (pxm2node s)"
  define k where "k = (LEAST i. ?free i)"
  have k: "?free k" "\<And>j. j < k \<Longrightarrow> \<not> ?free j"
    using LeastI_ex [of ?free] free_slot_exists [OF assms] not_less_Least unfolding k_def by blast+
  have len: "length (pxm2node s) = MAX_NUMNODES" using assms by (simp add: table_ok_def)
  have "search (slot_free (pxm2node s)) 0 sizeof_pxm2node = Some (Some k)"
    unfolding search_found_iff using k len MAX_less_sizeof by (auto simp: slot_free_iff)
  then show thesis using that k(1) by blast
qed

text \<open>A free slot gets a node that has not been handed out.\<close>

lemma table_ok_insert:
  fixes s :: srat
  defines "t \<equiv> \<lambda>idx p. (pxm2node s)[idx := \<lparr>pm_pxm = p, pm_node = nodes_found s\<rparr>]"
  assumes ok: "table_ok s" and idx: "idx < MAX_NUMNODES" "idx \<notin> used (pxm2node s)"
    and node: "nodes_found s < nodes_found s + 1" "unat (nodes_found s) < MAX_NUMNODES"
  shows "table_ok (s\<lparr>nodes_found := nodes_found s + 1, pxm2node := t idx p\<rparr>)"
proof -
  let ?t = "t idx p"
  have len: "length (pxm2node s) = MAX_NUMNODES" using ok by (simp add: table_ok_def)
  have old: "?t ! i = pxm2node s ! i" "pm_node (?t ! i) < nodes_found s" "unat (pm_node (?t ! i)) < MAX_NUMNODES"
    if "i \<in> used (pxm2node s)" for i
  proof -
    have "i \<noteq> idx" using that idx(2) by auto
    then show "?t ! i = pxm2node s ! i" by (simp add: t_def)
    with that ok show "pm_node (?t ! i) < nodes_found s" "unat (pm_node (?t ! i)) < MAX_NUMNODES"
      by (simp_all add: table_ok_def)
  qed
  have new: "pm_node (?t ! idx) = nodes_found s" using idx(1) len by (simp add: t_def)
  have sub: "used ?t \<subseteq> insert idx (used (pxm2node s))" using idx(1) len by (auto simp: t_def used_update)
  have "i = j" if "i \<in> used ?t" "j \<in> used ?t" "pm_node (?t ! i) = pm_node (?t ! j)" for i j
  proof (cases "i = idx \<or> j = idx")
    case True
    then show ?thesis using that sub old(2) [of i] old(2) [of j] new by auto
  next
    case False
    then have "i \<in> used (pxm2node s)" "j \<in> used (pxm2node s)" using that sub by auto
    then show ?thesis using that(3) old(1) ok by (simp add: table_ok_def inj_on_def)
  qed
  moreover have "unat (pm_node (?t ! i)) < MAX_NUMNODES \<and> pm_node (?t ! i) < nodes_found s + 1"
    if "i \<in> used ?t" for i
    using that sub old(2,3) [of i] new node by (cases "i = idx") (auto dest: order.strict_trans)
  moreover have "length ?t = MAX_NUMNODES" using len by (simp add: t_def)
  ultimately show ?thesis by (simp add: table_ok_def inj_on_def)
qed

lemma setup_finish_table_ok:
  assumes "table_ok s" "idx < MAX_NUMNODES" "idx \<notin> used (pxm2node s)" "nodes_found s \<noteq> - 1"
  obtains n s' where "setup_finish p idx s = Some (n, s')" "table_ok s'"
    and "n \<noteq> 0 \<Longrightarrow> n = nodes_found s \<and> unat n < MAX_NUMNODES \<and>
      pxm2node s' = (pxm2node s)[idx := \<lparr>pm_pxm = p, pm_node = n\<rparr>]"
    and "nodes_found s' = nodes_found s + 1" and "0 < nodes_found s \<Longrightarrow> unat (nodes_found s) < MAX_NUMNODES \<Longrightarrow> n \<noteq> 0"
proof -
  have up: "nodes_found s < nodes_found s + 1"
    using assms(4) by (rule less_plus_1)
  show thesis
  proof (cases "MAX_NUMNODES \<le> unat (nodes_found s)")
    case True
    then have "setup_finish p idx s = Some (0, s\<lparr>nodes_found := nodes_found s + 1\<rparr>)"
      by (simp add: setup_finish_def)
    moreover have "table_ok (s\<lparr>nodes_found := nodes_found s + 1\<rparr>)"
      using assms(1) up by (auto simp: table_ok_def)
    ultimately show thesis using that True by simp
  next
    case False
    let ?s = "s\<lparr>nodes_found := nodes_found s + 1,
      pxm2node := (pxm2node s)[idx := \<lparr>pm_pxm = p, pm_node = nodes_found s\<rparr>]\<rparr>"
    have "setup_finish p idx s = Some (nodes_found s, ?s)"
      using False assms(1,2) by (simp add: setup_finish_def array_simps Let_def table_ok_def)
    moreover have "table_ok ?s" using assms(1-3) up False by (intro table_ok_insert) simp_all
    ultimately show thesis using that False by simp
  qed
qed

lemma setup_search_table_ok:
  assumes "table_ok s" "nodes_found s \<noteq> - 1"
  shows "\<exists>n s'. setup_search p s = Some (n, s') \<and> table_ok s' \<and> unat n < MAX_NUMNODES"
proof -
  obtain idx where "search (slot_free (pxm2node s)) 0 sizeof_pxm2node = Some (Some idx)"
    "idx < MAX_NUMNODES" "idx \<notin> used (pxm2node s)"
    using free_slot_search [OF assms(1)] .
  moreover from this obtain n s' where "setup_finish p idx s = Some (n, s')" "table_ok s'"
    "n \<noteq> 0 \<Longrightarrow> unat n < MAX_NUMNODES"
    using setup_finish_table_ok [OF assms(1) _ _ assms(2)] by metis
  ultimately show ?thesis
    by (cases "n = 0") (auto simp: setup_search_def MAX_NUMNODES_def)
qed

text \<open>What \<open>setup_node\<close> does with a domain below the number of slots.\<close>

lemma setup_node_own_slot:
  assumes "length (pxm2node s) = MAX_NUMNODES" "unat p < MAX_NUMNODES" "unat p \<in> used (pxm2node s)"
  shows "setup_node p s = (if pm_pxm (pxm2node s ! unat p) = p
    then Some (pm_node (pxm2node s ! unat p), s) else setup_search p s)"
  using assms MAX_less_sizeof
  by (auto simp: setup_node_def node_found_def array_simps slot_free_iff used_def)

lemma setup_node_free_slot:
  assumes "length (pxm2node s) = MAX_NUMNODES" "unat p < MAX_NUMNODES" "unat p \<notin> used (pxm2node s)"
  shows "setup_node p s = setup_finish p (unat p) s"
  using assms MAX_less_sizeof
  by (auto simp: setup_node_def node_found_def array_simps slot_free_iff used_def)

lemma setup_node_defined:
  assumes "table_ok s" "nodes_found s \<noteq> - 1" "unat p < MAX_NUMNODES \<or> sizeof_pxm2node \<le> unat p"
  shows "\<exists>n s'. setup_node p s = Some (n, s') \<and> table_ok s' \<and> unat n < MAX_NUMNODES"
proof -
  have len: "length (pxm2node s) = MAX_NUMNODES" using assms(1) by (simp add: table_ok_def)
  note search = setup_search_table_ok [OF assms(1,2), of p]
  show ?thesis
  proof (cases "unat p < MAX_NUMNODES")
    case p: True
    show ?thesis
    proof (cases "unat p \<in> used (pxm2node s)")
      case True
      then show ?thesis
        using setup_node_own_slot [OF len p True] search assms(1) by (auto simp: table_ok_def)
    next
      case False
      moreover obtain n s' where "setup_finish p (unat p) s = Some (n, s')" "table_ok s'"
        "n \<noteq> 0 \<Longrightarrow> unat n < MAX_NUMNODES"
        using setup_finish_table_ok [OF assms(1) p False assms(2)] by metis
      ultimately show ?thesis
        using setup_node_free_slot [OF len p] by (cases "n = 0") (auto simp: MAX_NUMNODES_def)
    qed
  next
    case False
    then have "setup_node p s = setup_search p s"
      using assms(3) by (simp add: setup_node_def)
    with search show ?thesis by simp
  qed
qed

lemma setup_node_overruns:
  assumes "table_ok s" "MAX_NUMNODES \<le> unat p" "unat p < sizeof_pxm2node"
  shows "setup_node p s = None"
  using assms by (simp add: setup_node_def node_found_def array_simps table_ok_def)

text \<open>
  C13. What \<open>setup_node\<close> does to a well-formed table, for every domain, as long as its counter has not
  reached the last 32-bit number. A domain from the number of slots up to, not including, the size of
  the array in bytes indexes the array directly and out of its bounds: the call is undefined. With any
  other domain the call returns a node below the number of nodes and leaves the table well-formed,
  with used slots of distinct nodes that have been handed out, and with at least one free slot; the
  search for one, although its bound is the size in bytes as well, therefore never leaves the array.
\<close>

theorem setup_node_preserves:
  assumes "table_ok s" "nodes_found s \<noteq> - 1"
  shows "if MAX_NUMNODES \<le> unat p \<and> unat p < sizeof_pxm2node then setup_node p s = None
    else \<exists>n s'. setup_node p s = Some (n, s') \<and> table_ok s' \<and> unat n < MAX_NUMNODES \<and>
      (\<exists>i < MAX_NUMNODES. pm_node (pxm2node s' ! i) = NUMA_NO_NODE)"
proof (cases "MAX_NUMNODES \<le> unat p \<and> unat p < sizeof_pxm2node")
  case True
  then show ?thesis using setup_node_overruns [OF assms(1)] by simp
next
  case False
  then obtain n s' where s': "setup_node p s = Some (n, s')" "table_ok s'" "unat n < MAX_NUMNODES"
    using setup_node_defined [OF assms, of p] by force
  obtain i where "i < MAX_NUMNODES" "i \<notin> used (pxm2node s')" using free_slot_exists [OF s'(2)] by blast
  then have "\<exists>i < MAX_NUMNODES. pm_node (pxm2node s' ! i) = NUMA_NO_NODE"
    using s'(2) by (auto simp: used_def table_ok_def)
  with False s' show ?thesis by auto
qed

theorem setup_node_preserves_witness:
  "(\<exists>n s'. setup_node 7 srat_boot = Some (n, s') \<and> table_ok s') \<and>
   (\<exists>n s'. setup_node 9000 srat_boot = Some (n, s') \<and> table_ok s') \<and> setup_node 1000 srat_boot = None"
  using setup_node_preserves [OF table_ok_boot(1), of 7] setup_node_preserves [OF table_ok_boot(1), of 9000]
    setup_node_preserves [OF table_ok_boot(1), of 1000]
  by (auto simp: srat_boot_def MAX_NUMNODES_def sizeof_pxm2node_def)

lemma indexed_length: "indexed s \<Longrightarrow> length (pxm2node s) = MAX_NUMNODES"
  by (simp add: indexed_def table_ok_def)

lemma indexed_pxm: "indexed s \<Longrightarrow> unat p \<in> used (pxm2node s) \<Longrightarrow> pm_pxm (pxm2node s ! unat p) = p"
  by (simp add: indexed_def)

lemma setup_node_used:
  "indexed s \<Longrightarrow> unat p < MAX_NUMNODES \<Longrightarrow> unat p \<in> used (pxm2node s) \<Longrightarrow>
   setup_node p s = Some (pm_node (pxm2node s ! unat p), s)"
  by (simp add: setup_node_own_slot indexed_length indexed_pxm)

text \<open>A new slot for a domain of an indexed table.\<close>

lemma indexed_update:
  assumes "indexed s" "unat p < MAX_NUMNODES" "unat p \<notin> used (pxm2node s)"
    and "table_ok s'" "pxm2node s' = (pxm2node s)[unat p := \<lparr>pm_pxm = p, pm_node = n\<rparr>]"
  shows "used (pxm2node s') = (if n = 0 then used (pxm2node s) else insert (unat p) (used (pxm2node s)))"
    and "indexed s'"
proof -
  have len: "length (pxm2node s) = MAX_NUMNODES" using assms(1) by (rule indexed_length)
  show used: "used (pxm2node s') = (if n = 0 then used (pxm2node s) else insert (unat p) (used (pxm2node s)))"
    using assms(2,3,5) len by (simp add: used_update)
  then show "indexed s'"
    using assms(1-5) len by (auto simp: indexed_def nth_list_update split: if_splits)
qed

text \<open>A domain that is known or can still get a node stands in its slot after the call.\<close>

lemma setup_node_indexed:
  assumes "indexed s" "unat p < MAX_NUMNODES" "0 < nodes_found s" "unat (nodes_found s) < MAX_NUMNODES"
  obtains n s' where "setup_node p s = Some (n, s')" "n \<noteq> 0" "indexed s'"
    "unat p \<in> used (pxm2node s')" "pxm2node s' ! unat p = \<lparr>pm_pxm = p, pm_node = n\<rparr>"
    "\<forall>i < MAX_NUMNODES. i \<noteq> unat p \<longrightarrow> pxm2node s' ! i = pxm2node s ! i"
proof (cases "unat p \<in> used (pxm2node s)")
  case True
  then have "pxm2node s ! unat p = \<lparr>pm_pxm = p, pm_node = pm_node (pxm2node s ! unat p)\<rparr>"
    using indexed_pxm [OF assms(1), of p] by (cases "pxm2node s ! unat p") simp
  then show thesis
    using that [OF setup_node_used [OF assms(1,2) True]] True assms(1) by (simp add: used_def)
next
  case False
  have len: "length (pxm2node s) = MAX_NUMNODES" and ok: "table_ok s"
    using assms(1) by (simp_all add: indexed_def table_ok_def)
  obtain n s' where f: "setup_finish p (unat p) s = Some (n, s')" "table_ok s'" "n \<noteq> 0"
    "pxm2node s' = (pxm2node s)[unat p := \<lparr>pm_pxm = p, pm_node = n\<rparr>]"
    using setup_finish_table_ok [OF ok assms(2) False below_max [OF assms(4)]] assms(3,4) by metis
  note upd = indexed_update [OF assms(1,2) False f(2,4)]
  show thesis
    by (rule that [of n s'])
      (use setup_node_free_slot [OF len assms(2) False] f upd assms(2) len in simp_all)
qed

text \<open>The lookup back from a node finds the slot of its domain.\<close>

lemma node_to_pxm_indexed:
  assumes "indexed s" "unat p < MAX_NUMNODES" "unat p \<in> used (pxm2node s)"
    "pxm2node s ! unat p = \<lparr>pm_pxm = p, pm_node = n\<rparr>"
  shows "node_to_pxm (pxm2node s) n = Some p"
proof -
  have len: "length (pxm2node s) = MAX_NUMNODES" using assms(1) by (rule indexed_length)
  have slot: "i = unat p" if "i < MAX_NUMNODES" "pm_node (pxm2node s ! i) = n" for i
    using that assms len by (auto simp: indexed_def table_ok_def inj_on_def used_def)
  have nlt: "unat n < MAX_NUMNODES"
    using assms(1,3,4) by (force simp: indexed_def table_ok_def)
  show ?thesis
  proof (cases "unat n = unat p")
    case True
    then show ?thesis
      using assms(4) nlt len MAX_less_sizeof by (simp add: node_to_pxm_def array_simps)
  next
    case False
    have "pm_node (pxm2node s ! j) \<noteq> n" if "j < unat p" for j
      using slot [of j] that assms(2) by auto
    then have "search (\<lambda>i. do { e \<leftarrow> at (pxm2node s) i; Some (pm_node e = n) }) 0 sizeof_pxm2node
        = Some (Some (unat p))"
      unfolding search_found_iff using assms(2,4) len MAX_less_sizeof by (auto simp: array_simps)
    moreover have "pm_node (pxm2node s ! unat n) \<noteq> n" using slot [OF nlt] False by blast
    ultimately show ?thesis
      using assms(4) nlt len MAX_less_sizeof by (auto simp: node_to_pxm_def array_simps)
  qed
qed

text \<open>
  C14. Round trip, for a domain below the number of slots, in an indexed table whose counter is
  between 1 and the number of nodes less one, so that the domain is known or gets a node: the node is
  one that both lookups agree on, \<open>pxm_to_node\<close> one way and \<open>node_to_pxm\<close> back, that a second call
  returns again without a change, and whose arrival changes no other slot. (A domain beyond the
  table gets another node on every call, see \<open>setup_node_splits_domain\<close> below; with the counter at 0
  it gets none.)
\<close>

theorem setup_node_roundtrip:
  assumes "indexed s" "unat p < MAX_NUMNODES" "0 < nodes_found s" "unat (nodes_found s) < MAX_NUMNODES"
  shows "\<exists>n s'. setup_node p s = Some (n, s') \<and> n \<noteq> NUMA_NO_NODE \<and> indexed s' \<and>
    pxm_to_node (pxm2node s') p = Some n \<and> node_to_pxm (pxm2node s') n = Some p \<and>
    setup_node p s' = Some (n, s') \<and>
    (\<forall>i < MAX_NUMNODES. i \<noteq> unat p \<longrightarrow> pxm2node s' ! i = pxm2node s ! i)"
proof -
  obtain n s' where s': "setup_node p s = Some (n, s')" "n \<noteq> 0" "indexed s'"
    "unat p \<in> used (pxm2node s')" "pxm2node s' ! unat p = \<lparr>pm_pxm = p, pm_node = n\<rparr>"
    "\<forall>i < MAX_NUMNODES. i \<noteq> unat p \<longrightarrow> pxm2node s' ! i = pxm2node s ! i"
    using setup_node_indexed [OF assms] .
  have "setup_node p s' = Some (n, s')"
    using setup_node_used [OF s'(3) assms(2) s'(4)] s'(5) by simp
  moreover have "pxm_to_node (pxm2node s') p = Some n"
    using s' assms(2) indexed_length [OF s'(3)] MAX_less_sizeof
    by (simp add: pxm_to_node_def node_found_def array_simps)
  moreover have "node_to_pxm (pxm2node s') n = Some p"
    using node_to_pxm_indexed [OF s'(3) assms(2) s'(4,5)] .
  ultimately show ?thesis using s' by blast
qed

theorem setup_node_roundtrip_witness:
  "\<exists>n s'. setup_node 7 (srat_boot\<lparr>nodes_found := 1\<rparr>) = Some (n, s') \<and> n \<noteq> NUMA_NO_NODE \<and>
     node_to_pxm (pxm2node s') n = Some 7"
proof -
  have "indexed (srat_boot\<lparr>nodes_found := 1\<rparr>)"
    by (auto simp: indexed_def table_ok_def srat_boot_def used_def inj_on_def)
  from setup_node_roundtrip [OF this, of 7] show ?thesis by (auto simp: MAX_NUMNODES_def)
qed

text \<open>
  A domain from \<open>sizeof_pxm2node\<close> on is never looked up before a slot is taken: two calls for
  it hand out two different nodes.
\<close>

theorem setup_node_splits_domain:
  assumes "table_ok s" "sizeof_pxm2node \<le> unat p" "0 < nodes_found s"
    "unat (nodes_found s) + 1 < MAX_NUMNODES"
  shows "\<exists>n s' n' s''. setup_node p s = Some (n, s') \<and> setup_node p s' = Some (n', s'') \<and>
    n \<noteq> NUMA_NO_NODE \<and> n' \<noteq> NUMA_NO_NODE \<and> n \<noteq> n'"
proof -
  have step: "\<exists>s'. setup_node p s = Some (nodes_found s, s') \<and> table_ok s' \<and>
      nodes_found s' = nodes_found s + 1"
    if h: "table_ok s" "0 < nodes_found s" "unat (nodes_found s) < MAX_NUMNODES" for s
  proof -
    have max: "nodes_found s \<noteq> - 1" using h(3) by (rule below_max)
    obtain idx where "search (slot_free (pxm2node s)) 0 sizeof_pxm2node = Some (Some idx)"
      "idx < MAX_NUMNODES" "idx \<notin> used (pxm2node s)"
      using free_slot_search [OF h(1)] .
    moreover from this obtain n s' where "setup_finish p idx s = Some (n, s')" "table_ok s'"
      "n = nodes_found s" "nodes_found s' = nodes_found s + 1"
      using setup_finish_table_ok [OF h(1) _ _ max] h(2,3) by metis
    ultimately show ?thesis using assms(2) by (simp add: setup_node_def setup_search_def)
  qed
  have next_nr: "unat (nodes_found s + 1) = Suc (unat (nodes_found s))"
    using assms(4) by (intro unat_plus_1 below_max) simp
  obtain s' where s': "setup_node p s = Some (nodes_found s, s')" "table_ok s'"
    "nodes_found s' = nodes_found s + 1"
    using step [OF assms(1,3)] assms(4) by auto
  moreover obtain s'' where "setup_node p s' = Some (nodes_found s', s'')"
    using step [OF s'(2)] s'(3) next_nr assms(4) by (auto simp: word_less_nat_alt)
  moreover have "nodes_found s + 1 \<noteq> 0" using next_nr by auto
  ultimately show ?thesis using assms(3) by auto
qed

theorem setup_node_splits_domain_witness:
  "\<exists>n s' n' s''. setup_node 9000 (srat_boot\<lparr>nodes_found := 1\<rparr>) = Some (n, s') \<and>
     setup_node 9000 s' = Some (n', s'') \<and> n \<noteq> n'"
proof -
  have "table_ok (srat_boot\<lparr>nodes_found := 1\<rparr>)"
    by (auto simp: table_ok_def srat_boot_def used_def inj_on_def)
  from setup_node_splits_domain [OF this, of 9000] show ?thesis
    by (auto simp: MAX_NUMNODES_def sizeof_pxm2node_def)
qed

end
