(* ===== verification/Srat_Scan.thy ===== *)
theory Srat_Scan
  imports Srat_Cover Srat_Domains
begin

text \<open>
  Parsing and scanning the SRAT of srat_verified.c: what the affinity callbacks do wrong, and what
  a successful \<open>acpi_scan_nodes\<close> has established.
\<close>

section \<open>Errors\<close>

text \<open>
  C11. Clearing the table overruns it: \<open>bad_srat\<close> runs to the size of the table in bytes. Each of
  the three affinity callbacks compares the size of the header field with the size of the whole
  entry, so with the SRAT in use each of them ends there, whatever the entry says.
\<close>

theorem affinity_callbacks_overrun:
  assumes "length (pxm2node s) = MAX_NUMNODES" "\<not> srat_disabled s"
  shows "bad_srat s = None \<and>
    acpi_numa_x2apic_affinity_init srat_disabled xa s = None \<and>
    acpi_numa_processor_affinity_init srat_disabled ca s = None \<and>
    acpi_numa_memory_affinity_init srat_disabled test_bit hp node_test_and_set parsed ma s = None"
proof -
  have "for_loop (\<lambda>i t. do {
         e \<leftarrow> at t i;
         upd t i (e\<lparr>pm_node := NUMA_NO_NODE\<rparr>) }) 0 sizeof_pxm2node (pxm2node s) = None"
    by (rule for_loop_overrun)
      (use assms(1) MAX_less_sizeof in \<open>auto simp: bind_eq_Some_conv upd_Some_iff\<close>)
  then have "bad_srat s = None" by (simp add: bad_srat_def Let_def bind_eq_None_conv)
  then show ?thesis
    using assms(2)
    by (simp add: acpi_numa_x2apic_affinity_init_def acpi_numa_processor_affinity_init_def
        acpi_numa_memory_affinity_init_def sizeof_header_def sizeof_x2apic_affinity_def
        sizeof_cpu_affinity_def sizeof_mem_affinity_def)
qed

theorem affinity_callbacks_overrun_witness: "bad_srat srat_boot = None"
  using affinity_callbacks_overrun [of srat_boot "\<lambda>_. False"] by (simp add: srat_boot_def)

section \<open>Scanning the nodes\<close>

lemma nodes_cover_memory_covered:
  assumes "nodes_cover_memory ns n e820 = Some c" "c \<noteq> 0"
    and "nat n \<le> length ns" "nat (nr_map e820) \<le> length (e820_entries e820)"
  shows "\<forall>m \<in> set (take (nat (nr_map e820)) (e820_entries e820)).
    is_ram m \<longrightarrow> range_of (map_addr m) (map_addr m + map_size m) \<subseteq> nodes_range ns (nat n)"
proof (rule ccontr)
  assume "\<not> ?thesis"
  from nodes_cover_memory_ok [OF assms(3,4), unfolded if_not_P [OF this]] show False
    using assms(1,2) by simp
qed

lemma cutoff_loop:
  "length (nodes s) = MAX_NUMNODES \<Longrightarrow>
   for_loop (\<lambda>i ns. do {
         nd \<leftarrow> at ns i;
         upd ns i (cutoff_node start end nd) }) 0 MAX_NUMNODES (nodes s) =
   Some (map (cutoff_node start end) (nodes s))"
  by (intro for_loop_fill) (auto simp: array_simps)

lemma scan_success_steps:
  assumes "acpi_scan_nodes n all_nodes nr_cpus cpus node_isset e820 start end s = Some (0, s', calls)"
    and cut: "for_loop (\<lambda>i ns. do {
         nd \<leftarrow> at ns i;
         upd ns i (cutoff_node start end nd) }) 0 MAX_NUMNODES (nodes s) = Some ns"
  obtains c c1 c2 where "nodes_cover_memory ns n e820 = Some c" "c \<noteq> 0" "nodes s' = ns"
    "for_loop (\<lambda>i calls. do {
             nd \<leftarrow> at ns i;
             Some (if nd_end nd - nd_start nd = 0
               then calls @ [Setup_node_bootmem i (nd_start nd) (nd_end nd)] else calls) })
           0 (nat all_nodes) [] = Some c1"
    "for_loop (\<lambda>i calls. do {
             node \<leftarrow> at cpus i;
             Some (if node = NUMA_NO_NODE then calls
               else if \<not> node_isset node then calls @ [Numa_set_node i NUMA_NO_NODE]
               else calls) })
           0 (nat nr_cpus) c1 = Some c2"
    "calls = c2 @ [Numa_init_array]"
proof -
  let ?s = "s\<lparr>nodes := ns\<rparr>"
  note run = assms(1) [unfolded acpi_scan_nodes_def cut Option.bind.simps Let_def]
  have numa: "\<not> acpi_numa ?s \<le> 0" using run by (cases "acpi_numa ?s \<le> 0") simp_all
  note run1 = run [unfolded if_not_P [OF numa]]
  obtain c where c: "nodes_cover_memory (nodes ?s) n e820 = Some c"
    using run1 by (cases "nodes_cover_memory (nodes ?s) n e820") simp_all
  note run2 = run1 [unfolded c Option.bind.simps]
  have c0: "c \<noteq> 0" using run2 by (cases "c = 0"; cases "bad_srat ?s") simp_all
  show thesis using that [of c] c c0 run2 [unfolded if_not_P [OF c0]]
    by (auto simp: bind_eq_Some_conv)
qed

text \<open>
  C27. When \<open>acpi_scan_nodes\<close> succeeds, the nodes have been cut off to the window and cover all
  RAM; but with the message commented out, the only nodes it registers are those that hold no
  memory.
\<close>

theorem acpi_scan_nodes_success:
  assumes "acpi_scan_nodes n all_nodes nr_cpus cpus node_isset e820 start end s = Some (0, s', calls)"
    and "length (nodes s) = MAX_NUMNODES" "nat n \<le> MAX_NUMNODES"
    and "nat (nr_map e820) \<le> length (e820_entries e820)"
  shows "nodes s' = map (cutoff_node start end) (nodes s) \<and>
    (\<forall>m \<in> set (take (nat (nr_map e820)) (e820_entries e820)).
       is_ram m \<longrightarrow> range_of (map_addr m) (map_addr m + map_size m) \<subseteq> nodes_range (nodes s') (nat n)) \<and>
    (\<forall>i a b. Setup_node_bootmem i a b \<in> set calls \<longrightarrow> a = b)"
proof -
  let ?ns = "map (cutoff_node start end) (nodes s)"
  obtain c c1 c2 where c: "nodes_cover_memory ?ns n e820 = Some c" "c \<noteq> 0" "nodes s' = ?ns" and
    c1: "for_loop (\<lambda>i calls. do {
             nd \<leftarrow> at ?ns i;
             Some (if nd_end nd - nd_start nd = 0
               then calls @ [Setup_node_bootmem i (nd_start nd) (nd_end nd)] else calls) })
           0 (nat all_nodes) [] = Some c1" and
    c2: "for_loop (\<lambda>i calls. do {
             node \<leftarrow> at cpus i;
             Some (if node = NUMA_NO_NODE then calls
               else if \<not> node_isset node then calls @ [Numa_set_node i NUMA_NO_NODE]
               else calls) })
           0 (nat nr_cpus) c1 = Some c2" and
    calls: "calls = c2 @ [Numa_init_array]"
    using scan_success_steps [OF assms(1) cutoff_loop [OF assms(2)]] by blast
  have covered: "\<forall>m \<in> set (take (nat (nr_map e820)) (e820_entries e820)).
       is_ram m \<longrightarrow> range_of (map_addr m) (map_addr m + map_size m) \<subseteq> nodes_range ?ns (nat n)"
    using assms(2-4) c(1,2)
      nodes_cover_memory_covered [of ?ns n e820 c] by simp
  let ?I = "\<lambda>calls. \<forall>i a b. Setup_node_bootmem i a b \<in> set calls \<longrightarrow> a = b"
  have "?I c1"
    by (rule for_loop_preserves [OF c1]) (auto simp: bind_eq_Some_conv split: if_splits)
  then have "?I c2"
    by (rule for_loop_preserves [OF c2]) (auto simp: bind_eq_Some_conv split: if_splits)
  then show ?thesis using c(3) covered calls by auto
qed

theorem acpi_scan_nodes_success_witness:
  "\<exists>s' calls. acpi_scan_nodes 0 1 0 [] (\<lambda>_. True) \<lparr>nr_map = 0, e820_entries = []\<rparr> 0 9
      (srat_boot\<lparr>acpi_numa := 1\<rparr>) = Some (0, s', calls) \<and>
     (\<forall>i a b. Setup_node_bootmem i a b \<in> set calls \<longrightarrow> a = b)"
proof -
  let ?s = "srat_boot\<lparr>acpi_numa := 1\<rparr>" and ?e = "\<lparr>nr_map = 0, e820_entries = []\<rparr>"
  have len: "length (nodes ?s) = MAX_NUMNODES" by (simp add: srat_boot_def)
  let ?ns = "map (cutoff_node 0 9) (nodes ?s)"
  have at: "at ?ns 0 = Some (?ns ! 0)" using len by (simp add: at_def MAX_NUMNODES_def)
  have cover: "nodes_cover_memory ?ns 0 ?e = Some 1" by (simp add: nodes_cover_memory_def search_steps)
  have "nd_end (?ns ! 0) - nd_start (?ns ! 0) = 0"
    by (simp add: srat_boot_def MAX_NUMNODES_def cutoff_node_def)
  then have run: "\<exists>s' calls. acpi_scan_nodes 0 1 0 [] (\<lambda>_. True) ?e 0 9 ?s = Some (0, s', calls)"
    unfolding acpi_scan_nodes_def cutoff_loop [OF len] Option.bind.simps Let_def
    using at cover by (simp add: for_loop_step [of 0 "Suc 0"])
  then show ?thesis using acpi_scan_nodes_success [of 0 1 0 "[]" "\<lambda>_. True" ?e 0 9 ?s] len by auto
qed

end
