(* ===== verification/Srat_Table.thy ===== *)
theory Srat_Table
  imports Srat_Domains
begin

text \<open>
  The table of proximity domains of srat_verified.c as an abstract data type: a finite map from
  domains to nodes and a counter. Registering domains below the number of slots, in any order and
  any number of times from the start of the system, refines it, and \<open>pxm_to_node\<close> is its lookup
  for the domains it has; for the others it runs off the table.
\<close>

section \<open>Specification\<close>

type_synonym domain_map = "nat \<times> (u32 \<rightharpoonup> u32)"

text \<open>
  The first domain ever registered is numbered 0, which is also \<open>NUMA_NO_NODE\<close> in this code: it is
  refused and not recorded. The others get 1, 2, \<open>\<dots>\<close> in the order in which they first appear, up to
  the number of nodes.
\<close>

definition spec_setup :: "u32 \<Rightarrow> domain_map \<Rightarrow> u32 \<times> domain_map" where
  "spec_setup p st = (case st of (c, M) \<Rightarrow>
     (case M p of
        Some n \<Rightarrow> (n, (c, M))
      | None \<Rightarrow>
          if c = 0 \<or> MAX_NUMNODES \<le> c then (NUMA_NO_NODE, (c + 1, M))
          else (of_nat c, (c + 1, M(p \<mapsto> of_nat c)))))"

fun spec_setups :: "u32 list \<Rightarrow> domain_map \<Rightarrow> u32 list \<times> domain_map" where
  "spec_setups [] st = ([], st)"
| "spec_setups (p # ps) st =
     (let (n, st) = spec_setup p st; (ns, st) = spec_setups ps st in (n # ns, st))"

fun setup_nodes :: "u32 list \<Rightarrow> srat \<Rightarrow> (u32 list \<times> srat) option" where
  "setup_nodes [] s = Some ([], s)"
| "setup_nodes (p # ps) s = do {
     (n, s) \<leftarrow> setup_node p s;
     (ns, s) \<leftarrow> setup_nodes ps s;
     Some (n # ns, s) }"

text \<open>The map a table stands for.\<close>

definition domains :: "srat \<Rightarrow> domain_map" where
  "domains s = (unat (nodes_found s),
     \<lambda>p. if unat p \<in> used (pxm2node s) then Some (pm_node (pxm2node s ! unat p)) else None)"

section \<open>One registration\<close>

text \<open>A new slot for the domain: what becomes of the map when its node is 0, and when it is not.\<close>

lemma domains_update:
  assumes "indexed s" "unat p < MAX_NUMNODES" "unat p \<notin> used (pxm2node s)"
    and "table_ok s'" "pxm2node s' = (pxm2node s)[unat p := \<lparr>pm_pxm = p, pm_node = n\<rparr>]"
  shows "snd (domains s') = (if n = 0 then snd (domains s) else (snd (domains s))(p \<mapsto> n))"
proof -
  have "unat q = unat p \<longleftrightarrow> q = p" for q by (simp add: word_unat_eq_iff)
  then show ?thesis
    using assms(2,3,5) indexed_length [OF assms(1)] indexed_update(1) [OF assms]
    by (auto simp: domains_def fun_eq_iff nth_list_update)
qed

lemma setup_finish_indexed:
  assumes "indexed s" "unat p < MAX_NUMNODES" "unat p \<notin> used (pxm2node s)" "nodes_found s \<noteq> - 1"
  shows "\<exists>n s'. setup_finish p (unat p) s = Some (n, s') \<and> indexed s' \<and>
    (n, domains s') = spec_setup p (domains s)"
proof -
  have ok: "table_ok s" using assms(1) by (simp add: indexed_def)
  obtain n s' where f: "setup_finish p (unat p) s = Some (n, s')" "table_ok s'"
    using setup_finish_table_ok [OF ok assms(2,3,4)] by metis
  have next_nr: "unat (nodes_found s + 1) = unat (nodes_found s) + 1"
    using unat_plus_1 [OF assms(4)] by simp
  have new: "snd (domains s) p = None" using assms(3) by (simp add: domains_def)
  show ?thesis
  proof (cases "MAX_NUMNODES \<le> unat (nodes_found s)")
    case True
    then have r: "n = 0" "s' = s\<lparr>nodes_found := nodes_found s + 1\<rparr>"
      using f(1) by (simp_all add: setup_finish_def)
    then have "indexed s'" using assms(1) f(2) by (simp add: indexed_def)
    moreover have "(n, domains s') = spec_setup p (domains s)"
      using True r new next_nr by (simp add: spec_setup_def domains_def cong: if_cong)
    ultimately show ?thesis using f(1) by blast
  next
    case False
    then have r: "n = nodes_found s" "nodes_found s' = nodes_found s + 1"
      "pxm2node s' = (pxm2node s)[unat p := \<lparr>pm_pxm = p, pm_node = nodes_found s\<rparr>]"
      using f(1) assms(2) indexed_length [OF assms(1)]
      by (auto simp: setup_finish_def array_simps Let_def)
    note upd = indexed_update(2) [OF assms(1-3) f(2) r(3)] domains_update [OF assms(1-3) f(2) r(3)]
    have "domains s' = (unat (nodes_found s) + 1,
        if nodes_found s = 0 then snd (domains s) else (snd (domains s))(p \<mapsto> nodes_found s))"
      using upd(2) r(2) next_nr by (simp add: domains_def prod_eq_iff)
    moreover obtain M where "domains s = (unat (nodes_found s), M)" by (simp add: domains_def)
    ultimately have "(n, domains s') = spec_setup p (domains s)"
      using False r(1) new by (simp add: spec_setup_def unat_eq_0)
    then show ?thesis using f(1) upd(1) by blast
  qed
qed

lemma setup_node_spec:
  assumes "indexed s" "unat p < MAX_NUMNODES" "nodes_found s \<noteq> - 1"
  shows "\<exists>n s'. setup_node p s = Some (n, s') \<and> indexed s' \<and> (n, domains s') = spec_setup p (domains s)"
proof (cases "unat p \<in> used (pxm2node s)")
  case True
  then show ?thesis
    using setup_node_used [OF assms(1,2)] assms(1) by (simp add: spec_setup_def domains_def)
next
  case False
  then show ?thesis using setup_node_free_slot [OF indexed_length [OF assms(1)] assms(2)] setup_finish_indexed [OF assms(1,2)] assms(3) by simp
qed

lemma spec_setup_counts: "fst (snd (spec_setup p st)) \<le> fst st + 1"
  by (auto simp: spec_setup_def split: prod.split option.split)

lemma setup_nodes_spec:
  assumes "indexed s" "\<forall>p \<in> set ps. unat p < MAX_NUMNODES" "unat (nodes_found s) + length ps < 2 ^ 32"
  shows "\<exists>ns s'. setup_nodes ps s = Some (ns, s') \<and> indexed s' \<and> (ns, domains s') = spec_setups ps (domains s)"
  using assms
proof (induction ps arbitrary: s)
  case (Cons p ps)
  have "nodes_found s \<noteq> - 1"
    using Cons.prems(3) by (auto simp: unsigned_minus_1_eq_mask mask_eq_exp_minus_1)
  then obtain n s' where s': "setup_node p s = Some (n, s')" "indexed s'" "(n, domains s') = spec_setup p (domains s)"
    using setup_node_spec [OF Cons.prems(1), of p] Cons.prems(2) by (metis list.set_intros(1))
  have "unat (nodes_found s') \<le> unat (nodes_found s) + 1"
    using spec_setup_counts [of p "domains s"] s'(3) by (auto simp: domains_def dest: arg_cong [where f = "fst \<circ> snd"])
  then obtain ns s'' where "setup_nodes ps s' = Some (ns, s'')" "indexed s''" "(ns, domains s'') = spec_setups ps (domains s')"
    using Cons.IH [OF s'(2)] Cons.prems(2,3) by auto
  then show ?case using s' by (auto simp: Let_def split: prod.splits)
qed simp

section \<open>Lookup\<close>

text \<open>
  The loops over the table are bounded by its size in bytes: a search that the array cannot answer
  runs off its end.
\<close>

lemma search_runs_off:
  assumes "\<And>i. P i = (if i < MAX_NUMNODES then Some (Q i) else None)"
  shows "search P 0 sizeof_pxm2node = None \<longleftrightarrow> (\<forall>i < MAX_NUMNODES. \<not> Q i)"
proof
  assume "search P 0 sizeof_pxm2node = None"
  then show "\<forall>i < MAX_NUMNODES. \<not> Q i"
    unfolding search_undefined_iff by (auto simp: assms split: if_splits)
next
  assume "\<forall>i < MAX_NUMNODES. \<not> Q i"
  then show "search P 0 sizeof_pxm2node = None"
    unfolding search_undefined_iff using MAX_less_sizeof
    by (intro exI [of _ MAX_NUMNODES]) (auto simp: assms)
qed

lemma node_found_slots:
  "length t = MAX_NUMNODES \<Longrightarrow> node_found t i p =
   (if i < MAX_NUMNODES then Some (pm_pxm (t ! i) = p \<and> pm_node (t ! i) \<noteq> 0) else None)"
  by (auto simp: node_found_def array_simps)

lemma pxm_to_node_undefined:
  assumes "length t = MAX_NUMNODES"
  shows "pxm_to_node t p = None \<longleftrightarrow> MAX_NUMNODES \<le> unat p \<and> unat p < sizeof_pxm2node \<or>
    (\<forall>i < MAX_NUMNODES. \<not> (pm_pxm (t ! i) = p \<and> pm_node (t ! i) \<noteq> 0))"
  using search_runs_off [of "\<lambda>i. node_found t i p" "\<lambda>i. pm_pxm (t ! i) = p \<and> pm_node (t ! i) \<noteq> 0",
      OF node_found_slots [OF assms]] node_found_slots [OF assms, of "unat p" p] MAX_less_sizeof
  by (auto simp: pxm_to_node_def split: option.splits bind_splits)

lemma node_to_pxm_undefined:
  assumes "length t = MAX_NUMNODES"
  shows "node_to_pxm t n = None \<longleftrightarrow> MAX_NUMNODES \<le> unat n \<and> unat n < sizeof_pxm2node \<or>
    (\<forall>i < MAX_NUMNODES. pm_node (t ! i) \<noteq> n)"
proof -
  have "(do { e \<leftarrow> at t i; Some (pm_node e = n) }) = (if i < MAX_NUMNODES then Some (pm_node (t ! i) = n) else None)"
    for i using assms by (simp add: array_simps)
  note off = search_runs_off [of _ "\<lambda>i. pm_node (t ! i) = n", OF this]
  show ?thesis
  proof (cases "unat n < MAX_NUMNODES")
    case True
    then show ?thesis using off assms MAX_less_sizeof
      by (auto simp: node_to_pxm_def array_simps split: option.splits)
  next
    case False
    then show ?thesis using off assms MAX_less_sizeof
      by (auto simp: node_to_pxm_def array_simps split: option.splits)
  qed
qed

text \<open>
  C15. The two lookups answer only for what the table holds. In any table of the declared size,
  \<open>pxm_to_node\<close> has no defined result, since it reads past the end of the array, exactly when no used
  slot is of the domain it is asked for, or the domain lies between the number of slots and the size
  of the array in bytes; and \<open>node_to_pxm\<close> likewise for nodes. The \<open>return 0\<close> behind each loop is never
  reached.
\<close>

theorem absent_lookups_overrun:
  assumes "length t = MAX_NUMNODES"
  shows "(pxm_to_node t p = None \<longleftrightarrow> MAX_NUMNODES \<le> unat p \<and> unat p < sizeof_pxm2node \<or>
      (\<forall>i < MAX_NUMNODES. \<not> (pm_pxm (t ! i) = p \<and> pm_node (t ! i) \<noteq> NUMA_NO_NODE))) \<and>
    (node_to_pxm t n = None \<longleftrightarrow> MAX_NUMNODES \<le> unat n \<and> unat n < sizeof_pxm2node \<or>
      (\<forall>i < MAX_NUMNODES. pm_node (t ! i) \<noteq> n))"
  using pxm_to_node_undefined [OF assms] node_to_pxm_undefined [OF assms] by simp

text \<open>Before anything is registered, no domain can be looked up.\<close>

theorem absent_lookups_overrun_witness:
  "pxm_to_node (pxm2node srat_boot) 3 = None \<and> node_to_pxm (pxm2node srat_boot) 1 = None"
proof -
  have "length (pxm2node srat_boot) = MAX_NUMNODES" by (simp add: srat_boot_def)
  from absent_lookups_overrun [OF this, of 3 1] show ?thesis by (auto simp: srat_boot_def)
qed

text \<open>In an indexed table the map is exact: what it has is found, and no slot is of another domain.\<close>

lemma pxm_to_node_domains:
  assumes "indexed s"
  shows "snd (domains s) p = Some n \<Longrightarrow> pxm_to_node (pxm2node s) p = Some n"
    and "snd (domains s) p = None \<Longrightarrow> i < MAX_NUMNODES \<Longrightarrow> node_found (pxm2node s) i p = Some False"
proof -
  let ?t = "pxm2node s"
  have len: "length ?t = MAX_NUMNODES" using assms by (rule indexed_length)
  have found: "node_found ?t i p = Some (i \<in> used ?t \<and> i = unat p)" if "i < MAX_NUMNODES" for i
  proof -
    have "pm_pxm (?t ! i) = of_nat i" if "i \<in> used ?t" using assms that by (simp add: indexed_def)
    moreover have "(of_nat i :: u32) = p \<longleftrightarrow> i = unat p"
      using that by (auto simp: MAX_NUMNODES_def unat_of_nat take_bit_nat_eq_self)
    ultimately show ?thesis using that len by (auto simp: node_found_slots used_def)
  qed
  show "pxm_to_node ?t p = Some n" if "snd (domains s) p = Some n"
  proof -
    have u: "unat p \<in> used ?t" "n = pm_node (?t ! unat p)" using that by (auto simp: domains_def split: if_splits)
    then have "unat p < MAX_NUMNODES" using len by (simp add: used_def)
    then show ?thesis using u found [of "unat p"] MAX_less_sizeof by (simp add: pxm_to_node_def)
  qed
  show "node_found ?t i p = Some False" if "snd (domains s) p = None" "i < MAX_NUMNODES"
    using that found [of i] by (auto simp: domains_def split: if_splits)
qed

section \<open>The table as a map\<close>

text \<open>
  C12. From the start of the system, registering any list of domains below the number of slots
  succeeds and refines the specification: the nodes returned are those it gives; afterwards
  \<open>pxm_to_node\<close> returns, for every domain the map has, the node of the map; and for every domain the
  map does not have, none of the slots is of this domain, whichever slot \<open>node_found\<close> is asked about.
  (What \<open>pxm_to_node\<close> itself does with such a domain is stated above: its loop does not stop at the
  last slot.)
\<close>

theorem setup_nodes_refine:
  assumes "\<forall>p \<in> set ps. unat p < MAX_NUMNODES" "length ps < 2 ^ 32"
  shows "\<exists>s'. setup_nodes ps srat_boot = Some (fst (spec_setups ps (0, Map.empty)), s') \<and>
    (\<forall>p. case snd (snd (spec_setups ps (0, Map.empty))) p of
       Some n \<Rightarrow> pxm_to_node (pxm2node s') p = Some n
     | None \<Rightarrow> \<forall>i < MAX_NUMNODES. node_found (pxm2node s') i p = Some False)"
proof -
  have boot: "domains srat_boot = (0, Map.empty)"
    by (auto simp: domains_def srat_boot_def used_def)
  have "unat (nodes_found srat_boot) + length ps < 2 ^ 32" using assms(2) by (simp add: srat_boot_def)
  then obtain ns s' where run: "setup_nodes ps srat_boot = Some (ns, s')" and ind: "indexed s'"
    and spec: "(ns, domains s') = spec_setups ps (0, Map.empty)"
    using setup_nodes_spec [OF table_ok_boot(2) assms(1)] unfolding boot by blast
  have M: "snd (snd (spec_setups ps (0, Map.empty))) = snd (domains s')" by (simp flip: spec)
  have "case snd (domains s') p of Some n \<Rightarrow> pxm_to_node (pxm2node s') p = Some n
      | None \<Rightarrow> \<forall>i < MAX_NUMNODES. node_found (pxm2node s') i p = Some False" for p
    using pxm_to_node_domains [OF ind, of p] by (auto split: option.split)
  moreover have "ns = fst (spec_setups ps (0, Map.empty))" by (simp flip: spec)
  ultimately show ?thesis using run unfolding M by blast
qed

text \<open>The domain that comes first gets no node until it is registered again.\<close>

theorem setup_nodes_refine_witness:
  "\<exists>s'. setup_nodes [5, 7, 5, 9, 7] srat_boot = Some ([0, 1, 2, 3, 1], s') \<and>
    pxm_to_node (pxm2node s') 5 = Some 2 \<and> pxm_to_node (pxm2node s') 7 = Some 1 \<and>
    pxm_to_node (pxm2node s') 9 = Some 3 \<and> node_found (pxm2node s') 8 8 = Some False"
proof -
  have ps: "\<forall>p \<in> set [5, 7, 5, 9, 7 :: u32]. unat p < MAX_NUMNODES" by (simp add: MAX_NUMNODES_def)
  have spec: "spec_setups [5, 7, 5, 9, 7] (0, Map.empty) = ([0, 1, 2, 3, 1], 4, [5 \<mapsto> 2, 7 \<mapsto> 1, 9 \<mapsto> 3])"
    by (simp add: spec_setup_def MAX_NUMNODES_def fun_upd_twist)
  from setup_nodes_refine [OF ps] obtain s' where
      s': "setup_nodes [5, 7, 5, 9, 7] srat_boot = Some ([0, 1, 2, 3, 1], s')"
    and m: "\<And>p. case [5 \<mapsto> 2, 7 \<mapsto> 1, 9 \<mapsto> 3] p of Some n \<Rightarrow> pxm_to_node (pxm2node s') p = Some n
       | None \<Rightarrow> \<forall>i < MAX_NUMNODES. node_found (pxm2node s') i p = Some False"
    unfolding spec by auto
  have "8 < MAX_NUMNODES" by (simp add: MAX_NUMNODES_def)
  then show ?thesis using s' m [of 5] m [of 7] m [of 9] m [of 8] by simp
qed

end
