(* ===== verification/Microcode_Amd.thy ===== *)
theory Microcode_Amd
  imports C_Loops
begin

text \<open>
  The AMD microcode loader of microcode_amd_verified.c. The container file and the tables are read
  from the byte memory; a pointer of type \<open>T *\<close> plus \<open>n\<close> is \<open>n * sizeof(T)\<close> bytes further, as in C.
  Parameters stand for what the source does not determine: the allocator (whose body returns no
  value), locals and \<open>per_cpu\<close> results that are read uninitialised, and the result of \<open>wrmsr_safe\<close>
  and \<open>cpuid_eax\<close>, which are uninitialised locals too. \<open>xfree\<close> and \<open>__bug\<close> have empty bodies.
\<close>

section \<open>Data\<close>

record microcode_amd =
  mpb :: addr
  mpb_size :: u32
  equiv_cpu_table :: addr
  equiv_cpu_table_size :: u32

text \<open>The fields of \<open>struct ucode_cpu_info\<close> the loader reads.\<close>

record ucode_cpu_info =
  sig_rev :: u32
  mc_amd :: addr

record cpuinfo_x86 =
  x86_vendor :: u8
  x86_family :: u8

text \<open>Sizes and field offsets, in bytes.\<close>

definition sizeof_mpbhdr :: nat where "sizeof_mpbhdr = 8"
definition sizeof_u32 :: nat where "sizeof_u32 = 4"
definition sizeof_equiv_cpu_entry :: nat where "sizeof_equiv_cpu_entry = 16"

definition mpb_type :: "mem \<Rightarrow> addr \<Rightarrow> u32 option" where "mpb_type m p = load32 m p"
definition mpb_len :: "mem \<Rightarrow> addr \<Rightarrow> u32 option" where "mpb_len m p = load32 m (p + 4)"
definition entry_installed :: "mem \<Rightarrow> addr \<Rightarrow> u32 option" where "entry_installed m p = load32 m p"
definition entry_equiv :: "mem \<Rightarrow> addr \<Rightarrow> u16 option" where "entry_equiv m p = load16 m (p + 12)"
definition hdr_patch_id :: "mem \<Rightarrow> addr \<Rightarrow> u32 option" where "hdr_patch_id m p = load32 m (p + 4)"
definition hdr_processor_rev :: "mem \<Rightarrow> addr \<Rightarrow> u16 option" where "hdr_processor_rev m p = load16 m (p + 24)"

section \<open>The processor\<close>

definition amd_collect_cpu_info :: "(int \<Rightarrow> cpuinfo_x86 option) \<Rightarrow> int \<Rightarrow> int option" where
  "amd_collect_cpu_info cpu_data cpu = do {
     c \<leftarrow> cpu_data cpu;
     Some (if x86_vendor c \<noteq> 2 \<or> x86_family c < 0x10 then - 101 else 0) }"

definition verify_patch_size :: "u8 \<Rightarrow> u32 \<Rightarrow> bool" where
  "verify_patch_size family patch_size =
     (let max_size =
            (if family = 0x14 then 1824
             else if family = 0x15 then 4096
             else if family = 0x16 then 3458
             else if family = 0x17 then 3200
             else 2048)
      in patch_size \<le> max_size)"

text \<open>The loop has no bound but the entry with \<open>installed_cpu\<close> 0.\<close>

partial_function (option) find_equiv_loop :: "mem \<Rightarrow> addr \<Rightarrow> u32 \<Rightarrow> u32 \<Rightarrow> u32 \<Rightarrow> (bool \<times> u32) option" where
  "find_equiv_loop m table current eqid i = do {
     let e = table + sizeof_equiv_cpu_entry * unat i;
     installed \<leftarrow> entry_installed m e;
     if installed = 0 then Some (False, eqid)
     else if current = installed then do {
       q \<leftarrow> entry_equiv m e;
       Some (True, ucast q AND 0xffff) }
     else find_equiv_loop m table current eqid (i + 1) }"

definition find_equiv_cpu_id :: "mem \<Rightarrow> addr \<Rightarrow> u32 \<Rightarrow> u32 \<Rightarrow> (bool \<times> u32) option" where
  "find_equiv_cpu_id m table current eqid =
     (if table = NULL then Some (False, eqid) else find_equiv_loop m table current eqid 0)"

text \<open>\<open>eqid\<close> is the initial value of the local \<open>equiv_cpu_id\<close>.\<close>

definition microcode_fits ::
    "u8 \<Rightarrow> u32 \<Rightarrow> u32 \<Rightarrow> ucode_cpu_info \<Rightarrow> mem \<Rightarrow> microcode_amd \<Rightarrow> bool option" where
  "microcode_fits family cpuid eqid uci m mc = do {
     (found, eqid) \<leftarrow> find_equiv_cpu_id m (equiv_cpu_table mc) cpuid eqid;
     if \<not> found then Some False
     else do {
       revision \<leftarrow> hdr_processor_rev m (mpb mc);
       if ucast revision \<noteq> eqid then Some False
       else if \<not> verify_patch_size family (mpb_size mc) then Some False
       else do {
         patch \<leftarrow> hdr_patch_id m (mpb mc);
         Some (\<not> patch \<le> sig_rev uci) } } }"

text \<open>\<open>heap\<close> holds the \<open>struct microcode_amd\<close> objects; \<open>hw_err\<close> and \<open>revision\<close> are undetermined.\<close>

definition amd_apply_microcode ::
    "(addr \<rightharpoonup> microcode_amd) \<Rightarrow> ucode_cpu_info \<Rightarrow> mem \<Rightarrow> int \<Rightarrow> u32 \<Rightarrow> int option" where
  "amd_apply_microcode heap uci m hw_err revision =
     (if mc_amd uci = NULL then Some (- 101)
      else do {
        mc \<leftarrow> heap (mc_amd uci);
        if mpb mc = NULL then Some (- 101)
        else if hw_err \<noteq> 0 then Some (- 2)
        else do {
          patch \<leftarrow> hdr_patch_id m (mpb mc);
          Some (if revision \<noteq> patch then - 2 else 0) } })"

section \<open>Reading the container\<close>

definition get_ucode_from_buffer_amd ::
    "(u32 \<Rightarrow> addr) \<Rightarrow> mem \<Rightarrow> microcode_amd \<Rightarrow> addr \<Rightarrow> u32 \<Rightarrow> u32 \<Rightarrow>
     (int \<times> microcode_amd \<times> u32) option" where
  "get_ucode_from_buffer_amd xmalloc m mc buf bufsize offset =
     (let mpbuf = buf + sizeof_mpbhdr * unat offset in
      if offset \<ge> bufsize then Some (- 101, mc, offset)
      else do {
        type \<leftarrow> mpb_type m mpbuf;
        if type \<noteq> 1 then Some (- 101, mc, offset)
        else do {
          len \<leftarrow> mpb_len m mpbuf;
          if offset + len > bufsize then Some (- 101, mc, offset)
          else if mpb_size mc < len then
            let mc = (if mpb mc \<noteq> NULL then mc\<lparr>mpb_size := 0\<rparr> else mc);
                mc = mc\<lparr>mpb := xmalloc len\<rparr>
            in if mpb mc = NULL then Some (- 1, mc, offset)
               else Some (0, mc\<lparr>mpb_size := len\<rparr>, offset + len + 8)
          else Some (0, mc, offset + len + 8) } })"

definition install_equiv_cpu_table ::
    "mem \<Rightarrow> microcode_amd \<Rightarrow> addr \<Rightarrow> u32 \<Rightarrow> (int \<times> microcode_amd \<times> u32) option" where
  "install_equiv_cpu_table m mc data offset =
     (let mpbuf = data + sizeof_mpbhdr * unat offset + sizeof_mpbhdr * 4 in do {
      len \<leftarrow> mpb_len m mpbuf;
      let offset = offset + len + 12;
      type \<leftarrow> mpb_type m mpbuf;
      if type \<noteq> 0 then Some (- 101, mc, offset)
      else if len = 0 then Some (- 101, mc, offset)
      else if equiv_cpu_table mc = NULL then Some (- 1, mc, offset)
      else Some (0, mc\<lparr>equiv_cpu_table_size := len\<rparr>, offset) })"

definition UCODE_MAGIC :: u32 where "UCODE_MAGIC = 0x00414d44"

lemma less_sub: "32 \<le> s \<Longrightarrow> s \<le> n \<Longrightarrow> n - s < n" for n s :: u32
  by (simp add: word_less_nat_alt word_le_nat_alt unat_sub_if_size)

function container_fast_forward :: "mem \<Rightarrow> addr \<Rightarrow> u32 \<Rightarrow> u32 \<Rightarrow> (int \<times> u32) option" where
  "container_fast_forward m data size_left offset =
     (if size_left < 8 then Some (- 101, offset)
      else do {
        let header = data + sizeof_u32 * unat offset;
        h0 \<leftarrow> load32 m header;
        h1 \<leftarrow> load32 m (header + 4);
        if h0 = UCODE_MAGIC \<and> h1 = 0 then Some (0, offset)
        else if h0 \<noteq> 1 then Some (- 101, offset)
        else
          let size = h1 + 8 in
          if size < 32 \<or> size_left < size then Some (- 101, offset)
          else
            let size_left = size_left - size; offset = offset + size in
            if size_left = 0 then Some (- 4, offset)
            else container_fast_forward m data size_left offset })"
  by auto
termination
  by (relation "measure (\<lambda>(m, data, size_left, offset). unat size_left)")
    (auto simp: word_less_nat_alt [symmetric] not_less intro!: less_sub)

declare container_fast_forward.simps [simp del]

definition final_levels :: "u32 list" where
  "final_levels = [0x01000098, 0x0100009f, 0x010000af]"

definition check_final_patch_levels :: "u8 \<Rightarrow> ucode_cpu_info \<Rightarrow> bool option" where
  "check_final_patch_levels family uci =
     (if family \<noteq> 0x10 then Some False
      else do {
        r \<leftarrow> search (\<lambda>i. do {
            level \<leftarrow> at final_levels i;
            Some (sig_rev uci = level) }) 0 3;
        Some (r \<noteq> None) })"

section \<open>Requests\<close>

text \<open>
  \<open>new\<close> is what \<open>malloc\<close> returns, \<open>mc\<close> the undetermined contents of the new object. The result is
  the error code and the pointers passed to \<open>xfree\<close>. Nothing assigns \<open>applied_offset\<close>.
\<close>

definition amd_cpu_request_microcode ::
    "u8 \<Rightarrow> ucode_cpu_info \<Rightarrow> (u32 \<Rightarrow> addr) \<Rightarrow> addr \<Rightarrow> microcode_amd \<Rightarrow> mem \<Rightarrow> addr \<Rightarrow> u32 \<Rightarrow>
     (int \<times> addr list) option" where
  "amd_cpu_request_microcode family uci xmalloc new mc m buf bufsize =
     (let offset = (0 :: u32); applied_offset = (0 :: u32); error = 0; save_error = 1 in do {
      magic \<leftarrow> load32 m buf;
      if magic \<noteq> UCODE_MAGIC then Some (- 101, [])
      else do {
        final \<leftarrow> check_final_patch_levels family uci;
        if final then Some (- 8, [])
        else if new = NULL then Some (- 1, [])
        else let mc_old = mc_amd uci; mc = mc\<lparr>mpb := NULL, mpb_size := 0\<rparr>; last_offset = offset in do {
          (error, save_error) \<leftarrow>
            (if c_true applied_offset then do {
               (r, mc, applied_offset) \<leftarrow> get_ucode_from_buffer_amd xmalloc m mc buf bufsize applied_offset;
               Some (if r \<noteq> 0 then r else error, r) }
             else Some (error, save_error));
          Some (error, if save_error \<noteq> 0 then [new] else [mc_old]) } } })"

text \<open>
  \<open>new\<close>, \<open>table\<close> and \<open>patch\<close> are what the three allocations return, \<open>mc\<close> the undetermined contents of
  the new object. The local \<open>mc_amd\<close> is not written back to \<open>uci\<close>.
\<close>

definition amd_resume_match ::
    "u8 \<Rightarrow> u32 \<Rightarrow> u32 \<Rightarrow> ucode_cpu_info \<Rightarrow> mem \<Rightarrow> addr \<Rightarrow> microcode_amd \<Rightarrow> addr \<Rightarrow> addr \<Rightarrow>
     addr \<Rightarrow> (addr \<rightharpoonup> microcode_amd) \<Rightarrow> (int \<times> (addr \<rightharpoonup> microcode_amd)) option" where
  "amd_resume_match family cpuid eqid uci m new mc table patch src heap = do {
     s \<leftarrow> heap src;
     fits \<leftarrow> microcode_fits family cpuid eqid uci m s;
     if \<not> fits then Some (0, heap)
     else if src \<noteq> mc_amd uci then do {
       _ \<leftarrow> (if mc_amd uci \<noteq> NULL then heap (mc_amd uci) else Some mc);
       if new = NULL then Some (- 1, heap)
       else let mc = mc\<lparr>equiv_cpu_table := table\<rparr> in
         if table = NULL then Some (- 1, heap(new \<mapsto> mc))
         else let mc = mc\<lparr>mpb := patch\<rparr> in
           if patch = NULL then Some (- 1, heap(new \<mapsto> mc))
           else Some (1, heap(new \<mapsto> mc\<lparr>equiv_cpu_table_size := equiv_cpu_table_size s,
             mpb_size := mpb_size s\<rparr>)) }
     else Some (1, heap) }"

section \<open>The equivalence table\<close>

text \<open>The entries \<open>es\<close> (installed processor, equivalent id) stand at \<open>p\<close>, followed by the end mark.\<close>

fun equiv_entries_at :: "mem \<Rightarrow> addr \<Rightarrow> (u32 \<times> u16) list \<Rightarrow> bool" where
  "equiv_entries_at m p [] \<longleftrightarrow> entry_installed m p = Some 0"
| "equiv_entries_at m p ((installed, q) # es) \<longleftrightarrow>
     installed \<noteq> 0 \<and> entry_installed m p = Some installed \<and> entry_equiv m p = Some q \<and>
     equiv_entries_at m (p + sizeof_equiv_cpu_entry) es"

lemma find_equiv_loop_table:
  assumes "equiv_entries_at m (table + sizeof_equiv_cpu_entry * unat i) es"
    and "unat i + length es < 2 ^ 32"
  shows "find_equiv_loop m table current eqid i = Some (case find (\<lambda>e. fst e = current) es of
    Some e \<Rightarrow> (True, ucast (snd e) AND 0xffff) | None \<Rightarrow> (False, eqid))"
  using assms
proof (induction es arbitrary: i)
  case Nil
  then show ?case by (subst find_equiv_loop.simps) (simp add: Let_def)
next
  case (Cons e es)
  obtain installed q where e: "e = (installed, q)" by (cases e)
  have i: "unat (i + 1) = Suc (unat i)"
    using Cons.prems(2) by (intro unat_plus_1) (auto simp: unsigned_minus_1_eq_mask mask_eq_exp_minus_1)
  have "find_equiv_loop m table current eqid (i + 1) = Some (case find (\<lambda>e. fst e = current) es of
    Some e \<Rightarrow> (True, ucast (snd e) AND 0xffff) | None \<Rightarrow> (False, eqid))"
    by (rule Cons.IH) (use Cons.prems e i in \<open>simp_all add: algebra_simps\<close>)
  then show ?case
    using Cons.prems e by (subst find_equiv_loop.simps) (auto simp: Let_def)
qed

text \<open>Sixteen bits of a 16-bit value are all of it.\<close>

lemma ucast_and_ffff [simp]: "(ucast q :: u32) AND 0xffff = ucast q" for q :: u16
proof -
  have "(0xffff :: u32) = mask 16" by (simp add: mask_eq_exp_minus_1)
  then show ?thesis by (simp add: bit_eq_iff bit_simps) (auto dest: bit_imp_le_length)
qed

lemma ucast_eq_iff_u16: "(ucast a :: u32) = ucast b \<longleftrightarrow> a = b" for a b :: u16
  by (simp add: word_uint_eq_iff uint_up_ucast is_up)

text \<open>
  C39. For a processor and a table with an end mark, \<open>microcode_fits\<close> accepts a patch exactly when
  the first table entry of this processor names the patch's processor revision, the patch is no
  larger than the family allows, and it is newer than the microcode that runs.
\<close>

theorem microcode_fits_iff:
  assumes "equiv_cpu_table mc \<noteq> NULL" "equiv_entries_at m (equiv_cpu_table mc) es" "length es < 2 ^ 32"
    and "hdr_processor_rev m (mpb mc) = Some revision" "hdr_patch_id m (mpb mc) = Some patch"
  shows "microcode_fits family cpuid eqid uci m mc = Some
    (map_option snd (find (\<lambda>e. fst e = cpuid) es) = Some revision \<and>
     verify_patch_size family (mpb_size mc) \<and> sig_rev uci < patch)"
proof -
  have "find_equiv_cpu_id m (equiv_cpu_table mc) cpuid eqid = Some (case find (\<lambda>e. fst e = cpuid) es of
    Some e \<Rightarrow> (True, ucast (snd e)) | None \<Rightarrow> (False, eqid))"
    using assms(1-3) find_equiv_loop_table [of m "equiv_cpu_table mc" 0 es]
    by (simp add: find_equiv_cpu_id_def split: option.split)
  then show ?thesis
    using assms(4,5)
    by (auto simp: microcode_fits_def not_le ucast_eq_iff_u16 split: option.splits)
qed

text \<open>A memory with one entry for processor 5, its end mark, and a patch header at address 40.\<close>

definition fits_example :: mem where
  "fits_example = replicate 4 0 @ [5,0,0,0, 0,0,0,0, 0,0,0,0, 9,0,0,0] @ replicate 20 0 @
     [0,0,0,0, 7,0,0,0] @ replicate 16 0 @ [9,0]"

theorem microcode_fits_iff_witness:
  "microcode_fits 0x15 5 0 \<lparr>sig_rev = 6, mc_amd = 0\<rparr> fits_example
     \<lparr>mpb = 40, mpb_size = 100, equiv_cpu_table = 4, equiv_cpu_table_size = 32\<rparr> = Some True"
proof -
  let ?mc = "\<lparr>mpb = 40, mpb_size = 100, equiv_cpu_table = 4, equiv_cpu_table_size = 32\<rparr>"
  have m: "fits_example = [0,0,0,0, 5,0,0,0, 0,0,0,0, 0,0,0,0, 9,0,0,0, 0,0,0,0, 0,0,0,0, 0,0,0,0,
      0,0,0,0, 0,0,0,0, 0,0,0,0, 7,0,0,0, 0,0,0,0, 0,0,0,0, 0,0,0,0, 0,0,0,0, 9,0]"
    by (simp add: fits_example_def numeral_eq_Suc)
  have "equiv_entries_at fits_example 4 [(5, 9)]"
    by (simp add: m entry_installed_def entry_equiv_def sizeof_equiv_cpu_entry_def load32_def load16_def load_def)
  moreover have "hdr_processor_rev fits_example 40 = Some 9" "hdr_patch_id fits_example 40 = Some 7"
    by (simp_all add: m hdr_processor_rev_def hdr_patch_id_def load32_def load16_def load_def)
  ultimately show ?thesis
    using microcode_fits_iff [of ?mc fits_example "[(5, 9)]" 9 7 "0x15" 5 0 "\<lparr>sig_rev = 6, mc_amd = 0\<rparr>"]
    by (simp add: verify_patch_size_def)
qed

section \<open>Walking the container\<close>

text \<open>
  The patches of the given sizes stand one after the other where \<open>container_fast_forward\<close> looks for
  them: at the offset counted in words of four bytes.
\<close>

fun patches_at :: "mem \<Rightarrow> addr \<Rightarrow> u32 \<Rightarrow> u32 \<Rightarrow> u32 list \<Rightarrow> bool" where
  "patches_at m data left offset [] \<longleftrightarrow> True"
| "patches_at m data left offset (sz # szs) \<longleftrightarrow>
     load32 m (data + 4 * unat offset) = Some 1 \<and>
     load32 m (data + 4 * unat offset + 4) = Some (sz - 8) \<and>
     32 \<le> sz \<and> sz \<le> left \<and> patches_at m data (left - sz) (offset + sz) szs"

lemma patches_at_bound: "patches_at m data left offset szs \<Longrightarrow> sum_list (map unat szs) \<le> unat left"
proof (induction szs arbitrary: left offset)
  case (Cons sz szs)
  then have "sum_list (map unat szs) \<le> unat (left - sz)" "sz \<le> left" by auto
  then show ?case by (simp add: unat_sub word_le_nat_alt)
qed simp

lemma patches_at_length: "patches_at m data left offset szs \<Longrightarrow> 32 * length szs \<le> sum_list (map unat szs)"
proof (induction szs arbitrary: left offset)
  case (Cons sz szs)
  have "32 \<le> unat sz" using Cons.prems by (simp add: word_le_nat_alt)
  with Cons show ?case by fastforce
qed simp

text \<open>One step of the walk, at headers that can be read.\<close>

lemma container_fast_forward_step:
  assumes "8 \<le> left" "load32 m (data + sizeof_u32 * unat offset) = Some h0"
    "load32 m (data + sizeof_u32 * unat offset + 4) = Some h1"
  shows "container_fast_forward m data left offset =
      (if h0 = UCODE_MAGIC \<and> h1 = 0 then Some (0, offset)
       else if h0 \<noteq> 1 then Some (- 101, offset)
       else if h1 + 8 < 32 \<or> left < h1 + 8 then Some (- 101, offset)
       else if left - (h1 + 8) = 0 then Some (- 4, offset + (h1 + 8))
       else container_fast_forward m data (left - (h1 + 8)) (offset + (h1 + 8)))"
  using assms(2,3) leD [OF assms(1)]
  by (subst container_fast_forward.simps) (simp only: Let_def if_False Option.bind.simps)

text \<open>
  Where a walk stops, with \<open>left\<close> bytes left and, if \<open>skipped\<close>, a patch skipped before: at the end of the
  container, with too little left for a header, or at a header that is not a patch's.
\<close>

definition walk_stops :: "mem \<Rightarrow> addr \<Rightarrow> u32 \<Rightarrow> u32 \<Rightarrow> bool \<Rightarrow> int \<Rightarrow> bool" where
  "walk_stops m data left offset skipped r \<longleftrightarrow>
     (if left = 0 \<and> skipped then r = - 4
      else if left < 8 then r = - 101
      else \<exists>h0 h1. load32 m (data + 4 * unat offset) = Some h0 \<and> load32 m (data + 4 * unat offset + 4) = Some h1 \<and>
        (if h0 = UCODE_MAGIC \<and> h1 = 0 then r = 0
         else r = - 101 \<and> \<not> (h0 = 1 \<and> 32 \<le> h1 + 8 \<and> h1 + 8 \<le> left)))"

definition walks :: "mem \<Rightarrow> addr \<Rightarrow> u32 \<Rightarrow> u32 \<Rightarrow> bool \<Rightarrow> int \<Rightarrow> u32 \<Rightarrow> bool" where
  "walks m data left offset skipped r offset' \<longleftrightarrow>
     (\<exists>szs. patches_at m data left offset szs \<and> offset' = offset + sum_list szs \<and>
       walk_stops m data (left - sum_list szs) offset' (skipped \<or> szs \<noteq> []) r)"

lemma walks_nothing: "walk_stops m data left offset skipped r \<Longrightarrow> walks m data left offset skipped r offset"
  unfolding walks_def by (intro exI [of _ "[]"]) simp

lemma walks_patch:
  assumes "load32 m (data + sizeof_u32 * unat offset) = Some 1"
    and "load32 m (data + sizeof_u32 * unat offset + 4) = Some (sz - 8)" "32 \<le> sz" "sz \<le> left"
    and "walks m data (left - sz) (offset + sz) True r offset'"
  shows "walks m data left offset skipped r offset'"
proof -
  obtain szs where "patches_at m data (left - sz) (offset + sz) szs" "offset' = offset + sz + sum_list szs"
    "walk_stops m data (left - sz - sum_list szs) offset' True r"
    using assms(5) by (auto simp: walks_def)
  then show ?thesis
    using assms(1-4) unfolding walks_def
    by (intro exI [of _ "sz # szs"]) (simp add: sizeof_u32_def algebra_simps)
qed

lemma walks_skipped: "left \<noteq> 0 \<Longrightarrow> walks m data left offset False r offset' \<Longrightarrow> walks m data left offset True r offset'"
proof -
  assume l: "left \<noteq> 0" and w: "walks m data left offset False r offset'"
  from w obtain szs where szs: "patches_at m data left offset szs" "offset' = offset + sum_list szs"
      "walk_stops m data (left - sum_list szs) offset' (szs \<noteq> []) r" by (auto simp: walks_def)
  then have "walk_stops m data (left - sum_list szs) offset' True r"
    using l by (cases szs) (simp_all add: walk_stops_def)
  with szs show ?thesis by (auto simp: walks_def)
qed

lemma container_fast_forward_walk:
  "container_fast_forward m data left offset = Some (r, offset') \<Longrightarrow> walks m data left offset False r offset'"
proof (induction m data left offset arbitrary: r offset' rule: container_fast_forward.induct)
  case (1 m data left offset)
  let ?h = "data + sizeof_u32 * unat offset"
  consider "left < 8" | h0 h1 where "8 \<le> left" "load32 m ?h = Some h0" "load32 m (?h + 4) = Some h1"
    using 1(2) by (cases "left < 8"; cases "load32 m ?h"; cases "load32 m (?h + 4)")
      (auto simp: container_fast_forward.simps [of m data left offset] not_less)
  then show ?case
  proof cases
    case 1
    then show ?thesis using "1.prems" walks_nothing [of m data left offset False "- 101"]
      by (simp add: walk_stops_def container_fast_forward.simps [of m data left offset])
  next
    case (2 h0 h1)
    note run = container_fast_forward_step [OF 2]
    show ?thesis
    proof (cases "\<not> (h0 = UCODE_MAGIC \<and> h1 = 0) \<and> h0 = 1 \<and> 32 \<le> h1 + 8 \<and> h1 + 8 \<le> left")
      case False
      then have "offset' = offset" "walk_stops m data left offset False r"
        using "1.prems" run 2 leD [OF 2(1)]
        by (auto simp: walk_stops_def sizeof_u32_def not_less not_le UCODE_MAGIC_def split: if_splits)
      then show ?thesis using walks_nothing by simp
    next
      case patch: True
      have "walks m data (left - (h1 + 8)) (offset + (h1 + 8)) True r offset'"
      proof (cases "left - (h1 + 8) = 0")
        case True
        then show ?thesis using "1.prems" run patch walks_nothing [of m data 0 offset' True r]
          by (auto simp: walk_stops_def split: if_splits)
      next
        case False
        then show ?thesis
          using "1.prems" run patch 2(1)
          by (intro walks_skipped [OF False] "1.IH" [OF _ refl 2(2,3) _ _ refl _ refl refl])
            (auto simp: not_less split: if_splits)
      qed
      then show ?thesis by (rule walks_patch [rotated -1]) (use patch 2 in simp_all)
    qed
  qed
qed

text \<open>Conversely, every such walk is one of \<open>container_fast_forward\<close>.\<close>

lemma patches_nothing_left: "patches_at m data 0 offset szs \<Longrightarrow> szs = []"
  by (cases szs) (auto simp: word_le_nat_alt)

lemma walk_container_fast_forward:
  "patches_at m data left offset szs \<Longrightarrow>
   walk_stops m data (left - sum_list szs) (offset + sum_list szs) (szs \<noteq> []) r \<Longrightarrow>
   container_fast_forward m data left offset = Some (r, offset + sum_list szs)"
proof (induction szs arbitrary: left offset)
  case Nil
  show ?case
  proof (cases "left < 8")
    case True
    then show ?thesis using Nil by (simp add: walk_stops_def container_fast_forward.simps [of m data left offset])
  next
    case False
    then obtain h0 h1 where h: "load32 m (data + sizeof_u32 * unat offset) = Some h0"
        "load32 m (data + sizeof_u32 * unat offset + 4) = Some h1"
      and r: "if h0 = UCODE_MAGIC \<and> h1 = 0 then r = 0
         else r = - 101 \<and> \<not> (h0 = 1 \<and> 32 \<le> h1 + 8 \<and> h1 + 8 \<le> left)"
      using Nil by (auto simp: walk_stops_def sizeof_u32_def)
    show ?thesis
      using r unfolding container_fast_forward_step [OF leI [OF False] h] by (auto simp: not_less split: if_splits)
  qed
next
  case (Cons sz szs)
  have h: "load32 m (data + sizeof_u32 * unat offset) = Some 1"
    "load32 m (data + sizeof_u32 * unat offset + 4) = Some (sz - 8)"
    and sz: "32 \<le> sz" "sz \<le> left" and rest: "patches_at m data (left - sz) (offset + sz) szs"
    using Cons.prems(1) by (auto simp: sizeof_u32_def)
  have "8 \<le> left" using sz by (intro order.trans [of 8 32 left] order.trans [of 32 sz left]) simp_all
  note step = container_fast_forward_step [OF this h]
  have stop: "walk_stops m data (left - sz - sum_list szs) (offset + sz + sum_list szs) True r"
    using Cons.prems(2) by (simp add: algebra_simps)
  show ?case
  proof (cases "left - sz = 0")
    case True
    then have "szs = []" using rest patches_nothing_left by metis
    then show ?thesis using step sz True stop by (simp add: UCODE_MAGIC_def walk_stops_def not_less)
  next
    case False
    have "walk_stops m data (left - sz - sum_list szs) (offset + sz + sum_list szs) (szs \<noteq> []) r"
      using stop False by (cases szs) (auto simp: walk_stops_def)
    from Cons.IH [OF rest this] show ?thesis
      using step leD [OF sz(1)] leD [OF sz(2)] False by (simp add: UCODE_MAGIC_def add.assoc)
  qed
qed

section \<open>What the loader guarantees\<close>

text \<open>
  C17. What \<open>container_fast_forward\<close> returns, exactly: it skips a run of well-formed patches, at most
  one per 32 bytes and never more than the bytes left, advances the offset by exactly their sizes, and
  stops for one of four reasons, which determines the result. Nothing is left behind a patch: -4. Less
  than a header of 8 bytes is left: -101. The next two words are the magic number and 0, a container's
  header: 0. They are neither that nor the header of a patch of at least 32 bytes that fits into what
  is left: -101. (No result stands for a header outside the mapped memory.)
\<close>

theorem container_fast_forward_skips:
  "container_fast_forward m data left offset = Some (r, offset') \<longleftrightarrow>
   (\<exists>szs. patches_at m data left offset szs \<and> offset' = offset + sum_list szs \<and>
      32 * length szs \<le> sum_list (map unat szs) \<and> sum_list (map unat szs) \<le> unat left \<and>
      (let rest = left - sum_list szs in
       if rest = 0 \<and> szs \<noteq> [] then r = - 4
       else if rest < 8 then r = - 101
       else \<exists>h0 h1. load32 m (data + 4 * unat offset') = Some h0 \<and>
         load32 m (data + 4 * unat offset' + 4) = Some h1 \<and>
         (if h0 = UCODE_MAGIC \<and> h1 = 0 then r = 0
          else r = - 101 \<and> \<not> (h0 = 1 \<and> 32 \<le> h1 + 8 \<and> h1 + 8 \<le> rest))))"
    (is "?run \<longleftrightarrow> (\<exists>szs. ?ends szs)")
proof
  assume ?run
  then obtain szs where "patches_at m data left offset szs" "offset' = offset + sum_list szs"
      "walk_stops m data (left - sum_list szs) offset' (szs \<noteq> []) r"
    using container_fast_forward_walk [of m data left offset r offset'] unfolding walks_def by auto
  then show "\<exists>szs. ?ends szs"
    using patches_at_bound patches_at_length unfolding walk_stops_def Let_def by blast
next
  assume "\<exists>szs. ?ends szs"
  then obtain szs where szs: "patches_at m data left offset szs" "offset' = offset + sum_list szs"
      "walk_stops m data (left - sum_list szs) offset' (szs \<noteq> []) r"
    unfolding walk_stops_def Let_def by blast
  then show ?run using walk_container_fast_forward [OF szs(1)] by simp
qed

definition container_example :: mem where
  "container_example = replicate 4 0 @ [1,0,0,0, 24,0,0,0] @ replicate 120 0 @ [0x44,0x4d,0x41,0, 0,0,0,0]"

lemma container_example_run: "container_fast_forward container_example 4 60 0 = Some (0, 32)"
proof -
  have "length container_example = 140" by (simp add: container_example_def)
  moreover have "container_example ! 132 = 0x44" "container_example ! 133 = 0x4d" "container_example ! 134 = 0x41"
    "container_example ! 135 = 0" "container_example ! 136 = 0" "container_example ! 137 = 0"
    "container_example ! 138 = 0" "container_example ! 139 = 0"
    by (simp_all add: container_example_def nth_append)
  moreover have "container_example ! 4 = 1" "container_example ! 5 = 0" "container_example ! 6 = 0"
    "container_example ! 7 = 0" "container_example ! 8 = 24" "container_example ! 9 = 0"
    "container_example ! 10 = 0" "container_example ! 11 = 0"
    by (simp_all add: container_example_def nth_append)
  ultimately have "load32 container_example 4 = Some 1" "load32 container_example 8 = Some 24"
    "load32 container_example 132 = Some UCODE_MAGIC" "load32 container_example 136 = Some 0"
    by (simp_all add: load32_def load_def UCODE_MAGIC_def)
  then show ?thesis
    by (subst container_fast_forward.simps, simp add: sizeof_u32_def UCODE_MAGIC_def)
      (subst container_fast_forward.simps, simp add: sizeof_u32_def UCODE_MAGIC_def)
qed

theorem container_fast_forward_skips_witness:
  "(\<exists>szs. patches_at container_example 4 60 0 szs \<and> 32 = sum_list szs) \<and>
   container_fast_forward [0,0,0,0, 7,0,0,0, 0,0,0,0] 4 8 0 = Some (- 101, 0)"
proof (rule conjI)
  show "\<exists>szs. patches_at container_example 4 60 0 szs \<and> 32 = sum_list szs"
    using container_example_run unfolding container_fast_forward_skips by auto
  show "container_fast_forward [0,0,0,0, 7,0,0,0, 0,0,0,0] 4 8 0 = Some (- 101, 0)"
    unfolding container_fast_forward_skips
    by (intro exI [of _ "[]"]) (simp add: load32_def load_def UCODE_MAGIC_def)
qed

text \<open>
  The offset counts bytes but is added to a pointer to 32-bit words. In a container that lies
  at the end of the mapped memory, a first patch of a quarter of its size or more makes the second
  step read outside.
\<close>

theorem container_fast_forward_overreads:
  assumes "length m = data + unat left" "load32 m data = Some 1" "load32 m (data + 4) = Some (sz - 8)"
    and "32 \<le> sz" "sz + 8 \<le> left" "sz < sz + 8" "unat left \<le> 4 * unat sz"
  shows "container_fast_forward m data left 0 = None"
proof -
  have lt: "sz < left" using assms(5,6) by (rule order.strict_trans2 [rotated])
  have left: "\<not> left < 8" "\<not> left < sz" "left - sz \<noteq> 0" "\<not> sz < 32"
    using lt assms(4) by (auto simp: not_less intro: order.trans [of 8 32])
  have first: "container_fast_forward m data left 0 = container_fast_forward m data (left - sz) sz"
    using assms(2,3) left
    by (subst container_fast_forward.simps) (simp add: UCODE_MAGIC_def)
  have "unat (sz + 8) = unat sz + 8"
    using assms(6) unat_plus_simple [of sz 8] by (simp add: order.strict_implies_order)
  then have "8 \<le> unat (left - sz)"
    using assms(5) lt by (simp add: unat_sub word_le_nat_alt order.strict_implies_order)
  then have "\<not> left - sz < 8" by (simp add: not_less word_le_nat_alt)
  moreover have "load32 m (data + sizeof_u32 * unat sz) = None"
    using assms(1,7) by (intro load32_outside) (simp add: sizeof_u32_def)
  ultimately show ?thesis
    unfolding first by (subst container_fast_forward.simps) simp
qed

theorem container_fast_forward_overreads_witness:
  "container_fast_forward ([0,0,0,0, 1,0,0,0, 24,0,0,0] @ replicate 32 0) 4 40 0 = None"
  by (rule container_fast_forward_overreads [where sz = 32])
    (simp_all add: load32_def load_def nth_append)

text \<open>
  \<open>get_ucode_from_buffer_amd\<close> keeps "no buffer has size 0". On success the buffer holds the whole
  patch and the offset is past it; on every error the offset is unchanged.
\<close>

definition amd_ok :: "microcode_amd \<Rightarrow> bool" where
  "amd_ok mc \<longleftrightarrow> (mpb mc = NULL \<longrightarrow> mpb_size mc = 0)"

theorem get_ucode_from_buffer_amd_contract:
  assumes "get_ucode_from_buffer_amd xmalloc m mc buf bufsize offset = Some (r, mc', offset')" "amd_ok mc"
  shows "amd_ok mc' \<and>
    (if r = 0 then \<exists>len. mpb_len m (buf + 8 * unat offset) = Some len \<and> offset' = offset + len + 8 \<and>
       len \<le> mpb_size mc' \<and> offset < bufsize \<and> offset + len \<le> bufsize
     else offset' = offset)"
proof (cases "bufsize \<le> offset")
  case True
  then show ?thesis using assms by (simp add: get_ucode_from_buffer_amd_def)
next
  case False
  then obtain type where type: "mpb_type m (buf + 8 * unat offset) = Some type"
    using assms(1) by (cases "mpb_type m (buf + 8 * unat offset)")
      (simp_all add: get_ucode_from_buffer_amd_def sizeof_mpbhdr_def Let_def)
  show ?thesis
  proof (cases "type = 1")
    case False
    with \<open>\<not> bufsize \<le> offset\<close> type show ?thesis
      using assms by (simp add: get_ucode_from_buffer_amd_def sizeof_mpbhdr_def Let_def)
  next
    case True
    with False type obtain len where len: "mpb_len m (buf + 8 * unat offset) = Some len"
      using assms(1) by (cases "mpb_len m (buf + 8 * unat offset)")
        (simp_all add: get_ucode_from_buffer_amd_def sizeof_mpbhdr_def Let_def)
    show ?thesis
      using False True type len assms
      by (simp add: get_ucode_from_buffer_amd_def amd_ok_def sizeof_mpbhdr_def Let_def
          split: if_splits) (auto simp: not_less word_gt_0)
  qed
qed

theorem get_ucode_from_buffer_amd_contract_witness:
  "\<exists>mc' offset'. get_ucode_from_buffer_amd (\<lambda>_. 90) ([0,0,0,0, 1,0,0,0, 24,0,0,0] @ replicate 32 0)
     \<lparr>mpb = 0, mpb_size = 0, equiv_cpu_table = 0, equiv_cpu_table_size = 0\<rparr> 4 40 0 =
     Some (0, mc', offset') \<and> amd_ok mc' \<and> offset' = 32"
proof -
  let ?m = "[0,0,0,0, 1,0,0,0, 24,0,0,0] @ replicate 32 0 :: mem"
  let ?mc = "\<lparr>mpb = 0, mpb_size = 0, equiv_cpu_table = 0, equiv_cpu_table_size = 0\<rparr>"
  have len: "mpb_len ?m 4 = Some 24" by (simp add: mpb_len_def load32_def load_def nth_append)
  have run: "\<exists>mc' offset'. get_ucode_from_buffer_amd (\<lambda>_. 90) ?m ?mc 4 40 0 = Some (0, mc', offset')"
    by (simp add: get_ucode_from_buffer_amd_def mpb_type_def mpb_len_def load32_def load_def nth_append)
  then show ?thesis
    using get_ucode_from_buffer_amd_contract [of "\<lambda>_. 90" ?m ?mc 4 40 0 0] len by (auto simp: amd_ok_def)
qed

text \<open>
  The bound test adds the offset and the length in 32 bits. A length that wraps the sum to 0
  passes it: a patch longer than the whole buffer is accepted and the offset moves back to 8.
\<close>

theorem get_ucode_from_buffer_amd_wraps:
  assumes "0 < offset" "offset < bufsize"
    and "mpb_type m (buf + 8 * unat offset) = Some 1" "mpb_len m (buf + 8 * unat offset) = Some (- offset)"
    and "mpb_size mc < - offset" "xmalloc (- offset) \<noteq> NULL"
  shows "\<exists>mc'. get_ucode_from_buffer_amd xmalloc m mc buf bufsize offset = Some (0, mc', 8) \<and>
    mpb_size mc' = - offset"
  using assms
  by (auto simp: get_ucode_from_buffer_amd_def Let_def sizeof_mpbhdr_def not_le)

theorem get_ucode_from_buffer_amd_wraps_witness:
  "\<exists>mc'. get_ucode_from_buffer_amd (\<lambda>_. 90) (replicate 12 0 @ [1,0,0,0, 0xff,0xff,0xff,0xff])
     \<lparr>mpb = 0, mpb_size = 0, equiv_cpu_table = 0, equiv_cpu_table_size = 0\<rparr> 4 16 1 = Some (0, mc', 8)"
proof -
  have "mpb_type (replicate 12 0 @ [1,0,0,0, 0xff,0xff,0xff,0xff]) (4 + 8 * unat (1 :: u32)) = Some 1"
    by (simp add: mpb_type_def load32_def load_def nth_append)
  moreover have "mpb_len (replicate 12 0 @ [1,0,0,0, 0xff,0xff,0xff,0xff]) (4 + 8 * unat (1 :: u32)) = Some (- 1)"
    by (simp add: mpb_len_def load32_def load_def nth_append)
  ultimately show ?thesis
    using get_ucode_from_buffer_amd_wraps [of 1 16 _ 4 "\<lparr>mpb = 0, mpb_size = 0, equiv_cpu_table = 0, equiv_cpu_table_size = 0\<rparr>" "\<lambda>_. 90"]
    by (auto simp: word_gt_0)
qed

text \<open>
  A request never looks past the first word of the container: whatever patches follow, it
  reads none of them, frees the object it allocated, and reports success.
\<close>

theorem amd_cpu_request_loads_nothing:
  "amd_cpu_request_microcode family uci xmalloc new mc m buf bufsize =
   (case load32 m buf of
      None \<Rightarrow> None
    | Some magic \<Rightarrow> Some (if magic \<noteq> UCODE_MAGIC then (- 101, [])
        else if family = 0x10 \<and> sig_rev uci \<in> set final_levels then (- 8, [])
        else if new = NULL then (- 1, [])
        else (0, [new])))"
proof -
  have "check_final_patch_levels family uci = Some (family = 0x10 \<and> sig_rev uci \<in> set final_levels)"
    by (auto simp: check_final_patch_levels_def final_levels_def at_def search.simps)
  then show ?thesis
    by (cases "load32 m buf") (auto simp: amd_cpu_request_microcode_def)
qed

end
