(* ===== verification/Microcode_Intel.thy ===== *)
theory Microcode_Intel
  imports C_String C_Loops
begin

text \<open>
  The Intel microcode loader of intel_verified.c. The update file and the updates are read from the
  byte memory; \<open>unsigned long\<close> and \<open>size_t\<close> have 32 bits, as in the rest of the development, and a
  \<open>long\<close> is an \<open>int\<close> of that range. Locals that are read uninitialised (the pointers \<open>mc\<close>, \<open>new_mc\<close>
  and \<open>ext_header\<close>, whose assignments are commented out, and \<open>msr_content\<close>) are parameters.
\<close>

section \<open>Data\<close>

record cpu_signature =
  isig :: u32
  ipf :: u32
  irev :: u32

text \<open>\<open>struct ucode_cpu_info\<close>; the union holds the pointer to the Intel update.\<close>

record intel_cpu =
  cpu_sig :: cpu_signature
  mc_intel :: addr

text \<open>The fields of \<open>struct cpuinfo_x86\<close> that \<open>collect_cpu_info\<close> reads.\<close>

record intel_cpuinfo =
  ci_x86 :: u8
  ci_vendor :: u8
  ci_model :: u8

text \<open>Sizes in bytes, and the fields of \<open>struct microcode_header_intel\<close> by their offsets.\<close>

definition sizeof_hdr :: nat where "sizeof_hdr = 52"
definition sizeof_sigtable :: nat where "sizeof_sigtable = 20"
definition sizeof_signature :: nat where "sizeof_signature = 12"
definition sizeof_csig :: nat where "sizeof_csig = 12"

definition hdr_hdrver :: "mem \<Rightarrow> addr \<Rightarrow> u32 option" where "hdr_hdrver m p = load32 m p"
definition hdr_rev :: "mem \<Rightarrow> addr \<Rightarrow> u32 option" where "hdr_rev m p = load32 m (p + 4)"
definition hdr_sig :: "mem \<Rightarrow> addr \<Rightarrow> u32 option" where "hdr_sig m p = load32 m (p + 16)"
definition hdr_cksum :: "mem \<Rightarrow> addr \<Rightarrow> u32 option" where "hdr_cksum m p = load32 m (p + 20)"
definition hdr_ldrver :: "mem \<Rightarrow> addr \<Rightarrow> u32 option" where "hdr_ldrver m p = load32 m (p + 24)"
definition hdr_pf :: "mem \<Rightarrow> addr \<Rightarrow> u32 option" where "hdr_pf m p = load32 m (p + 28)"

lemmas sizes = sizeof_hdr_def sizeof_sigtable_def sizeof_signature_def sizeof_csig_def

lemmas hdr_fields = hdr_hdrver_def hdr_rev_def hdr_sig_def hdr_cksum_def hdr_ldrver_def hdr_pf_def

text \<open>The sizes a header gives, with the defaults for 0.\<close>

definition total_size_of :: "mem \<Rightarrow> addr \<Rightarrow> u32 option" where
  "total_size_of m p = do {
     t \<leftarrow> load32 m (p + 36);
     Some (if c_true t then t else 2000 + of_nat sizeof_hdr) }"

definition data_size_of :: "mem \<Rightarrow> addr \<Rightarrow> u32 option" where
  "data_size_of m p = do {
     d \<leftarrow> load32 m (p + 32);
     Some (if c_true d then d else 2000) }"

section \<open>The processor\<close>

text \<open>
  \<open>cpu_data\<close> is the array of the source read as \<open>struct cpuinfo_x86\<close>. The loop that clears \<open>csig\<close>
  writes its first byte each time: the pointer is not advanced.
\<close>

definition intel_collect_cpu_info ::
    "(u32 \<Rightarrow> intel_cpuinfo option) \<Rightarrow> u64 \<Rightarrow> u32 \<Rightarrow> cpu_signature \<Rightarrow> (int \<times> cpu_signature) option" where
  "intel_collect_cpu_info cpu_data msr_content cpu_num csig = do {
     c \<leftarrow> cpu_data cpu_num;
     csig \<leftarrow> for_loop (\<lambda>i csig. Some (csig\<lparr>isig := isig csig AND NOT 0xff\<rparr>)) 0 sizeof_csig csig;
     if ci_vendor c \<noteq> 1 \<or> ci_x86 c < 6 then Some (- 1, csig)
     else
       let csig = csig\<lparr>isig := 0\<rparr>;
           csig = (if ci_model c \<ge> 5 \<or> ci_x86 c > 6
             then csig\<lparr>ipf := push_bit (unat (drop_bit 50 msr_content AND 7)) 1\<rparr> else csig)
       in Some (0, csig\<lparr>irev := ucast (drop_bit 32 msr_content)\<rparr>) }"

definition microcode_update_match :: "mem \<Rightarrow> addr \<Rightarrow> u32 \<Rightarrow> u32 \<Rightarrow> intel_cpu \<Rightarrow> bool option" where
  "microcode_update_match m mc_header sig pf uci =
     (if sig = isig (cpu_sig uci) \<and>
         (pf AND ipf (cpu_sig uci) \<noteq> 0 \<or> pf = 0 \<and> ipf (cpu_sig uci) = 0)
      then do {
        r \<leftarrow> hdr_rev m mc_header;
        Some (r > irev (cpu_sig uci)) }
      else Some False)"

section \<open>Checking an update\<close>

text \<open>\<open>while (i--) sum += p[i]\<close> over an array of words.\<close>

fun sum_words :: "mem \<Rightarrow> addr \<Rightarrow> nat \<Rightarrow> u32 \<Rightarrow> u32 option" where
  "sum_words m p 0 acc = Some acc"
| "sum_words m p (Suc i) acc = do {
     w \<leftarrow> load32 m (p + 4 * i);
     sum_words m p i (acc + w) }"

text \<open>
  The loop over the extended signatures. The pointer has type \<open>struct extended_sigtable *\<close>, so what
  is added to it counts in units of \<open>sizeof_sigtable\<close> bytes.
\<close>

definition ext_signatures_ok :: "mem \<Rightarrow> addr \<Rightarrow> addr \<Rightarrow> u32 \<Rightarrow> u32 \<Rightarrow> int option" where
  "ext_signatures_ok m mc ext_header count orig_sum = do {
     r \<leftarrow> search (\<lambda>i. do {
         let ext_sig = ext_header + sizeof_sigtable * (sizeof_sigtable + sizeof_signature * i);
         sig \<leftarrow> hdr_sig m mc;
         pf \<leftarrow> hdr_pf m mc;
         cksum \<leftarrow> hdr_cksum m mc;
         esig \<leftarrow> load32 m ext_sig;
         epf \<leftarrow> load32 m (ext_sig + 4);
         ecksum \<leftarrow> load32 m (ext_sig + 8);
         Some (c_true (orig_sum - (sig + pf + cksum) + (esig + epf + ecksum))) }) 0 (unat count);
     Some (if r = None then 0 else - 101) }"

text \<open>\<open>ext_header\<close> is NULL in the source: the assignment that moves it is commented out.\<close>

definition microcode_sanity_check :: "mem \<Rightarrow> addr \<Rightarrow> int option" where
  "microcode_sanity_check m mc = do {
     let ext_header = NULL;
     total_size \<leftarrow> total_size_of m mc;
     data_size \<leftarrow> data_size_of m mc;
     if data_size + of_nat sizeof_hdr > total_size then Some (- 101)
     else do {
       ldrver \<leftarrow> hdr_ldrver m mc;
       hdrver \<leftarrow> hdr_hdrver m mc;
       if ldrver \<noteq> 1 \<or> hdrver \<noteq> 1 then Some (- 101)
       else
         let ext_table_size = total_size - (of_nat sizeof_hdr + data_size) in
         if ext_table_size \<noteq> 0 \<and>
            (ext_table_size < of_nat sizeof_sigtable \<or>
             (ext_table_size - of_nat sizeof_sigtable) mod of_nat sizeof_signature \<noteq> 0)
         then Some (- 101)
         else do {
           ext_sigcount \<leftarrow> (if ext_table_size \<noteq> 0 then load32 m ext_header else Some 0);
           if ext_table_size \<noteq> 0 \<and>
              ext_table_size \<noteq> ext_sigcount * of_nat sizeof_signature + of_nat sizeof_sigtable
           then Some (- 14)
           else do {
             ext_table_sum \<leftarrow> (if ext_table_size \<noteq> 0
               then sum_words m ext_header (unat ext_table_size div 4) 0 else Some 0);
             if ext_table_sum \<noteq> 0 then Some (- 101)
             else do {
               orig_sum \<leftarrow> sum_words m mc (unat (of_nat sizeof_hdr + data_size) div 4) 0;
               if orig_sum \<noteq> 0 then Some (- 101)
               else if ext_table_size = 0 then Some 0
               else ext_signatures_ok m mc ext_header ext_sigcount orig_sum } } } } }"

section \<open>Taking an update\<close>

definition get_matching_microcode ::
    "addr \<Rightarrow> addr \<Rightarrow> mem \<Rightarrow> addr \<Rightarrow> intel_cpu \<Rightarrow> (int \<times> mem \<times> intel_cpu) option" where
  "get_matching_microcode ext_header new_mc m mc uci = do {
     total_size \<leftarrow> total_size_of m mc;
     sig \<leftarrow> hdr_sig m mc;
     pf \<leftarrow> hdr_pf m mc;
     direct \<leftarrow> microcode_update_match m mc sig pf uci;
     found \<leftarrow> (if direct then Some True
       else do {
         data_size \<leftarrow> data_size_of m mc;
         if total_size \<le> data_size + of_nat sizeof_hdr then Some False
         else do {
           ext_sigcount \<leftarrow> load32 m ext_header;
           r \<leftarrow> search (\<lambda>i. do {
               let ext_sig = ext_header + sizeof_sigtable + sizeof_signature * i;
               esig \<leftarrow> load32 m ext_sig;
               epf \<leftarrow> load32 m (ext_sig + 4);
               microcode_update_match m mc esig epf uci }) 0 (nat (sint ext_sigcount));
           Some (r \<noteq> None) } });
     if \<not> found then Some (0, m, uci)
     else if new_mc = NULL then Some (- 12, m, uci)
     else do {
       m \<leftarrow> memcpy_loop m new_mc mc (nat (sint total_size));
       Some (1, m, uci\<lparr>mc_intel := new_mc\<rparr>) } }"

definition intel_apply_microcode :: "u64 \<Rightarrow> mem \<Rightarrow> intel_cpu \<Rightarrow> (int \<times> intel_cpu) option" where
  "intel_apply_microcode msr_content m uci =
     (if mc_intel uci = NULL then Some (- 101, uci)
      else do {
        r \<leftarrow> hdr_rev m (mc_intel uci);
        let val = ucast (drop_bit 32 msr_content);
        if val \<noteq> r then Some (- 5, uci)
        else Some (0, uci\<lparr>cpu_sig := (cpu_sig uci)\<lparr>irev := val\<rparr>\<rparr>) })"

text \<open>The result is the size of the update, not the offset behind it.\<close>

definition get_next_ucode_from_buffer ::
    "mem \<Rightarrow> addr \<Rightarrow> addr \<Rightarrow> u32 \<Rightarrow> int \<Rightarrow> (int \<times> mem) option" where
  "get_next_ucode_from_buffer m mc buf bufsize offset =
     (if offset \<ge> sint bufsize then Some (0, m)
      else do {
        let mc_header = nat (int buf + offset);
        total_size \<leftarrow> total_size_of m mc_header;
        if sint total_size > sint bufsize then Some (- 101, m)
        else if mc = NULL then Some (- 12, m)
        else do {
          m \<leftarrow> memcpy_loop m mc mc_header (nat (sint total_size));
          Some (sint total_size, m) } })"

section \<open>A request\<close>

text \<open>The locals of \<open>cpu_request_microcode\<close>, the memory and \<open>ucode_cpu_info\<close>; \<open>calls\<close> counts the passes.\<close>

record request =
  rq_offset :: int
  rq_error :: int
  matching_count :: u32
  rq_mem :: mem
  rq_uci :: intel_cpu
  calls :: nat

text \<open>
  One pass of the loop: \<open>Inl\<close> goes on, \<open>Inr\<close> leaves it. The uninitialised locals of the \<open>n\<close>-th call of
  \<open>get_matching_microcode\<close> are \<open>ext n\<close> and \<open>new_mc n\<close>.
\<close>

definition request_step ::
    "(nat \<Rightarrow> addr) \<Rightarrow> (nat \<Rightarrow> addr) \<Rightarrow> addr \<Rightarrow> addr \<Rightarrow> u32 \<Rightarrow> request \<Rightarrow> (request + request) option" where
  "request_step ext new_mc mc buf bufsize s = do {
     (off, m) \<leftarrow> get_next_ucode_from_buffer (rq_mem s) mc buf bufsize (rq_offset s);
     let s = s\<lparr>rq_offset := off, rq_mem := m\<rparr>;
     if \<not> off > 0 then Some (Inr s)
     else do {
       err \<leftarrow> microcode_sanity_check (rq_mem s) mc;
       let s = s\<lparr>rq_error := err\<rparr>;
       if err \<noteq> 0 then Some (Inr s)
       else do {
         (err, m, uci) \<leftarrow> get_matching_microcode (ext (calls s)) (new_mc (calls s)) (rq_mem s) mc (rq_uci s);
         let s = s\<lparr>rq_error := err, rq_mem := m, rq_uci := uci, calls := calls s + 1\<rparr>;
         if err < 0 then Some (Inr s)
         else if err = 1 then Some (Inl (s\<lparr>matching_count := matching_count s + 1, rq_error := 0\<rparr>))
         else Some (Inl s) } } }"

partial_function (option) request_loop ::
    "(nat \<Rightarrow> addr) \<Rightarrow> (nat \<Rightarrow> addr) \<Rightarrow> addr \<Rightarrow> addr \<Rightarrow> u32 \<Rightarrow> request \<Rightarrow> request option" where
  "request_loop ext new_mc mc buf bufsize s = do {
     r \<leftarrow> request_step ext new_mc mc buf bufsize s;
     case r of Inl s \<Rightarrow> request_loop ext new_mc mc buf bufsize s | Inr s \<Rightarrow> Some s }"

definition request_start :: "mem \<Rightarrow> intel_cpu \<Rightarrow> request" where
  "request_start m uci =
     \<lparr>rq_offset = 0, rq_error = 0, matching_count = 0, rq_mem = m, rq_uci = uci, calls = 0\<rparr>"

text \<open>With the call of \<open>xfree\<close> commented out, the first test after the loop guards the second.\<close>

definition intel_cpu_request_microcode ::
    "(nat \<Rightarrow> addr) \<Rightarrow> (nat \<Rightarrow> addr) \<Rightarrow> addr \<Rightarrow> u64 \<Rightarrow> addr \<Rightarrow> u32 \<Rightarrow> mem \<Rightarrow> intel_cpu \<Rightarrow>
     (int \<times> mem \<times> intel_cpu) option" where
  "intel_cpu_request_microcode ext new_mc mc msr_content buf bufsize m uci = do {
     s \<leftarrow> request_loop ext new_mc mc buf bufsize (request_start m uci);
     let error = (if rq_offset s > 0
       then if rq_offset s < 0 then rq_offset s else rq_error s
       else rq_error s);
     if error = 0 \<and> c_true (matching_count s) then do {
       (error, uci) \<leftarrow> intel_apply_microcode msr_content (rq_mem s) (rq_uci s);
       Some (error, rq_mem s, uci) }
     else Some (error, rq_mem s, rq_uci s) }"

definition intel_resume_match ::
    "addr \<Rightarrow> addr \<Rightarrow> mem \<Rightarrow> addr \<Rightarrow> intel_cpu \<Rightarrow> (int \<times> mem \<times> intel_cpu) option" where
  "intel_resume_match ext_header new_mc m mc uci = get_matching_microcode ext_header new_mc m mc uci"

definition start_update :: int where "start_update = 0"

text \<open>
  The assignment of \<open>microcode_ops\<close> is commented out, which puts \<open>return 0\<close> under the condition: for
  any other vendor the function ends without a value.
\<close>

definition microcode_init_intel :: "u8 \<Rightarrow> int option" where
  "microcode_init_intel vendor = (if vendor = 1 then Some 0 else None)"

section \<open>What a valid update is\<close>

text \<open>
  An update of \<open>n\<close> bytes without extended table: the header's sizes agree, the versions are 1 and the
  words add up to 0.
\<close>

definition checksum :: "mem \<Rightarrow> addr \<Rightarrow> nat \<Rightarrow> u32" where
  "checksum m p n = sum_list (map (\<lambda>i. word_at m (p + 4 * i)) [0..<n div 4])"

definition size_field :: "mem \<Rightarrow> addr \<Rightarrow> u32" where
  "size_field m p = (if word_at m (p + 36) = 0 then 2052 else word_at m (p + 36))"

definition data_field :: "mem \<Rightarrow> addr \<Rightarrow> u32" where
  "data_field m p = (if word_at m (p + 32) = 0 then 2000 else word_at m (p + 32))"

definition valid_update :: "mem \<Rightarrow> addr \<Rightarrow> nat \<Rightarrow> bool" where
  "valid_update m p n \<longleftrightarrow>
     mapped m p n \<and> 52 \<le> n \<and> n < 2 ^ 31 \<and> size_field m p = of_nat n \<and>
     data_field m p + 52 = of_nat n \<and> word_at m (p + 24) = 1 \<and> word_at m p = 1 \<and> checksum m p n = 0"

definition matches :: "mem \<Rightarrow> addr \<Rightarrow> intel_cpu \<Rightarrow> bool" where
  "matches m p uci \<longleftrightarrow>
     word_at m (p + 16) = isig (cpu_sig uci) \<and>
     (word_at m (p + 28) AND ipf (cpu_sig uci) \<noteq> 0 \<or> word_at m (p + 28) = 0 \<and> ipf (cpu_sig uci) = 0) \<and>
     word_at m (p + 4) > irev (cpu_sig uci)"

lemma sum_words_checksum:
  "mapped m p (4 * n) \<Longrightarrow> sum_words m p n acc = Some (acc + sum_list (map (\<lambda>i. word_at m (p + 4 * i)) [0..<n]))"
proof (induction n arbitrary: acc)
  case (Suc n)
  then have "mapped m (p + 4 * n) 4" "mapped m p (4 * n)" by (simp_all add: mapped_def)
  with Suc.IH show ?case by (simp add: load32_word_at algebra_simps)
qed simp

lemma header_fields:
  assumes "mapped m p 52"
  shows "total_size_of m p = Some (size_field m p)" "data_size_of m p = Some (data_field m p)"
    "hdr_hdrver m p = Some (word_at m p)" "hdr_rev m p = Some (word_at m (p + 4))"
    "hdr_sig m p = Some (word_at m (p + 16))" "hdr_cksum m p = Some (word_at m (p + 20))"
    "hdr_ldrver m p = Some (word_at m (p + 24))" "hdr_pf m p = Some (word_at m (p + 28))"
proof -
  have w: "load32 m (p + k) = Some (word_at m (p + k))" if "k \<le> 48" for k
    using assms that by (intro load32_word_at) (simp add: mapped_def)
  show "total_size_of m p = Some (size_field m p)" "data_size_of m p = Some (data_field m p)"
    "hdr_hdrver m p = Some (word_at m p)" "hdr_rev m p = Some (word_at m (p + 4))"
    "hdr_sig m p = Some (word_at m (p + 16))" "hdr_cksum m p = Some (word_at m (p + 20))"
    "hdr_ldrver m p = Some (word_at m (p + 24))" "hdr_pf m p = Some (word_at m (p + 28))"
    using w [of 0] w [of 4] w [of 16] w [of 20] w [of 24] w [of 28] w [of 32] w [of 36]
    by (simp_all add: total_size_of_def data_size_of_def hdr_fields size_field_def data_field_def
      sizeof_hdr_def c_true_def)
qed

lemma sum_words_block:
  "mapped m p n \<Longrightarrow> sum_words m p (n div 4) 0 = Some (checksum m p n)"
  using sum_words_checksum [of m p "n div 4" 0] mapped_mono [of m p n "4 * (n div 4)"]
  by (simp add: checksum_def)

lemma sanity_check_value:
  assumes "mapped m p 52" "mapped m p (unat (data_field m p + 52))"
  shows "microcode_sanity_check m p =
    (let data_end = data_field m p + 52; extended = size_field m p - data_end in
     if size_field m p < data_end \<or> word_at m (p + 24) \<noteq> 1 \<or> word_at m p \<noteq> 1 then Some (- 101)
     else if extended = 0 then Some (if checksum m p (unat data_end) = 0 then 0 else - 101)
     else if extended < 20 \<or> (extended - 20) mod 12 \<noteq> 0 then Some (- 101)
     else None)"
  using assms
  by (simp add: microcode_sanity_check_def header_fields sizes Let_def add.commute [of 52]
      sum_words_block cong: if_cong)

lemma update_sizes:
  assumes "valid_update m p n"
  shows "mapped m p 52" "unat (of_nat n :: u32) = n" "sint (of_nat n :: u32) = int n"
  using assms
  by (auto simp: valid_update_def mapped_def unsigned_of_nat signed_of_nat take_bit_nat_eq_self
      signed_take_bit_int_eq_self)

text \<open>A valid update of 56 bytes, and a memory with two of them at 4 and 60 and room for copies at 116 and 172.\<close>

definition example_update :: "u8 list" where
  "example_update =
     [1,0,0,0, 9,0,0,0, 0,0,0,0, 0,0,0,0, 5,0,0,0, 0xb3,0xff,0xff,0xff, 1,0,0,0, 1,0,0,0, 4,0,0,0,
      56,0,0,0, 0,0,0,0, 0,0,0,0, 0,0,0,0, 0,0,0,0]"

definition example_file :: mem where
  "example_file = replicate 4 0 @ example_update @ example_update @ replicate 112 0"

lemma length_example: "length example_update = 56" "length example_file = 228"
  by (simp_all add: example_update_def example_file_def)

lemma example_word:
  "i < 53 \<Longrightarrow> word_at example_file (4 + i) = word_at example_update i"
  "i < 53 \<Longrightarrow> word_at example_file (60 + i) = word_at example_update i"
  by (simp_all add: word_at_def example_file_def nth_append length_example add.commute [of 3])

lemma example_words:
  "word_at example_update 0 = 1" "word_at example_update 4 = 9" "word_at example_update 8 = 0"
  "word_at example_update 12 = 0" "word_at example_update 16 = 5"
  "word_at example_update 20 = 0xffffffb3" "word_at example_update 24 = 1"
  "word_at example_update 28 = 1" "word_at example_update 32 = 4" "word_at example_update 36 = 56"
  "word_at example_update 40 = 0" "word_at example_update 44 = 0" "word_at example_update 48 = 0"
  "word_at example_update 52 = 0"
  by (simp_all add: word_at_def example_update_def)
lemma example_valid: "valid_update example_file 4 56" "valid_update example_file 60 56"
proof -
  have upts: "[0..<14] = [0, 1, 2, 3, 4, 5, 6, 7, 8, 9, 10, 11, 12, 13 :: nat]" by (simp add: upt_rec)
  have "checksum example_update 0 56 = 0"
    by (simp add: checksum_def upts example_words)
  moreover have "checksum example_file p 56 = checksum example_update 0 56" if "p = 4 \<or> p = 60" for p
    unfolding checksum_def using that
    by (intro arg_cong [of _ _ sum_list] map_cong) (auto simp: example_word)
  ultimately have upd: "checksum example_file 4 56 = 0" "checksum example_file 60 56 = 0" by simp_all
  show "valid_update example_file 4 56" "valid_update example_file 60 56"
    using upd example_word [of 0] example_word [of 24] example_word [of 32] example_word [of 36]
    by (simp_all add: valid_update_def size_field_def data_field_def mapped_def length_example example_words)
qed

text \<open>
  C26. For a header whose data is mapped, \<open>microcode_sanity_check\<close> computes exactly this: it refuses
  wrong sizes and versions; without an extended table it accepts exactly when the words of header
  and data add up to 0; an extended table of a wrong size is refused, and one of a right size makes
  it read through the pointer \<open>ext_header\<close>, which is still NULL.
\<close>

theorem microcode_sanity_check_correct:
  assumes "mapped m p 52" "mapped m p (unat (data_field m p + 52))"
  shows "microcode_sanity_check m p =
    (let data_end = data_field m p + 52; extended = size_field m p - data_end in
     if size_field m p < data_end \<or> word_at m (p + 24) \<noteq> 1 \<or> word_at m p \<noteq> 1 then Some (- 101)
     else if extended = 0 then Some (if checksum m p (unat data_end) = 0 then 0 else - 101)
     else if extended < 20 \<or> (extended - 20) mod 12 \<noteq> 0 then Some (- 101)
     else None)"
  by (rule sanity_check_value [OF assms])

theorem microcode_sanity_check_correct_witness:
  "microcode_sanity_check example_file 4 = Some 0"
  using microcode_sanity_check_correct [of example_file 4] example_valid(1)
    update_sizes [OF example_valid(1)]
  by (simp add: valid_update_def Let_def)

section \<open>What the processor reports\<close>

text \<open>
  A processor that is not supported is reported with only the low byte of the signature cleared:
  the loop that should clear the structure does not advance its pointer. A supported one has its
  signature cleared and its revision set; its platform flag is set on the models that have one and
  keeps its old value on the others.
\<close>

theorem intel_collect_cpu_info_fields:
  "intel_collect_cpu_info cpu_data msr_content cpu_num csig = (case cpu_data cpu_num of
     None \<Rightarrow> None
   | Some c \<Rightarrow> Some (if ci_vendor c \<noteq> 1 \<or> ci_x86 c < 6
       then (- 1, csig\<lparr>isig := isig csig AND NOT 0xff\<rparr>)
       else (0, csig\<lparr>isig := 0,
         ipf := (if ci_model c \<ge> 5 \<or> ci_x86 c > 6
           then 2 ^ unat (drop_bit 50 msr_content AND 7) else ipf csig),
         irev := ucast (drop_bit 32 msr_content)\<rparr>)))"
proof -
  have idem: "w AND NOT 0xff AND NOT 0xff = w AND NOT 0xff" for w :: u32
    by (simp add: and.assoc)
  have "\<exists>s. for_loop (\<lambda>i csig. Some (csig\<lparr>isig := isig csig AND NOT 0xff\<rparr>)) 1 12 (csig\<lparr>isig := isig csig AND NOT 0xff\<rparr>) = Some s
      \<and> s = csig\<lparr>isig := isig csig AND NOT 0xff\<rparr>"
    by (rule for_loop_rule) (simp_all add: idem)
  then have "for_loop (\<lambda>i csig. Some (csig\<lparr>isig := isig csig AND NOT 0xff\<rparr>)) 0 sizeof_csig csig =
      Some (csig\<lparr>isig := isig csig AND NOT 0xff\<rparr>)"
    by (simp add: for_loop_step sizeof_csig_def)
  then show ?thesis
    by (simp add: intel_collect_cpu_info_def Let_def split: option.split)
qed

end
