(* ===== verification/Intel_Request.thy ===== *)
theory Intel_Request
  imports Microcode_Intel
begin

text \<open>
  Requests of the Intel loader of intel_verified.c: what one pass of the loop does with a valid update,
  requests for one update, and when a request returns at all.
\<close>

section \<open>The steps of a request\<close>

text \<open>A copy of a valid update is valid, and matches when its source does.\<close>

lemma same_header:
  assumes "bytes m p n = bytes m' q n" "mapped m p n" "mapped m' q n" "52 \<le> n"
  shows "word_at m' q = word_at m p" "k \<le> 48 \<Longrightarrow> word_at m' (q + k) = word_at m (p + k)"
  using word_at_same [OF assms(1-3), of 0] word_at_same [OF assms(1-3), of k] assms(4) by simp_all

lemma valid_update_same:
  assumes "valid_update m p n" "bytes m p n = bytes m' q n" "mapped m' q n"
  shows "valid_update m' q n" "matches m' q uci = matches m p uci"
proof -
  have n: "mapped m p n" "52 \<le> n" using assms(1) by (simp_all add: valid_update_def)
  note w = same_header [OF assms(2) n(1) assms(3) n(2)]
  have "word_at m' (q + 4 * i) = word_at m (p + 4 * i)" if "i < n div 4" for i
    using word_at_same [OF assms(2) n(1) assms(3), of "4 * i"] that by simp
  then have "checksum m' q n = checksum m p n"
    unfolding checksum_def by (intro arg_cong [of _ _ sum_list] map_cong) auto
  moreover have "size_field m' q = size_field m p" "data_field m' q = data_field m p"
    by (simp_all add: size_field_def data_field_def w)
  ultimately show "valid_update m' q n"
    using assms by (simp add: valid_update_def w)
  show "matches m' q uci = matches m p uci"
    by (simp add: matches_def w)
qed

lemma sanity_check_valid: "valid_update m p n \<Longrightarrow> microcode_sanity_check m p = Some 0"
  using update_sizes [of m p n]
  by (subst sanity_check_value) (auto simp: valid_update_def Let_def)

lemma get_matching_valid:
  assumes "valid_update m mc n" "mapped m new_mc n" "copy_ok new_mc mc n"
  shows "get_matching_microcode ext_header new_mc m mc uci =
    Some (if matches m mc uci
      then (1, blit m new_mc (bytes m mc n), uci\<lparr>mc_intel := new_mc\<rparr>) else (0, m, uci))"
proof -
  have "microcode_update_match m mc (word_at m (mc + 16)) (word_at m (mc + 28)) uci = Some (matches m mc uci)"
    by (simp add: microcode_update_match_def header_fields [OF update_sizes(1) [OF assms(1)]] matches_def)
  moreover have "size_field m mc \<le> data_field m mc + 52"
    using assms(1) by (simp add: valid_update_def)
  moreover have "memcpy_loop m new_mc mc n = Some (blit m new_mc (bytes m mc n))"
    using assms by (intro memcpy_loop_blit) (simp_all add: valid_update_def)
  moreover have "new_mc \<noteq> NULL" "nat (sint (size_field m mc)) = n"
    using assms update_sizes(3) [OF assms(1)] by (simp_all add: mapped_def valid_update_def)
  ultimately show ?thesis
    by (simp add: get_matching_microcode_def header_fields [OF update_sizes(1) [OF assms(1)]] sizeof_hdr_def)
qed

lemma next_ucode_valid:
  assumes "valid_update m (buf + k) n" "int k < sint bufsize" "int n \<le> sint bufsize"
    and "mapped m mc n" "copy_ok mc (buf + k) n"
  shows "get_next_ucode_from_buffer m mc buf bufsize (int k) =
    Some (int n, blit m mc (bytes m (buf + k) n))"
proof -
  have "nat (int buf + int k) = buf + k" by simp
  moreover have "memcpy_loop m mc (buf + k) n = Some (blit m mc (bytes m (buf + k) n))"
    using assms by (intro memcpy_loop_blit) (simp_all add: valid_update_def)
  moreover have "sint (size_field m (buf + k)) = int n" "mc \<noteq> NULL"
    using assms update_sizes(3) [OF assms(1)] by (simp_all add: valid_update_def mapped_def)
  ultimately show ?thesis
    using assms(2,3) by (simp add: get_next_ucode_from_buffer_def header_fields [OF update_sizes(1) [OF assms(1)]])
qed

text \<open>A pass over a valid update: it is copied to \<open>mc\<close>, and when it matches from there to \<open>new_mc\<close>.\<close>

definition request_pass :: "addr \<Rightarrow> addr \<Rightarrow> addr \<Rightarrow> nat \<Rightarrow> request \<Rightarrow> request" where
  "request_pass new mc src n s =
     (let m = rq_mem s;
          m1 = blit m mc (bytes m src n);
          s = s\<lparr>rq_offset := int n, rq_error := 0, rq_mem := m1, calls := calls s + 1\<rparr>
      in if matches m src (rq_uci s)
         then s\<lparr>matching_count := matching_count s + 1, rq_mem := blit m1 new (bytes m1 mc n),
           rq_uci := (rq_uci s)\<lparr>mc_intel := new\<rparr>\<rparr>
         else s)"

lemma request_step_valid:
  assumes "valid_update (rq_mem s) (buf + k) n" "rq_offset s = int k"
    and "int k < sint bufsize" "int n \<le> sint bufsize"
    and "mapped (rq_mem s) mc n" "copy_ok mc (buf + k) n"
    and "mapped (rq_mem s) (new_mc (calls s)) n" "copy_ok (new_mc (calls s)) mc n"
  shows "request_step ext new_mc mc buf bufsize s =
    Some (Inl (request_pass (new_mc (calls s)) mc (buf + k) n s))"
proof -
  let ?m = "rq_mem s" and ?m1 = "blit (rq_mem s) mc (bytes (rq_mem s) (buf + k) n)"
  have src: "mapped ?m (buf + k) n" "52 \<le> n" using assms(1) by (simp_all add: valid_update_def)
  have "bytes ?m (buf + k) n = bytes ?m1 mc n" "mapped ?m1 mc n"
    using src assms(5) by (simp_all add: bytes_copy)
  from valid_update_same [OF assms(1) this]
  have m1: "valid_update ?m1 mc n" "matches ?m1 mc (rq_uci s) = matches ?m (buf + k) (rq_uci s)" by auto
  have get: "get_matching_microcode (ext (calls s)) (new_mc (calls s)) ?m1 mc (rq_uci s) =
    Some (if matches ?m (buf + k) (rq_uci s)
      then (1, blit ?m1 (new_mc (calls s)) (bytes ?m1 mc n), (rq_uci s)\<lparr>mc_intel := new_mc (calls s)\<rparr>)
      else (0, ?m1, rq_uci s))"
    using get_matching_valid [OF m1(1), of "new_mc (calls s)"] m1(2) src(1) assms(5,7,8) by simp
  show ?thesis
    using src(2) assms(2) next_ucode_valid [OF assms(1,3-6)]
    by (simp add: request_step_def sanity_check_valid [OF m1(1)] get request_pass_def Let_def)
qed

section \<open>Whole requests\<close>

text \<open>A pass from a state that has the file still in place leaves it in place.\<close>

lemma request_pass_keeps:
  assumes "mapped (rq_mem s) src n" "mapped (rq_mem s) mc n" "mapped (rq_mem s) new n"
    and "mapped (rq_mem s) q k" "disjoint_blocks mc n q k" "disjoint_blocks new n q k"
  shows "bytes (rq_mem (request_pass new mc src n s)) q k = bytes (rq_mem s) q k"
    "length (rq_mem (request_pass new mc src n s)) = length (rq_mem s)"
  using assms by (simp_all add: request_pass_def Let_def bytes_copy_other)

lemma request_pass_simps [simp]:
  "rq_offset (request_pass new mc src n s) = int n"
  "calls (request_pass new mc src n s) = Suc (calls s)"
  "rq_error (request_pass new mc src n s) = 0"
  by (simp_all add: request_pass_def Let_def)

lemma request_step_end:
  "sint bufsize \<le> rq_offset s \<Longrightarrow>
   request_step ext new_mc mc buf bufsize s = Some (Inr (s\<lparr>rq_offset := 0\<rparr>))"
  by (simp add: request_step_def get_next_ucode_from_buffer_def)

lemma request_start_simps [simp]:
  "rq_offset (request_start m uci) = 0" "rq_mem (request_start m uci) = m"
  "rq_uci (request_start m uci) = uci" "calls (request_start m uci) = 0"
  "matching_count (request_start m uci) = 0" "rq_error (request_start m uci) = 0"
  by (simp_all add: request_start_def)

lemma request_single_loop:
  assumes "valid_update m buf n" "mapped m mc n" "mapped m (new_mc 0) n"
    and "copy_ok mc buf n" "copy_ok (new_mc 0) mc n"
  shows "request_loop ext new_mc mc buf (of_nat n) (request_start m uci) =
    Some ((request_pass (new_mc 0) mc buf n (request_start m uci))\<lparr>rq_offset := 0\<rparr>)"
proof -
  have size: "sint (of_nat n :: u32) = int n" "52 \<le> n"
    using update_sizes [OF assms(1)] assms(1) by (simp_all add: valid_update_def)
  have "request_step ext new_mc mc buf (of_nat n) (request_start m uci) =
      Some (Inl (request_pass (new_mc 0) mc buf n (request_start m uci)))"
    using request_step_valid [of "request_start m uci" buf 0 n "of_nat n" mc new_mc ext] assms size by simp
  then show ?thesis
    using size by (subst request_loop.simps, simp, subst request_loop.simps) (simp add: request_step_end)
qed

lemma request_single_value:
  assumes "valid_update m buf n" "mapped m mc n" "mapped m (new_mc 0) n"
    and "disjoint_blocks mc n buf n" "disjoint_blocks (new_mc 0) n buf n" "disjoint_blocks (new_mc 0) n mc n"
  shows "intel_cpu_request_microcode ext new_mc mc msr_content buf (of_nat n) m uci = Some (
    let update = bytes m buf n;
        copied = blit m mc update;
        installed = blit copied (new_mc 0) update;
        running = ucast (drop_bit 32 msr_content);
        uci' = uci\<lparr>mc_intel := new_mc 0\<rparr>
    in if \<not> matches m buf uci then (0, copied, uci)
       else if running \<noteq> word_at m (buf + 4) then (- 5, installed, uci')
       else (0, installed, uci'\<lparr>cpu_sig := (cpu_sig uci)\<lparr>irev := running\<rparr>\<rparr>))"
proof -
  let ?B = "bytes m buf n" and ?new = "new_mc 0"
  let ?m1 = "blit m mc ?B" and ?m2 = "blit (blit m mc ?B) ?new ?B"
  have src: "mapped m buf n" "52 \<le> n" using assms(1) by (simp_all add: valid_update_def)
  have copy: "bytes ?m1 mc n = ?B" using src assms(2) by (simp add: bytes_copy)
  then have "bytes ?m2 ?new n = ?B"
    using bytes_copy [of ?m1 ?new n mc] src assms(2,3) by simp
  moreover have "mapped ?m2 ?new n"
    using mapped_copy [of ?m1 ?new n mc] copy src assms(2,3) by simp
  ultimately have rev: "hdr_rev ?m2 ?new = Some (word_at m (buf + 4))"
    using header_fields(4) [of ?m2 ?new] same_header(2) [of m buf n ?m2 ?new 4] src
    by (simp add: mapped_def)
  have loop: "request_loop ext new_mc mc buf (of_nat n) (request_start m uci) =
    Some ((request_pass ?new mc buf n (request_start m uci))\<lparr>rq_offset := 0\<rparr>)"
    using assms by (intro request_single_loop) (simp_all add: copy_ok_disjoint)
  have "?new \<noteq> NULL" using assms(3) by (simp add: mapped_def)
  with rev loop copy show ?thesis
    by (simp add: intel_cpu_request_microcode_def request_pass_def intel_apply_microcode_def Let_def
      c_true_def)
qed

text \<open>
  C10. A file that holds one valid update, with memory for the two copies: the request takes the
  update exactly when it matches the processor, and then succeeds exactly when the processor
  reports the revision of the update afterwards; the update is copied, byte by byte, to \<open>mc\<close> and, when
  it is taken, to the object that becomes the processor's.
\<close>

theorem intel_request_single_update:
  assumes "valid_update m buf n" "mapped m mc n" "mapped m (new_mc 0) n"
    and "disjoint_blocks mc n buf n" "disjoint_blocks (new_mc 0) n buf n" "disjoint_blocks (new_mc 0) n mc n"
  shows "intel_cpu_request_microcode ext new_mc mc msr_content buf (of_nat n) m uci = Some (
    let update = bytes m buf n;
        copied = blit m mc update;
        installed = blit copied (new_mc 0) update;
        running = ucast (drop_bit 32 msr_content);
        uci' = uci\<lparr>mc_intel := new_mc 0\<rparr>
    in if \<not> matches m buf uci then (0, copied, uci)
       else if running \<noteq> word_at m (buf + 4) then (- 5, installed, uci')
       else (0, installed, uci'\<lparr>cpu_sig := (cpu_sig uci)\<lparr>irev := running\<rparr>\<rparr>))"
  by (rule request_single_value [where new_mc = new_mc]) (rule assms)+

theorem intel_request_single_update_witness:
  "intel_cpu_request_microcode (\<lambda>i. 0) (\<lambda>i. 172) 116 (push_bit 32 9) 4 56 example_file
     \<lparr>cpu_sig = \<lparr>isig = 5, ipf = 1, irev = 2\<rparr>, mc_intel = 0\<rparr> =
   Some (0, blit (blit example_file 116 (bytes example_file 4 56)) 172 (bytes example_file 4 56),
     \<lparr>cpu_sig = \<lparr>isig = 5, ipf = 1, irev = 9\<rparr>, mc_intel = 172\<rparr>)"
proof -
  let ?uci = "\<lparr>cpu_sig = \<lparr>isig = 5, ipf = 1, irev = 2\<rparr>, mc_intel = 0\<rparr>"
  have w: "word_at example_file 8 = 9" "word_at example_file 20 = 5" "word_at example_file 32 = 1"
    using example_word(1) [of 4] example_word(1) [of 16] example_word(1) [of 28] by (simp_all add: example_words)
  from w show ?thesis
    using intel_request_single_update [OF example_valid(1), of 116 "\<lambda>i. 172" "\<lambda>i. 0" "push_bit 32 9" ?uci]
    by (simp add: matches_def mapped_def length_example disjoint_blocks_def Let_def)
qed


text \<open>Running \<open>n\<close> passes that all go on.\<close>

primrec request_steps ::
    "(nat \<Rightarrow> addr) \<Rightarrow> (nat \<Rightarrow> addr) \<Rightarrow> addr \<Rightarrow> addr \<Rightarrow> u32 \<Rightarrow> nat \<Rightarrow> request \<Rightarrow> request option" where
  "request_steps ext new_mc mc buf bufsize 0 s = Some s"
| "request_steps ext new_mc mc buf bufsize (Suc n) s = do {
     r \<leftarrow> request_step ext new_mc mc buf bufsize s;
     case r of Inl s \<Rightarrow> request_steps ext new_mc mc buf bufsize n s | Inr s \<Rightarrow> None }"

lemma request_loop_returns:
  "request_loop ext new_mc mc buf bufsize s = Some r \<Longrightarrow>
   \<exists>n. request_steps ext new_mc mc buf bufsize n s = None"
proof (induction rule: request_loop.raw_induct [rotated, consumes 1, case_names step])
  case (step request_loop ext new_mc mc buf bufsize s r)
  then obtain x where x: "request_step ext new_mc mc buf bufsize s = Some x"
    by (auto simp: bind_eq_Some_conv)
  show ?case
  proof (cases x)
    case (Inl s')
    with step x have "request_loop ext new_mc mc buf bufsize s' = Some r" by simp
    with step obtain n where "request_steps ext new_mc mc buf bufsize n s' = None" by blast
    with x Inl have "request_steps ext new_mc mc buf bufsize (Suc n) s = None" by simp
    then show ?thesis ..
  next
    case (Inr s')
    with x have "request_steps ext new_mc mc buf bufsize (Suc 0) s = None" by simp
    then show ?thesis ..
  qed
qed

text \<open>
  The offsets a request visits: at each there is a valid update that lies in the file, and the size of
  that update, not the offset behind it, is the next one. \<open>sz\<close> gives the sizes.
\<close>

definition visits :: "mem \<Rightarrow> addr \<Rightarrow> nat \<Rightarrow> (nat \<Rightarrow> nat) \<Rightarrow> nat set \<Rightarrow> bool" where
  "visits m buf N sz K \<longleftrightarrow> 0 \<in> K \<and> N < 2 ^ 31 \<and> mapped m buf N \<and>
     (\<forall>k \<in> K. valid_update m (buf + k) (sz k) \<and> k + sz k \<le> N \<and> (sz k < N \<longrightarrow> sz k \<in> K))"

text \<open>The buffers the copies go to: \<open>M\<close> bytes each, away from the file and from each other.\<close>

definition copy_room :: "mem \<Rightarrow> addr \<Rightarrow> nat \<Rightarrow> addr \<Rightarrow> (nat \<Rightarrow> addr) \<Rightarrow> nat \<Rightarrow> bool" where
  "copy_room m buf N mc new_mc M \<longleftrightarrow>
     mapped m mc M \<and> disjoint_blocks mc M buf N \<and>
     (\<forall>i. mapped m (new_mc i) M \<and> disjoint_blocks (new_mc i) M buf N \<and> disjoint_blocks (new_mc i) M mc M)"

text \<open>The file is still there, and the offset is one of those.\<close>

definition on_walk :: "mem \<Rightarrow> addr \<Rightarrow> nat \<Rightarrow> nat set \<Rightarrow> request \<Rightarrow> bool" where
  "on_walk m buf N K s \<longleftrightarrow>
     length (rq_mem s) = length m \<and> bytes (rq_mem s) buf N = bytes m buf N \<and>
     (\<exists>k \<in> K. rq_offset s = int k)"

lemma copy_room_smaller:
  assumes "copy_room m buf N mc new_mc M" "n \<le> M" "k + n \<le> N"
  shows "mapped m mc n" "mapped m (new_mc i) n"
    "copy_ok mc (buf + k) n" "copy_ok (new_mc i) mc n"
    "disjoint_blocks mc n buf N" "disjoint_blocks (new_mc i) n buf N" "disjoint_blocks (new_mc i) n mc n"
proof -
  have "mapped m mc M" "mapped m (new_mc i) M" "disjoint_blocks mc M buf N"
    "disjoint_blocks (new_mc i) M buf N" "disjoint_blocks (new_mc i) M mc M"
    using assms(1) by (simp_all add: copy_room_def)
  then show "mapped m mc n" "mapped m (new_mc i) n"
    "copy_ok mc (buf + k) n" "copy_ok (new_mc i) mc n"
    "disjoint_blocks mc n buf N" "disjoint_blocks (new_mc i) n buf N" "disjoint_blocks (new_mc i) n mc n"
    using assms(2,3) by (auto simp: mapped_def copy_ok_def disjoint_blocks_def)
qed

lemma visit_sizes:
  assumes "visits m buf N sz K" "k \<in> K"
  shows "valid_update m (buf + k) (sz k)" "k + sz k \<le> N" "k < N" "52 \<le> sz k"
    "sint (of_nat N :: u32) = int N"
  using assms
  by (auto simp: visits_def valid_update_def signed_of_nat signed_take_bit_int_eq_self)

lemma file_kept:
  assumes "bytes m' buf N = bytes m buf N" "k + n \<le> N"
  shows "bytes m' (buf + k) n = bytes m (buf + k) n"
proof -
  have "bytes q (buf + k) n = take n (drop k (bytes q buf N))" for q
    using assms(2) by (simp add: bytes_drop bytes_take)
  with assms(1) show ?thesis by simp
qed

lemma walk_step:
  assumes visits: "visits m buf N sz K" and room: "copy_room m buf N mc new_mc M" "\<forall>k \<in> K. sz k \<le> M"
    and walk: "on_walk m buf N K s"
  obtains s' k where "request_step ext new_mc mc buf (of_nat N) s = Some (Inl s')"
    "k \<in> K" "rq_offset s = int k" "rq_offset s' = int (sz k)"
    "length (rq_mem s') = length m" "bytes (rq_mem s') buf N = bytes m buf N"
proof -
  from walk obtain k where k: "k \<in> K" "rq_offset s = int k" by (auto simp: on_walk_def)
  note sizes = visit_sizes [OF visits k(1)]
  let ?n = "sz k" and ?new = "new_mc (calls s)"
  have "?n \<le> M" using room(2) k(1) by blast
  note room = copy_room_smaller [OF room(1) this sizes(2)]
  have [simp]: "mapped (rq_mem s) p j = mapped m p j" for p j
    using walk by (simp add: on_walk_def mapped_def)
  have src: "mapped m (buf + k) ?n" "mapped m buf N"
    using sizes(1) visits by (simp_all add: valid_update_def visits_def)
  have kept: "bytes (rq_mem s) buf N = bytes m buf N" "length (rq_mem s) = length m"
    using walk by (simp_all add: on_walk_def)
  have "valid_update (rq_mem s) (buf + k) ?n"
    using valid_update_same(1) [OF sizes(1) sym [OF file_kept [OF kept(1) sizes(2)]]] src by simp
  then have "request_step ext new_mc mc buf (of_nat N) s =
      Some (Inl (request_pass ?new mc (buf + k) ?n s))"
    using k sizes room(1-4) by (intro request_step_valid) simp_all
  moreover have "bytes (rq_mem (request_pass ?new mc (buf + k) ?n s)) buf N = bytes m buf N"
    "length (rq_mem (request_pass ?new mc (buf + k) ?n s)) = length m"
    using request_pass_keeps [of s "buf + k" ?n mc ?new buf N] src room kept by simp_all
  ultimately show thesis using k by (intro that [of "request_pass ?new mc (buf + k) ?n s" k]) simp_all
qed

lemma walk_goes_on:
  assumes "visits m buf N sz K" "copy_room m buf N mc new_mc M" "\<forall>k \<in> K. sz k \<le> M" "sz 0 < N"
    and "on_walk m buf N K s"
  shows "request_steps ext new_mc mc buf (of_nat N) passes s \<noteq> None"
  using assms(5)
proof (induction passes arbitrary: s)
  case (Suc passes)
  obtain s' k where step: "request_step ext new_mc mc buf (of_nat N) s = Some (Inl s')"
    and k: "k \<in> K" "rq_offset s' = int (sz k)"
      "length (rq_mem s') = length m" "bytes (rq_mem s') buf N = bytes m buf N"
    using walk_step [OF assms(1-3) Suc.prems] by blast
  have "sz k < N" using visit_sizes(2) [OF assms(1) k(1)] assms(4) by (cases k) auto
  with assms(1) k have "on_walk m buf N K s'" by (auto simp: visits_def on_walk_def)
  with Suc.IH step show ?case by simp
qed simp

lemma walk_never_returns:
  assumes "visits m buf N sz K" "copy_room m buf N mc new_mc M" "\<forall>k \<in> K. sz k \<le> M" "sz 0 < N"
  shows "intel_cpu_request_microcode ext new_mc mc msr_content buf (of_nat N) m uci = None"
proof -
  have "on_walk m buf N K (request_start m uci)" using assms(1) by (auto simp: visits_def on_walk_def)
  from walk_goes_on [OF assms this]
  have "request_steps ext new_mc mc buf (of_nat N) n (request_start m uci) \<noteq> None" for n .
  then have "request_loop ext new_mc mc buf (of_nat N) (request_start m uci) = None"
    using request_loop_returns by (metis option.exhaust)
  then show ?thesis by (simp add: intel_cpu_request_microcode_def)
qed

text \<open>
  C18. The value \<open>get_next_ucode_from_buffer\<close> returns is the size of the update it read, and the request
  takes it as the offset of the next one. As long as the offsets that are visited this way hold valid
  updates, of whatever sizes, the request returns exactly when the first update is the whole file;
  otherwise every number of passes is run without an error, and the request has no result.
\<close>

theorem intel_request_returns_iff:
  assumes "visits m buf N sz K" "copy_room m buf N mc new_mc M" "\<forall>k \<in> K. sz k \<le> M"
  shows "(intel_cpu_request_microcode ext new_mc mc msr_content buf (of_nat N) m uci \<noteq> None \<longleftrightarrow> sz 0 = N) \<and>
    (sz 0 < N \<longrightarrow>
      request_steps ext new_mc mc buf (of_nat N) passes (request_start m uci) \<noteq> None)"
proof -
  have start: "0 \<in> K" "on_walk m buf N K (request_start m uci)"
    using assms(1) by (auto simp: visits_def on_walk_def)
  note first = visit_sizes [OF assms(1) start(1)]
  have returns: "intel_cpu_request_microcode ext new_mc mc msr_content buf (of_nat N) m uci \<noteq> None" if "sz 0 = N"
  proof -
    have "N \<le> M" "valid_update m buf N" using assms(3) start(1) that first(1) by auto
    with copy_room_smaller [OF assms(2) \<open>N \<le> M\<close>, of 0] show ?thesis
      by (subst request_single_value) (simp_all add: Let_def)
  qed
  show ?thesis using first(2) walk_goes_on [OF assms _ start(2)] walk_never_returns [OF assms] returns
    by (cases "sz 0 = N") auto
qed

theorem intel_request_returns_iff_witness:
  "intel_cpu_request_microcode (\<lambda>i. 0) (\<lambda>i. 172) 116 0 4 112 example_file
     \<lparr>cpu_sig = \<lparr>isig = 5, ipf = 1, irev = 2\<rparr>, mc_intel = 0\<rparr> = None \<and>
   request_steps (\<lambda>i. 0) (\<lambda>i. 172) 116 4 112 1000
     (request_start example_file \<lparr>cpu_sig = \<lparr>isig = 5, ipf = 1, irev = 2\<rparr>, mc_intel = 0\<rparr>) \<noteq> None \<and>
   intel_cpu_request_microcode (\<lambda>i. 0) (\<lambda>i. 172) 116 0 4 56 example_file
     \<lparr>cpu_sig = \<lparr>isig = 5, ipf = 1, irev = 2\<rparr>, mc_intel = 0\<rparr> \<noteq> None"
proof -
  let ?uci = "\<lparr>cpu_sig = \<lparr>isig = 5, ipf = 1, irev = 2\<rparr>, mc_intel = 0\<rparr>"
  have "visits example_file 4 112 (\<lambda>k. 56) {0, 56}" "visits example_file 4 56 (\<lambda>k. 56) {0}"
    "copy_room example_file 4 112 116 (\<lambda>i. 172) 56" "copy_room example_file 4 56 116 (\<lambda>i. 172) 56"
    using example_valid
    by (simp_all add: visits_def copy_room_def mapped_def length_example disjoint_blocks_def)
  then show ?thesis
    using intel_request_returns_iff [of example_file 4 112 "\<lambda>k. 56" "{0, 56}" 116 "\<lambda>i. 172" 56 "\<lambda>i. 0" 0 ?uci 1000]
      intel_request_returns_iff [of example_file 4 56 "\<lambda>k. 56" "{0}" 116 "\<lambda>i. 172" 56 "\<lambda>i. 0" 0 ?uci 1000]
    by (simp del: not_None_eq)
qed


text \<open>
  The simplest such file: two valid updates of the same size, of which the second is read again and
  again.
\<close>

theorem intel_request_never_returns:
  assumes "valid_update m buf n" "valid_update m (buf + n) n" "2 * n < 2 ^ 31"
    and "mapped m mc n" "disjoint_blocks mc n buf (2 * n)"
    and "\<And>i. mapped m (new_mc i) n" "\<And>i. disjoint_blocks (new_mc i) n buf (2 * n)"
    and "\<And>i. disjoint_blocks (new_mc i) n mc n"
  shows "request_steps ext new_mc mc buf (of_nat (2 * n)) passes (request_start m uci) \<noteq> None \<and>
    intel_cpu_request_microcode ext new_mc mc msr_content buf (of_nat (2 * n)) m uci = None"
proof
  have visits: "visits m buf (2 * n) (\<lambda>k. n) {0, n}"
    using assms(1-3) by (auto simp: visits_def valid_update_def mapped_def)
  have room: "copy_room m buf (2 * n) mc new_mc n" "\<forall>k \<in> {0, n}. n \<le> n" "n < 2 * n"
    using assms by (simp_all add: copy_room_def valid_update_def)
  have start: "on_walk m buf (2 * n) {0, n} (request_start m uci)" by (simp add: on_walk_def)
  show "request_steps ext new_mc mc buf (of_nat (2 * n)) passes (request_start m uci) \<noteq> None"
    by (rule walk_goes_on [OF visits room start])
  show "intel_cpu_request_microcode ext new_mc mc msr_content buf (of_nat (2 * n)) m uci = None"
    by (rule walk_never_returns [OF visits room])
qed

theorem intel_request_never_returns_witness:
  "intel_cpu_request_microcode (\<lambda>i. 0) (\<lambda>i. 172) 116 0 4 112 example_file
     \<lparr>cpu_sig = \<lparr>isig = 5, ipf = 1, irev = 2\<rparr>, mc_intel = 0\<rparr> = None"
  using intel_request_never_returns [of example_file 4 56 116 "\<lambda>i. 172" "\<lambda>i. 0" 1000
      "\<lparr>cpu_sig = \<lparr>isig = 5, ipf = 1, irev = 2\<rparr>, mc_intel = 0\<rparr>" 0] example_valid
  by (simp add: mapped_def length_example disjoint_blocks_def)


text \<open>
  C19. An update that is larger than its file makes the request report success: the error
  \<open>get_next_ucode_from_buffer\<close> returns leaves the loop, and the statement that would pass it on stands
  under the condition that the offset is positive. Nothing is changed.
\<close>

theorem intel_request_loses_error:
  assumes "mapped m buf 52" "0 < sint bufsize" "sint bufsize < sint (size_field m buf)"
  shows "get_next_ucode_from_buffer m mc buf bufsize 0 = Some (- 101, m) \<and>
    intel_cpu_request_microcode ext new_mc mc msr_content buf bufsize m uci = Some (0, m, uci)"
proof
  show next_ucode: "get_next_ucode_from_buffer m mc buf bufsize 0 = Some (- 101, m)"
    using assms by (simp add: get_next_ucode_from_buffer_def header_fields)
  have "request_loop ext new_mc mc buf bufsize (request_start m uci) =
      Some ((request_start m uci)\<lparr>rq_offset := - 101\<rparr>)"
    by (subst request_loop.simps) (simp add: request_step_def next_ucode request_start_def)
  then show "intel_cpu_request_microcode ext new_mc mc msr_content buf bufsize m uci = Some (0, m, uci)"
    by (simp add: intel_cpu_request_microcode_def c_true_def)
qed

theorem intel_request_loses_error_witness:
  "get_next_ucode_from_buffer example_file 116 4 55 0 = Some (- 101, example_file) \<and>
   intel_cpu_request_microcode (\<lambda>i. 0) (\<lambda>i. 172) 116 0 4 55 example_file
     \<lparr>cpu_sig = \<lparr>isig = 5, ipf = 1, irev = 2\<rparr>, mc_intel = 0\<rparr> =
   Some (0, example_file, \<lparr>cpu_sig = \<lparr>isig = 5, ipf = 1, irev = 2\<rparr>, mc_intel = 0\<rparr>)"
proof -
  have "mapped example_file 4 52" "size_field example_file 4 = 56"
    using update_sizes [OF example_valid(1)] example_valid(1) by (simp_all add: valid_update_def)
  then show ?thesis
    using intel_request_loses_error [of example_file 4 55 116 "\<lambda>i. 0" "\<lambda>i. 172" 0] by simp
qed

end
