(* ===== verification/Segment.thy ===== *)
theory Segment
  imports Xen_Prelude
begin

text \<open>
  Segment registers of vm_event_verified.c: reading one from the hardware with the fixes for SVM
  (\<open>hvm_get_segment_register\<close>), and packing it into the fields of a vm_event
  (\<open>vm_event_pack_segment_register\<close>). A bit-field of width \<open>n\<close> is an \<open>n word\<close>; the bit-fields that
  share \<open>attr\<close> are its bits.
\<close>

section \<open>Data\<close>

datatype x86_segment =
    X86_seg_es | X86_seg_cs | X86_seg_ss | X86_seg_ds | X86_seg_fs | X86_seg_gs
  | X86_seg_tr | X86_seg_ldtr | X86_seg_gdtr | X86_seg_idtr | X86_seg_none

fun seg_index :: "x86_segment \<Rightarrow> nat" where
  "seg_index X86_seg_es = 0"
| "seg_index X86_seg_cs = 1"
| "seg_index X86_seg_ss = 2"
| "seg_index X86_seg_ds = 3"
| "seg_index X86_seg_fs = 4"
| "seg_index X86_seg_gs = 5"
| "seg_index X86_seg_tr = 6"
| "seg_index X86_seg_ldtr = 7"
| "seg_index X86_seg_gdtr = 8"
| "seg_index X86_seg_idtr = 9"
| "seg_index X86_seg_none = 10"

text \<open>Enumeration constants compare as their numbers.\<close>

lemma seg_index_inj: "seg_index a = seg_index b \<longleftrightarrow> a = b"
  by (cases a; cases b) simp_all

instantiation x86_segment :: linorder
begin

definition less_eq_x86_segment :: "x86_segment \<Rightarrow> x86_segment \<Rightarrow> bool" where
  "less_eq_x86_segment a b \<longleftrightarrow> seg_index a \<le> seg_index b"

definition less_x86_segment :: "x86_segment \<Rightarrow> x86_segment \<Rightarrow> bool" where
  "less_x86_segment a b \<longleftrightarrow> seg_index a < seg_index b"

instance
  by intro_classes (auto simp: less_eq_x86_segment_def less_x86_segment_def seg_index_inj [symmetric])

end

record segment_register =
  sel :: u16
  attr :: u16
  limit :: u32
  base :: u64

text \<open>
  The bits of \<open>attr\<close>: \<open>type\<close> 0 to 3, \<open>s\<close> 4, \<open>dpl\<close> 5 and 6, \<open>p\<close> 7, \<open>avl\<close> 8, \<open>l\<close> 9, \<open>db\<close> 10, \<open>g\<close> 11, \<open>pad\<close> 12 to
  15. Bit 1 of the type of a TSS is its busy flag, bit 0 of that of a user segment its accessed flag.
\<close>

definition bit_accessed :: nat where "bit_accessed = 0"
definition bit_busy :: nat where "bit_busy = 1"
definition bit_s :: nat where "bit_s = 4"
definition bit_p :: nat where "bit_p = 7"
definition bit_db :: nat where "bit_db = 10"
definition bit_g :: nat where "bit_g = 11"

lemmas attr_bits = bit_accessed_def bit_busy_def bit_s_def bit_p_def bit_db_def bit_g_def

definition attr_flag :: "nat \<Rightarrow> segment_register \<Rightarrow> bool" where
  "attr_flag n r = bit (attr r) n"

definition put_flag :: "nat \<Rightarrow> bool \<Rightarrow> segment_register \<Rightarrow> segment_register" where
  "put_flag n b r = r\<lparr>attr := (if b then set_bit n (attr r) else unset_bit n (attr r))\<rparr>"

text \<open>The limit and access rights of a vm_event: bit-fields of 20 and 12 bits.\<close>

record selector_reg =
  sr_limit :: "20 word"
  sr_ar :: "12 word"

text \<open>The fields of \<open>struct vm_event_regs_x86\<close> that describe segments; \<open>other_regs\<close> are all others.\<close>

record vm_event_regs =
  cs_base :: u32
  ss_base :: u32
  ds_base :: u32
  es_base :: u32
  fs_base :: u64
  gs_base :: u64
  cs :: selector_reg
  ss :: selector_reg
  ds :: selector_reg
  es :: selector_reg
  fs :: selector_reg
  gs :: selector_reg
  cs_sel :: u16
  ss_sel :: u16
  ds_sel :: u16
  es_sel :: u16
  fs_sel :: u16
  gs_sel :: u16
  other_regs :: "u64 list"

section \<open>Operations\<close>

definition is_x86_user_segment :: "x86_segment \<Rightarrow> bool" where
  "is_x86_user_segment seg \<longleftrightarrow> seg \<le> X86_seg_gs"

text \<open>
  The switch of \<open>hvm_get_segment_register\<close>: the case for \<open>tr\<close> falls through to the one for \<open>cs\<close>.
\<close>

definition segment_fixup :: "x86_segment \<Rightarrow> segment_register \<Rightarrow> segment_register" where
  "segment_fixup seg reg = (case seg of
     X86_seg_ss \<Rightarrow> if \<not> attr_flag bit_p reg then put_flag bit_db False reg else reg
   | X86_seg_tr \<Rightarrow> put_flag bit_p True (put_flag bit_busy True reg)
   | X86_seg_cs \<Rightarrow> put_flag bit_p True reg
   | X86_seg_gdtr \<Rightarrow> reg\<lparr>attr := 0x80\<rparr>
   | X86_seg_idtr \<Rightarrow> reg\<lparr>attr := 0x80\<rparr>
   | _ \<Rightarrow> reg)"

text \<open>\<open>raw\<close> is what \<open>hvm_funcs.get_segment_register\<close> stores.\<close>

definition hvm_get_segment_register :: "x86_segment \<Rightarrow> segment_register \<Rightarrow> segment_register" where
  "hvm_get_segment_register seg raw =
     (let reg = segment_fixup seg raw in
      if attr_flag bit_p reg then
        let reg = put_flag bit_s (is_x86_user_segment seg) reg;
            reg = put_flag bit_g (drop_bit 20 (limit reg) \<noteq> 0) reg
        in if is_x86_user_segment seg then put_flag bit_accessed True reg else reg
      else reg)"

definition pack_selector :: "segment_register \<Rightarrow> selector_reg" where
  "pack_selector r =
     \<lparr>sr_limit = ucast (if attr_flag bit_g r then drop_bit 12 (limit r) else limit r),
      sr_ar = ucast (attr r)\<rparr>"

definition vm_event_pack_segment_register ::
    "x86_segment \<Rightarrow> segment_register \<Rightarrow> vm_event_regs \<Rightarrow> vm_event_regs" where
  "vm_event_pack_segment_register segment raw reg =
     (let seg = hvm_get_segment_register segment raw in
      case segment of
        X86_seg_ss \<Rightarrow> reg\<lparr>ss_base := ucast (base seg), ss := pack_selector seg, ss_sel := sel seg\<rparr>
      | X86_seg_fs \<Rightarrow> reg\<lparr>fs_base := base seg, fs := pack_selector seg, fs_sel := sel seg\<rparr>
      | X86_seg_gs \<Rightarrow> reg\<lparr>gs_base := base seg, gs := pack_selector seg, gs_sel := sel seg\<rparr>
      | X86_seg_cs \<Rightarrow> reg\<lparr>cs_base := ucast (base seg), cs := pack_selector seg, cs_sel := sel seg\<rparr>
      | X86_seg_ds \<Rightarrow> reg\<lparr>ds_base := ucast (base seg), ds := pack_selector seg, ds_sel := sel seg\<rparr>
      | X86_seg_es \<Rightarrow> reg\<lparr>es_base := ucast (base seg), es := pack_selector seg, es_sel := sel seg\<rparr>
      | _ \<Rightarrow> reg)"

section \<open>Flags\<close>

lemma put_flag_simps [simp]:
  "sel (put_flag n b r) = sel r" "limit (put_flag n b r) = limit r" "base (put_flag n b r) = base r"
  by (simp_all add: put_flag_def)

lemma attr_update_put_flag [simp]: "(put_flag n b r)\<lparr>attr := a\<rparr> = r\<lparr>attr := a\<rparr>"
  by (simp add: put_flag_def)

lemma bit_put_flag: "k < 16 \<Longrightarrow> bit (attr (put_flag k b r)) n = (if n = k then b else bit (attr r) n)"
  by (auto simp: put_flag_def bit_set_bit_iff bit_unset_bit_iff)

lemma attr_flag_put: "k < 16 \<Longrightarrow> attr_flag n (put_flag k b r) = (if n = k then b else attr_flag n r)"
  by (simp add: attr_flag_def bit_put_flag)

lemma attr_flag_attr [simp]: "attr_flag n (r\<lparr>attr := a\<rparr>) = bit a n"
  by (simp add: attr_flag_def)

lemma put_flag_same: "k < 16 \<Longrightarrow> attr_flag k r = b \<Longrightarrow> put_flag k b r = r"
proof -
  assume "k < 16" "attr_flag k r = b"
  then have "(if b then set_bit k (attr r) else unset_bit k (attr r)) = attr r"
    by (intro bit_word_eqI) (auto simp: attr_flag_def bit_set_bit_iff bit_unset_bit_iff)
  then show "put_flag k b r = r" by (simp only: put_flag_def) simp
qed

lemma bit_0x80: "bit (0x80 :: u16) n \<longleftrightarrow> n = 7"
proof -
  have "(0x80 :: u16) = push_bit 7 1" by simp
  then show ?thesis by (simp only: bit_push_bit_iff) (auto simp: bit_1_iff)
qed

lemmas flag_simps = attr_flag_put attr_bits bit_0x80

lemma fixup_present:
  "attr_flag bit_p (segment_fixup seg r) \<longleftrightarrow>
   attr_flag bit_p r \<or> seg \<in> {X86_seg_cs, X86_seg_tr, X86_seg_gdtr, X86_seg_idtr}"
  by (cases seg) (simp_all add: segment_fixup_def flag_simps)

section \<open>What a reader can rely on\<close>

text \<open>
  C24. Whatever the hardware stores, a segment register read this way is canonical: \<open>cs\<close>, \<open>tr\<close> and
  the descriptor tables are present, a task segment is busy, an absent stack segment is 16-bit; in
  a present segment \<open>s\<close> says whether it is a user segment, \<open>g\<close> whether the limit needs more than 20
  bits, and a user segment is accessed. Reading a canonical register changes nothing.
\<close>

definition canonical :: "x86_segment \<Rightarrow> segment_register \<Rightarrow> bool" where
  "canonical seg r \<longleftrightarrow>
     (seg \<in> {X86_seg_cs, X86_seg_tr, X86_seg_gdtr, X86_seg_idtr} \<longrightarrow> attr_flag bit_p r) \<and>
     (seg = X86_seg_tr \<longrightarrow> attr_flag bit_busy r) \<and>
     (seg = X86_seg_ss \<and> \<not> attr_flag bit_p r \<longrightarrow> \<not> attr_flag bit_db r) \<and>
     (attr_flag bit_p r \<longrightarrow>
        (attr_flag bit_s r \<longleftrightarrow> is_x86_user_segment seg) \<and>
        (attr_flag bit_g r \<longleftrightarrow> drop_bit 20 (limit r) \<noteq> 0) \<and>
        (is_x86_user_segment seg \<longrightarrow> attr_flag bit_accessed r))"

lemma limit_fixup [simp]: "limit (segment_fixup seg r) = limit r"
  by (cases seg) (simp_all add: segment_fixup_def)

theorem hvm_get_segment_register_canonical:
  "canonical seg (hvm_get_segment_register seg raw) \<and>
   hvm_get_segment_register seg (hvm_get_segment_register seg raw) = hvm_get_segment_register seg raw"
  by (cases seg) (auto simp: canonical_def hvm_get_segment_register_def segment_fixup_def Let_def
      is_x86_user_segment_def less_eq_x86_segment_def flag_simps put_flag_same)

text \<open>How a listener reads the packed limit: \<open>g\<close> is bit 11 of the access rights.\<close>

definition unpack_limit :: "selector_reg \<Rightarrow> u32" where
  "unpack_limit sr =
     (if bit (sr_ar sr) bit_g then push_bit 12 (ucast (sr_limit sr)) OR 0xfff else ucast (sr_limit sr))"

fun selector_of :: "x86_segment \<Rightarrow> vm_event_regs \<Rightarrow> selector_reg" where
  "selector_of X86_seg_cs r = cs r"
| "selector_of X86_seg_ss r = ss r"
| "selector_of X86_seg_ds r = ds r"
| "selector_of X86_seg_es r = es r"
| "selector_of X86_seg_fs r = fs r"
| "selector_of _ r = gs r"

fun base_of :: "x86_segment \<Rightarrow> vm_event_regs \<Rightarrow> u64" where
  "base_of X86_seg_cs r = ucast (cs_base r)"
| "base_of X86_seg_ss r = ucast (ss_base r)"
| "base_of X86_seg_ds r = ucast (ds_base r)"
| "base_of X86_seg_es r = ucast (es_base r)"
| "base_of X86_seg_fs r = fs_base r"
| "base_of _ r = gs_base r"

fun sel_of :: "x86_segment \<Rightarrow> vm_event_regs \<Rightarrow> u16" where
  "sel_of X86_seg_cs r = cs_sel r"
| "sel_of X86_seg_ss r = ss_sel r"
| "sel_of X86_seg_ds r = ds_sel r"
| "sel_of X86_seg_es r = es_sel r"
| "sel_of X86_seg_fs r = fs_sel r"
| "sel_of _ r = gs_sel r"

text \<open>The event has room for 64 bits of the base of \<open>fs\<close> and \<open>gs\<close>, for 32 of the others.\<close>

definition packed_base :: "x86_segment \<Rightarrow> u64 \<Rightarrow> u64" where
  "packed_base seg b = (if seg = X86_seg_fs \<or> seg = X86_seg_gs then b else take_bit 32 b)"

lemma user_segment_cases:
  "is_x86_user_segment seg \<longleftrightarrow>
   seg \<in> {X86_seg_es, X86_seg_cs, X86_seg_ss, X86_seg_ds, X86_seg_fs, X86_seg_gs}"
  by (cases seg) (simp_all add: is_x86_user_segment_def less_eq_x86_segment_def)

lemma narrow_base: "(ucast (ucast b :: u32) :: u64) = take_bit 32 b" for b :: u64
  by (intro bit_word_eqI) (auto simp: bit_simps)

lemma get_segment_keeps [simp]:
  "sel (hvm_get_segment_register seg raw) = sel raw" "base (hvm_get_segment_register seg raw) = base raw"
  "limit (hvm_get_segment_register seg raw) = limit raw"
  by (cases seg; simp add: hvm_get_segment_register_def segment_fixup_def Let_def)+

lemma pack_writes:
  assumes "is_x86_user_segment seg"
  shows "selector_of seg (vm_event_pack_segment_register seg raw reg) =
      pack_selector (hvm_get_segment_register seg raw)"
    and "base_of seg (vm_event_pack_segment_register seg raw reg) = packed_base seg (base raw)"
    and "sel_of seg (vm_event_pack_segment_register seg raw reg) = sel raw"
  using assms
  by (auto simp: user_segment_cases vm_event_pack_segment_register_def packed_base_def narrow_base Let_def)

text \<open>What an event says about one segment, and that a packing of another one leaves it alone.\<close>

definition same_segment :: "x86_segment \<Rightarrow> vm_event_regs \<Rightarrow> vm_event_regs \<Rightarrow> bool" where
  "same_segment seg r r' \<longleftrightarrow>
     selector_of seg r' = selector_of seg r \<and> base_of seg r' = base_of seg r \<and> sel_of seg r' = sel_of seg r"

lemma pack_keeps:
  "is_x86_user_segment seg \<Longrightarrow> is_x86_user_segment other \<Longrightarrow> other \<noteq> seg \<Longrightarrow>
   same_segment other reg (vm_event_pack_segment_register seg raw reg)"
  "other_regs (vm_event_pack_segment_register seg raw reg) = other_regs reg"
  by (auto simp: user_segment_cases same_segment_def vm_event_pack_segment_register_def Let_def
      split: x86_segment.split)

lemma fff_mask: "(0xfff :: u32) = mask 12"
  by (simp add: mask_eq_exp_minus_1)

text \<open>Twenty bits are enough for the limit once it is counted in pages when it needs more.\<close>

lemma pack_limit_roundtrip:
  assumes "attr_flag bit_g r \<longleftrightarrow> drop_bit 20 (limit r) \<noteq> 0"
  shows "unpack_limit (pack_selector r) =
    (if drop_bit 20 (limit r) = 0 then limit r else limit r OR 0xfff)"
proof (cases "drop_bit 20 (limit r) = 0")
  case True
  have "\<not> bit (limit r) n" if "20 \<le> n" for n
    using arg_cong [OF True, of "\<lambda>w. bit w (n - 20)"] that by (simp add: bit_drop_bit_eq)
  then have "(ucast (ucast (limit r) :: 20 word) :: u32) = limit r"
    by (intro bit_word_eqI) (auto simp: bit_simps not_less [symmetric])
  with True assms show ?thesis
    by (simp add: unpack_limit_def pack_selector_def attr_flag_def bit_simps bit_g_def)
next
  case False
  then have g: "attr_flag bit_g r" using assms by simp
  have "push_bit 12 (ucast (ucast (drop_bit 12 (limit r)) :: 20 word)) OR 0xfff = limit r OR 0xfff"
    unfolding fff_mask by (intro bit_word_eqI) (auto simp: bit_simps)
  with False g show ?thesis
    by (simp add: unpack_limit_def pack_selector_def attr_flag_def bit_simps bit_g_def)
qed

text \<open>
  C25. Packing a present user segment writes all that the event says about this segment and nothing
  else. The selector is the segment's; so is the base, of which the event has all 64 bits for \<open>fs\<close> and
  \<open>gs\<close> and the low 32 for the others; the access rights are the low 12 bits of the attributes; and the
  limit, packed into 20 bits, reads back exactly when it needs no more than 20 bits, and otherwise
  with its low 12 bits set, which is the same limit in the case of a segment whose limit ends a page.
  Selector, base, limit and access rights of every other segment and all other registers of the
  event stay as they were. Packing anything but a user segment changes nothing.
\<close>

theorem vm_event_pack_roundtrip:
  assumes "attr_flag bit_p (hvm_get_segment_register seg raw)"
  shows "let reg' = vm_event_pack_segment_register seg raw reg in
    if is_x86_user_segment seg
    then unpack_limit (selector_of seg reg') =
        (if drop_bit 20 (limit raw) = 0 then limit raw else limit raw OR 0xfff) \<and>
      sr_ar (selector_of seg reg') = ucast (attr (hvm_get_segment_register seg raw)) \<and>
      sel_of seg reg' = sel raw \<and>
      base_of seg reg' = (if seg = X86_seg_fs \<or> seg = X86_seg_gs then base raw else take_bit 32 (base raw)) \<and>
      (\<forall>other. is_x86_user_segment other \<and> other \<noteq> seg \<longrightarrow>
         selector_of other reg' = selector_of other reg \<and> base_of other reg' = base_of other reg \<and>
         sel_of other reg' = sel_of other reg) \<and>
      other_regs reg' = other_regs reg
    else reg' = reg"
proof (cases "is_x86_user_segment seg")
  case True
  have "attr_flag bit_g (hvm_get_segment_register seg raw) \<longleftrightarrow> drop_bit 20 (limit raw) \<noteq> 0"
    using assms by (auto simp: hvm_get_segment_register_def Let_def flag_simps split: if_splits)
  moreover have "sr_ar (pack_selector r) = ucast (attr r)" for r by (simp add: pack_selector_def)
  ultimately show ?thesis
    using True pack_limit_roundtrip [of "hvm_get_segment_register seg raw"] pack_keeps(1) [of seg _ reg raw] pack_keeps(2) [of seg raw reg]
    unfolding same_segment_def Let_def by (simp add: pack_writes packed_base_def)
next
  case False
  then show ?thesis
    by (cases seg) (simp_all add: user_segment_cases vm_event_pack_segment_register_def Let_def)
qed

definition no_regs :: vm_event_regs where
  "no_regs =
     \<lparr>cs_base = 0, ss_base = 0, ds_base = 0, es_base = 0, fs_base = 0, gs_base = 0,
      cs = \<lparr>sr_limit = 0, sr_ar = 0\<rparr>, ss = \<lparr>sr_limit = 0, sr_ar = 0\<rparr>, ds = \<lparr>sr_limit = 0, sr_ar = 0\<rparr>,
      es = \<lparr>sr_limit = 0, sr_ar = 0\<rparr>, fs = \<lparr>sr_limit = 0, sr_ar = 0\<rparr>, gs = \<lparr>sr_limit = 0, sr_ar = 0\<rparr>,
      cs_sel = 0, ss_sel = 0, ds_sel = 0, es_sel = 0, fs_sel = 0, gs_sel = 0, other_regs = []\<rparr>"

theorem vm_event_pack_roundtrip_witness:
  "unpack_limit (cs (vm_event_pack_segment_register X86_seg_cs
     \<lparr>sel = 8, attr = 0, limit = 0xffffffff, base = 5\<rparr> no_regs)) = 0xffffffff OR 0xfff \<and>
   cs_sel (vm_event_pack_segment_register X86_seg_cs
     \<lparr>sel = 8, attr = 0, limit = 0xffffffff, base = 5\<rparr> no_regs) = 8"
  using vm_event_pack_roundtrip [of X86_seg_cs "\<lparr>sel = 8, attr = 0, limit = 0xffffffff, base = 5\<rparr>" no_regs]
  by (simp add: user_segment_cases hvm_get_segment_register_def segment_fixup_def flag_simps Let_def)

end
