(* ===== verification/Vm_Event.thy ===== *)
theory Vm_Event
  imports Segment
begin

text \<open>
  The monitor events of vm_event_verified.c: creating and freeing the per-vCPU state of a domain,
  and the handling of a response. Objects are reached by address: a heap maps the addresses of live
  objects to their contents, and \<open>None\<close> is an access to anything else, or a loop that never ends.
  The empty structures for emulation data stand as opaque bytes.
\<close>

section \<open>Data\<close>

datatype guest_type = Guest_type_pv | Guest_type_hvm

record do_write =
  dw_msr :: u32
  dw_cr0 :: u32
  dw_cr3 :: u32
  dw_cr4 :: u32

text \<open>The last member written to the union \<open>emul\<close>.\<close>

datatype emul_data = Emul_read "u8 list" | Emul_insn "u8 list"

record arch_vm_event =
  emulate_flags :: u32
  emul :: emul_data
  gprs :: vm_event_regs
  set_gprs :: bool
  sync_event :: bool
  write_data :: do_write

record vcpu =
  next_in_list :: addr
  vm_event :: addr
  next_interrupt_enabled :: bool
  single_step :: bool
  vm_event_pause_count :: int

record vm_domain =
  first_vcpu :: addr   \<comment> \<open>\<open>d->vcpu ? d->vcpu[0] : NULL\<close>\<close>
  dom_guest_type :: guest_type
  mem_access_emulate_each_rep :: bool

record vm_heap =
  vcpus :: "addr \<rightharpoonup> vcpu"
  events :: "addr \<rightharpoonup> arch_vm_event"

record vm_event_response =
  rsp_flags :: u32
  rsp_reason :: u32
  ctrlreg_index :: u32
  rsp_read :: "u8 list"
  rsp_insn :: "u8 list"
  rsp_regs :: vm_event_regs

text \<open>\<open>VM_EVENT_FLAG_X\<close> is \<open>1 << flag_x\<close>.\<close>

definition flag_emulate :: nat where "flag_emulate = 2"
definition flag_toggle_singlestep :: nat where "flag_toggle_singlestep = 4"
definition flag_set_emul_read_data :: nat where "flag_set_emul_read_data = 5"
definition flag_deny :: nat where "flag_deny = 6"
definition flag_set_emul_insn_data :: nat where "flag_set_emul_insn_data = 9"

definition REASON_MEM_ACCESS :: u32 where "REASON_MEM_ACCESS = 1"
definition REASON_WRITE_CTRLREG :: u32 where "REASON_WRITE_CTRLREG = 4"
definition REASON_MOV_TO_MSR :: u32 where "REASON_MOV_TO_MSR = 5"
definition REASON_SOFTWARE_BREAKPOINT :: u32 where "REASON_SOFTWARE_BREAKPOINT = 6"
definition REASON_DESCRIPTOR_ACCESS :: u32 where "REASON_DESCRIPTOR_ACCESS = 13"

lemmas reasons = REASON_MEM_ACCESS_def REASON_WRITE_CTRLREG_def REASON_MOV_TO_MSR_def
  REASON_SOFTWARE_BREAKPOINT_def REASON_DESCRIPTOR_ACCESS_def

definition has_flag :: "vm_event_response \<Rightarrow> nat \<Rightarrow> bool" where
  "has_flag rsp n \<longleftrightarrow> rsp_flags rsp AND push_bit n 1 \<noteq> 0"

section \<open>Creating and freeing\<close>

text \<open>
  The \<open>n\<close>-th allocation returns \<open>malloc n\<close>, whose contents are undetermined (\<open>junk n\<close>): the call of
  \<open>xzalloc\<close> is commented out. The result carries the number of allocations made.
\<close>

partial_function (option) init_loop ::
    "(nat \<Rightarrow> addr) \<Rightarrow> (nat \<Rightarrow> arch_vm_event) \<Rightarrow> addr \<Rightarrow> nat \<Rightarrow> vm_heap \<Rightarrow> (int \<times> nat \<times> vm_heap) option" where
  "init_loop malloc junk v n h =
     (if v = NULL then Some (0, n, h)
      else do {
        c \<leftarrow> vcpus h v;
        if vm_event c \<noteq> NULL then init_loop malloc junk (next_in_list c) n h
        else
          let h = h\<lparr>vcpus := (vcpus h)(v \<mapsto> c\<lparr>vm_event := malloc n\<rparr>)\<rparr> in
          if malloc n = NULL then Some (- ENOMEM, Suc n, h)
          else init_loop malloc junk (next_in_list c) (Suc n)
            (h\<lparr>events := (events h)(malloc n \<mapsto> junk n)\<rparr>) })"

definition vm_event_init_domain ::
    "(nat \<Rightarrow> addr) \<Rightarrow> (nat \<Rightarrow> arch_vm_event) \<Rightarrow> vm_domain \<Rightarrow> vm_heap \<Rightarrow> (int \<times> nat \<times> vm_heap) option" where
  "vm_event_init_domain malloc junk d h = init_loop malloc junk (first_vcpu d) 0 h"

text \<open>\<open>free\<close> of NULL does nothing; of anything but a live object it has no defined behaviour.\<close>

definition free_event :: "addr \<Rightarrow> vm_heap \<Rightarrow> vm_heap option" where
  "free_event p h =
     (if p = NULL then Some h
      else if events h p = None then None
      else Some (h\<lparr>events := (events h)(p := None)\<rparr>))"

partial_function (option) cleanup_loop :: "addr \<Rightarrow> vm_heap \<Rightarrow> vm_heap option" where
  "cleanup_loop v h =
     (if v = NULL then Some h
      else do {
        c \<leftarrow> vcpus h v;
        h \<leftarrow> free_event (vm_event c) h;
        let h = h\<lparr>vcpus := (vcpus h)(v \<mapsto> c\<lparr>vm_event := NULL\<rparr>)\<rparr>;
        cleanup_loop (next_in_list c) h })"

definition vm_event_cleanup_domain :: "vm_domain \<Rightarrow> vm_heap \<Rightarrow> (vm_domain \<times> vm_heap) option" where
  "vm_event_cleanup_domain d h = do {
     h \<leftarrow> cleanup_loop (first_vcpu d) h;
     Some (d\<lparr>mem_access_emulate_each_rep := False\<rparr>, h) }"

section \<open>Responses\<close>

text \<open>\<open>hook\<close> is the function pointer \<open>hvm_funcs.is_singlestep_supported\<close>; it is tested, not called.\<close>

definition hvm_is_singlestep_supported :: "(unit \<Rightarrow> bool) option \<Rightarrow> bool" where
  "hvm_is_singlestep_supported hook = (hook \<noteq> None)"

definition hvm_toggle_singlestep :: "(unit \<Rightarrow> bool) option \<Rightarrow> vcpu \<Rightarrow> vcpu" where
  "hvm_toggle_singlestep hook v =
     (if \<not> hvm_is_singlestep_supported hook then v
      else v\<lparr>single_step := \<not> single_step v\<rparr>)"

definition is_hvm_domain :: "vm_domain \<Rightarrow> bool" where
  "is_hvm_domain d = (dom_guest_type d = Guest_type_hvm)"

definition vm_event_toggle_singlestep ::
    "(unit \<Rightarrow> bool) option \<Rightarrow> vm_domain \<Rightarrow> vcpu \<Rightarrow> vm_event_response \<Rightarrow> vcpu" where
  "vm_event_toggle_singlestep hook d v rsp =
     (if \<not> has_flag rsp flag_toggle_singlestep then v
      else if \<not> is_hvm_domain d then v
      else hvm_toggle_singlestep hook v)"

text \<open>The object \<open>v->arch.vm_event\<close>, and its replacement.\<close>

definition get_event :: "vcpu \<Rightarrow> vm_heap \<Rightarrow> arch_vm_event option" where
  "get_event v h = (if vm_event v = NULL then None else events h (vm_event v))"

definition put_event :: "vcpu \<Rightarrow> arch_vm_event \<Rightarrow> vm_heap \<Rightarrow> vm_heap" where
  "put_event v e h = h\<lparr>events := (events h)(vm_event v \<mapsto> e)\<rparr>"

definition vm_event_register_write_resume ::
    "vcpu \<Rightarrow> vm_event_response \<Rightarrow> vm_heap \<Rightarrow> vm_heap option" where
  "vm_event_register_write_resume v rsp h =
     (if has_flag rsp flag_deny then
        if vm_event_pause_count v = 0 then Some h
        else if rsp_reason rsp = REASON_MOV_TO_MSR then do {
          e \<leftarrow> get_event v h;
          Some (put_event v (e\<lparr>write_data := (write_data e)\<lparr>dw_msr := 0\<rparr>\<rparr>) h) }
        else if rsp_reason rsp = REASON_WRITE_CTRLREG then
          if ctrlreg_index rsp = 0 then do {
            e \<leftarrow> get_event v h;
            Some (put_event v (e\<lparr>write_data := (write_data e)\<lparr>dw_cr0 := 0\<rparr>\<rparr>) h) }
          else if ctrlreg_index rsp = 1 then do {
            e \<leftarrow> get_event v h;
            Some (put_event v (e\<lparr>write_data := (write_data e)\<lparr>dw_cr3 := 0\<rparr>\<rparr>) h) }
          else if ctrlreg_index rsp = 2 then do {
            e \<leftarrow> get_event v h;
            Some (put_event v (e\<lparr>write_data := (write_data e)\<lparr>dw_cr4 := 0\<rparr>\<rparr>) h) }
          else Some h
        else Some h
      else Some h)"

definition vm_event_set_registers :: "vcpu \<Rightarrow> vm_event_response \<Rightarrow> vm_heap \<Rightarrow> vm_heap option" where
  "vm_event_set_registers v rsp h = do {
     e \<leftarrow> get_event v h;
     Some (put_event v (e\<lparr>gprs := rsp_regs rsp, set_gprs := True\<rparr>) h) }"

definition vm_event_monitor_next_interrupt :: "vcpu \<Rightarrow> vcpu" where
  "vm_event_monitor_next_interrupt v = v\<lparr>next_interrupt_enabled := True\<rparr>"

definition vm_event_sync_event :: "vcpu \<Rightarrow> bool \<Rightarrow> vm_heap \<Rightarrow> vm_heap option" where
  "vm_event_sync_event v value h = do {
     e \<leftarrow> get_event v h;
     Some (put_event v (e\<lparr>sync_event := value\<rparr>) h) }"

definition p2m_mem_access_emulate_check :: "vcpu \<Rightarrow> vm_event_response \<Rightarrow> bool" where
  "p2m_mem_access_emulate_check v rsp = False"

definition vm_event_emulate_check :: "vcpu \<Rightarrow> vm_event_response \<Rightarrow> vm_heap \<Rightarrow> vm_heap option" where
  "vm_event_emulate_check v rsp h =
     (if \<not> has_flag rsp flag_emulate then do {
        e \<leftarrow> get_event v h;
        Some (put_event v (e\<lparr>emulate_flags := 0\<rparr>) h) }
      else if rsp_reason rsp = REASON_MEM_ACCESS then
        if p2m_mem_access_emulate_check v rsp then do {
          e \<leftarrow> get_event v h;
          let e = (if has_flag rsp flag_set_emul_read_data then e\<lparr>emul := Emul_read (rsp_read rsp)\<rparr> else e);
          Some (put_event v (e\<lparr>emulate_flags := rsp_flags rsp\<rparr>) h) }
        else Some h
      else if rsp_reason rsp = REASON_SOFTWARE_BREAKPOINT then
        if has_flag rsp flag_set_emul_insn_data then do {
          e \<leftarrow> get_event v h;
          let e = e\<lparr>emul := Emul_insn (rsp_insn rsp)\<rparr>;
          Some (put_event v (e\<lparr>emulate_flags := rsp_flags rsp\<rparr>) h) }
        else Some h
      else if rsp_reason rsp = REASON_DESCRIPTOR_ACCESS then do {
        e \<leftarrow> get_event v h;
        let e = (if has_flag rsp flag_set_emul_read_data then e\<lparr>emul := Emul_read (rsp_read rsp)\<rparr> else e);
        Some (put_event v (e\<lparr>emulate_flags := rsp_flags rsp\<rparr>) h) }
      else Some h)"

section \<open>The list of vCPUs\<close>

text \<open>The vCPUs \<open>xs\<close> are linked from \<open>v\<close> on, up to NULL.\<close>

fun vcpu_list :: "(addr \<rightharpoonup> vcpu) \<Rightarrow> addr \<Rightarrow> addr list \<Rightarrow> bool" where
  "vcpu_list vs v [] \<longleftrightarrow> v = NULL"
| "vcpu_list vs v (x # xs) \<longleftrightarrow> v = x \<and> x \<noteq> NULL \<and>
     (case vs x of None \<Rightarrow> False | Some c \<Rightarrow> vcpu_list vs (next_in_list c) xs)"

lemma vcpu_list_Cons_iff:
  "vcpu_list vs v (x # xs) \<longleftrightarrow>
   v = x \<and> x \<noteq> NULL \<and> (\<exists>c. vs x = Some c \<and> vcpu_list vs (next_in_list c) xs)"
  by (auto split: option.splits)

lemma vcpu_list_upd:
  "x \<notin> set xs \<Longrightarrow> vcpu_list (vs(x \<mapsto> c)) v xs = vcpu_list vs v xs"
  by (induction xs arbitrary: v) (auto split: option.split)

lemma vcpu_list_events:
  assumes "\<And>x. x \<in> set xs \<Longrightarrow> vs' x = map_option (\<lambda>c. c\<lparr>vm_event := ev x\<rparr>) (vs x)"
  shows "vcpu_list vs' v xs = vcpu_list vs v xs"
  using assms by (induction xs arbitrary: v) (auto split: option.split)

lemma vcpu_list_live: "vcpu_list vs v xs \<Longrightarrow> x \<in> set xs \<Longrightarrow> \<exists>c. vs x = Some c"
  by (induction xs arbitrary: v) (auto split: option.splits)

text \<open>
  What the creation has done, in full or up to a failed allocation: the vCPUs of \<open>xs\<close> point to
  \<open>ev\<close>, to pairwise different objects that are new in \<open>h'\<close>, and nothing else differs.
\<close>

definition attached :: "(addr \<Rightarrow> addr) \<Rightarrow> addr list \<Rightarrow> vm_heap \<Rightarrow> vm_heap \<Rightarrow> bool" where
  "attached ev xs h h' \<longleftrightarrow>
     (\<forall>x. vcpus h' x = (if x \<in> set xs then map_option (\<lambda>c. c\<lparr>vm_event := ev x\<rparr>) (vcpus h x) else vcpus h x)) \<and>
     (\<forall>x \<in> set xs. \<forall>y \<in> set xs. ev x \<noteq> NULL \<and> ev x = ev y \<longrightarrow> x = y) \<and>
     (\<forall>p. if p \<in> ev ` set xs \<and> p \<noteq> NULL then events h p = None \<and> events h' p \<noteq> None
        else events h' p = events h p)"

definition fresh_from :: "nat \<Rightarrow> (nat \<Rightarrow> addr) \<Rightarrow> vm_heap \<Rightarrow> bool" where
  "fresh_from n malloc h \<longleftrightarrow>
     (\<forall>i \<ge> n. malloc i \<noteq> NULL \<longrightarrow> events h (malloc i) = None) \<and>
     (\<forall>i \<ge> n. \<forall>j \<ge> n. malloc i \<noteq> NULL \<and> malloc i = malloc j \<longrightarrow> i = j)"

lemma fresh_from_Suc:
  assumes "fresh_from n malloc h" "malloc n \<noteq> NULL"
  shows "fresh_from (Suc n) malloc (h\<lparr>vcpus := vs, events := (events h)(malloc n \<mapsto> e)\<rparr>)"
proof -
  have "malloc i \<noteq> malloc n" if "Suc n \<le> i" "malloc i \<noteq> NULL" for i
    using assms that by (metis fresh_from_def Suc_leD not_less_eq_eq order_refl)
  then show ?thesis using assms by (auto simp: fresh_from_def dest: Suc_leD)
qed

lemma attached_nothing:
  assumes "\<And>x c. x \<in> set xs \<Longrightarrow> vcpus h x = Some c \<Longrightarrow> vm_event c = NULL"
  shows "attached (\<lambda>_. NULL) xs h h"
  using assms by (auto simp: attached_def map_option_case split: option.split)

lemma attached_Cons:
  assumes "attached ev xs (h\<lparr>vcpus := (vcpus h)(x \<mapsto> c\<lparr>vm_event := p\<rparr>), events := (events h)(p \<mapsto> e)\<rparr>) h'"
    and "vcpus h x = Some c" "x \<notin> set xs" "p \<noteq> NULL" "events h p = None"
  shows "attached (ev(x := p)) (x # xs) h h'"
proof -
  have vs: "vcpus h' y = (if y \<in> set xs then map_option (\<lambda>d. d\<lparr>vm_event := ev y\<rparr>) (((vcpus h)(x \<mapsto> c\<lparr>vm_event := p\<rparr>)) y)
      else ((vcpus h)(x \<mapsto> c\<lparr>vm_event := p\<rparr>)) y)" for y
    using assms(1) by (simp add: attached_def)
  have inj: "y = z" if "y \<in> set xs" "z \<in> set xs" "ev y \<noteq> NULL" "ev y = ev z" for y z
    using assms(1) that by (auto simp: attached_def)
  have es: "if q \<in> ev ` set xs \<and> q \<noteq> NULL then ((events h)(p \<mapsto> e)) q = None \<and> events h' q \<noteq> None
      else events h' q = ((events h)(p \<mapsto> e)) q" for q
    using conjunct2 [OF conjunct2 [OF assms(1) [unfolded attached_def]], THEN spec, of q]
    by (simp cong: if_cong)
  have new: "p \<notin> ev ` set xs" using es [of p] assms(4) by (auto split: if_splits)
  have im: "(ev(x := p)) ` set (x # xs) = insert p (ev ` set xs)" using assms(3) by auto
  show ?thesis
    unfolding attached_def
  proof (intro conjI)
    show "\<forall>y. vcpus h' y = (if y \<in> set (x # xs) then map_option (\<lambda>d. d\<lparr>vm_event := (ev(x := p)) y\<rparr>) (vcpus h y)
        else vcpus h y)"
      using vs assms(2,3) by auto
    show "\<forall>y \<in> set (x # xs). \<forall>z \<in> set (x # xs).
        (ev(x := p)) y \<noteq> NULL \<and> (ev(x := p)) y = (ev(x := p)) z \<longrightarrow> y = z"
      using inj new by (auto intro: rev_image_eqI)
    show "\<forall>q. if q \<in> (ev(x := p)) ` set (x # xs) \<and> q \<noteq> NULL then events h q = None \<and> events h' q \<noteq> None
        else events h' q = events h q"
    proof
      fix q
      show "if q \<in> (ev(x := p)) ` set (x # xs) \<and> q \<noteq> NULL then events h q = None \<and> events h' q \<noteq> None
        else events h' q = events h q"
        unfolding im using es [of q] new assms(4,5) by (cases "q = p") (auto split: if_splits)
    qed
  qed
qed

text \<open>How the creation ends for \<open>k\<close> vCPUs without event, from the \<open>n\<close>-th allocation on.\<close>

definition init_outcome :: "(nat \<Rightarrow> addr) \<Rightarrow> nat \<Rightarrow> nat \<Rightarrow> int \<Rightarrow> bool" where
  "init_outcome malloc n k r \<longleftrightarrow>
     r = 0 \<and> (\<forall>i. n \<le> i \<and> i < n + k \<longrightarrow> malloc i \<noteq> NULL) \<or>
     r = - ENOMEM \<and> (\<exists>i. n \<le> i \<and> i < n + k \<and> malloc i = NULL)"

lemma init_outcome_next:
  assumes "malloc n \<noteq> NULL" "init_outcome malloc (Suc n) k r"
  shows "init_outcome malloc n (Suc k) r"
proof -
  have "malloc i \<noteq> NULL" if "\<forall>i. Suc n \<le> i \<and> i < Suc n + k \<longrightarrow> malloc i \<noteq> NULL" "n \<le> i" "i < n + Suc k" for i
    using that assms(1) by (cases "i = n") auto
  then show ?thesis using assms(2) by (auto simp: init_outcome_def intro: Suc_leD)
qed

text \<open>One pass over a vCPU without event.\<close>

lemma init_loop_fails:
  assumes "v \<noteq> NULL" "vcpus h v = Some c" "vm_event c = NULL" "malloc n = NULL"
  shows "init_loop malloc junk v n h = Some (- ENOMEM, Suc n, h)"
proof -
  have "h\<lparr>vcpus := (vcpus h)(v \<mapsto> c\<lparr>vm_event := NULL\<rparr>)\<rparr> = h" using assms by (simp add: fun_upd_idem)
  then show ?thesis using assms by (subst init_loop.simps) (simp add: Let_def)
qed

lemma init_loop_allocates:
  assumes "v \<noteq> NULL" "vcpus h v = Some c" "vm_event c = NULL" "malloc n \<noteq> NULL"
  shows "init_loop malloc junk v n h = init_loop malloc junk (next_in_list c) (Suc n)
    (h\<lparr>vcpus := (vcpus h)(v \<mapsto> c\<lparr>vm_event := malloc n\<rparr>), events := (events h)(malloc n \<mapsto> junk n)\<rparr>)"
  using assms by (subst init_loop.simps) (simp add: Let_def)

text \<open>What the creation for the vCPUs \<open>xs\<close>, linked from \<open>v\<close> on, ends in.\<close>

definition creates ::
    "(nat \<Rightarrow> addr) \<Rightarrow> (nat \<Rightarrow> arch_vm_event) \<Rightarrow> addr \<Rightarrow> nat \<Rightarrow> vm_heap \<Rightarrow> addr list \<Rightarrow> bool" where
  "creates malloc junk v n h xs \<longleftrightarrow>
     (\<exists>r n' h' ev. init_loop malloc junk v n h = Some (r, n', h') \<and> attached ev xs h h' \<and>
       init_outcome malloc n (length xs) r \<and> (r = 0 \<longrightarrow> (\<forall>x \<in> set xs. ev x \<noteq> NULL)))"

lemma creates_fails:
  assumes "x \<noteq> NULL" "vcpus h x = Some c" "malloc n = NULL"
    and "\<And>y c. y \<in> set (x # xs) \<Longrightarrow> vcpus h y = Some c \<Longrightarrow> vm_event c = NULL"
  shows "creates malloc junk x n h (x # xs)"
proof -
  have "init_loop malloc junk x n h = Some (- ENOMEM, Suc n, h)"
    using assms(1-3) assms(4) [of x c] by (intro init_loop_fails) simp_all
  moreover have "init_outcome malloc n (length (x # xs)) (- ENOMEM)"
    using assms(3) by (auto simp: init_outcome_def)
  ultimately show ?thesis
    using attached_nothing [of "x # xs" h] assms(4) unfolding creates_def by (fastforce simp: ENOMEM_def)
qed

lemma creates_next:
  assumes "x \<noteq> NULL" "vcpus h x = Some c" "vm_event c = NULL" "x \<notin> set xs"
    and "malloc n \<noteq> NULL" "fresh_from n malloc h"
    and "creates malloc junk (next_in_list c) (Suc n)
      (h\<lparr>vcpus := (vcpus h)(x \<mapsto> c\<lparr>vm_event := malloc n\<rparr>), events := (events h)(malloc n \<mapsto> junk n)\<rparr>) xs"
      (is "creates _ _ _ _ ?h _")
  shows "creates malloc junk x n h (x # xs)"
proof -
  obtain r n' h' ev where h': "init_loop malloc junk x n h = Some (r, n', h')" "attached ev xs ?h h'"
    "init_outcome malloc (Suc n) (length xs) r" "r = 0 \<longrightarrow> (\<forall>x \<in> set xs. ev x \<noteq> NULL)"
    using assms(7) init_loop_allocates [OF assms(1-3), where malloc = malloc, OF assms(5)] unfolding creates_def by metis
  have "attached (ev(x := malloc n)) (x # xs) h h'"
    by (rule attached_Cons [OF h'(2) assms(2)]) (use assms(3-6) in \<open>auto simp: fresh_from_def\<close>)
  moreover have "init_outcome malloc n (length (x # xs)) r"
    using init_outcome_next [OF assms(5) h'(3)] by simp
  moreover have "r = 0 \<longrightarrow> (\<forall>y \<in> set (x # xs). (ev(x := malloc n)) y \<noteq> NULL)"
    using h'(4) assms(5) by simp
  ultimately show ?thesis using h'(1) unfolding creates_def by blast
qed

lemma init_loop_list:
  assumes "vcpu_list (vcpus h) v xs" "distinct xs" "fresh_from n malloc h"
    and "\<And>x c. x \<in> set xs \<Longrightarrow> vcpus h x = Some c \<Longrightarrow> vm_event c = NULL"
  shows "creates malloc junk v n h xs"
  using assms
proof (induction xs arbitrary: v n h)
  case Nil
  then show ?case
    using attached_nothing [of "[]" h] unfolding creates_def
    by (subst init_loop.simps) (auto simp: init_outcome_def)
next
  case (Cons x xs)
  then obtain c where c: "v = x" "x \<noteq> NULL" "vcpus h x = Some c" "vcpu_list (vcpus h) (next_in_list c) xs"
    unfolding vcpu_list_Cons_iff by blast
  have ev: "vm_event c = NULL" "x \<notin> set xs" "distinct xs"
    using Cons.prems(2) Cons.prems(4) [of x c] c(3) by simp_all
  show ?case
  proof (cases "malloc n = NULL")
    case True
    then show ?thesis using creates_fails [OF c(2,3)] Cons.prems(4) c(1) by simp
  next
    case False
    let ?h = "h\<lparr>vcpus := (vcpus h)(x \<mapsto> c\<lparr>vm_event := malloc n\<rparr>), events := (events h)(malloc n \<mapsto> junk n)\<rparr>"
    have "creates malloc junk (next_in_list c) (Suc n) ?h xs"
    proof (rule Cons.IH)
      show "fresh_from (Suc n) malloc ?h"
        using fresh_from_Suc [OF Cons.prems(3) False] by simp
      show "vcpu_list (vcpus ?h) (next_in_list c) xs"
        using c(4) ev(2) by (simp add: vcpu_list_upd del: fun_upd_apply)
      show "vm_event e = NULL" if "y \<in> set xs" "vcpus ?h y = Some e" for y e
        using that ev(2) Cons.prems(4) [of y e] by (cases "y = x") simp_all
    qed (rule ev(3))
    then show ?thesis
      using creates_next [OF c(2,3) ev(1,2) False Cons.prems(3)] c(1) by simp
  qed
qed

text \<open>Freeing every event of the list, given that they are live and pairwise different.\<close>

definition detached :: "addr list \<Rightarrow> vm_heap \<Rightarrow> vm_heap" where
  "detached xs h =
     \<lparr>vcpus = (\<lambda>x. if x \<in> set xs then map_option (\<lambda>c. c\<lparr>vm_event := NULL\<rparr>) (vcpus h x) else vcpus h x),
      events = (\<lambda>p. if p \<noteq> NULL \<and> (\<exists>x \<in> set xs. \<exists>c. vcpus h x = Some c \<and> vm_event c = p) then None
        else events h p)\<rparr>"

lemma cleanup_loop_list:
  assumes "vcpu_list (vcpus h) v xs" "distinct xs"
    and "\<And>x c. x \<in> set xs \<Longrightarrow> vcpus h x = Some c \<Longrightarrow> vm_event c \<noteq> NULL \<Longrightarrow> events h (vm_event c) \<noteq> None"
    and "\<And>x y c d. x \<in> set xs \<Longrightarrow> y \<in> set xs \<Longrightarrow> vcpus h x = Some c \<Longrightarrow> vcpus h y = Some d \<Longrightarrow>
      vm_event c \<noteq> NULL \<Longrightarrow> vm_event c = vm_event d \<Longrightarrow> x = y"
  shows "cleanup_loop v h = Some (detached xs h)"
  using assms
proof (induction xs arbitrary: v h)
  case Nil
  then show ?case by (subst cleanup_loop.simps) (simp add: detached_def)
next
  case (Cons x xs)
  obtain c where c: "v = x" "x \<noteq> NULL" "vcpus h x = Some c" "vcpu_list (vcpus h) (next_in_list c) xs"
    using Cons.prems(1) unfolding vcpu_list_Cons_iff by blast
  let ?es = "\<lambda>p. if p \<noteq> NULL \<and> p = vm_event c then None else events h p"
  let ?h = "\<lparr>vcpus = (vcpus h)(x \<mapsto> c\<lparr>vm_event := NULL\<rparr>), events = ?es\<rparr>"
  have "free_event (vm_event c) h = Some (h\<lparr>events := ?es\<rparr>)"
    using Cons.prems(3) [of x c] c(3)
    by (cases "vm_event c = NULL") (auto simp: free_event_def fun_eq_iff)
  then have run: "cleanup_loop v h = cleanup_loop (next_in_list c) ?h"
    using c by (cases h, subst cleanup_loop.simps) (simp add: Let_def)
  have "cleanup_loop (next_in_list c) ?h = Some (detached xs ?h)"
  proof (rule Cons.IH)
    show "events ?h (vm_event d) \<noteq> None"
      if "y \<in> set xs" "vcpus ?h y = Some d" "vm_event d \<noteq> NULL" for y d
    proof -
      have "y \<noteq> x" using that(1) Cons.prems(2) by auto
      with that(2) have y: "y \<noteq> x" "vcpus h y = Some d" by simp_all
      then have "vm_event d \<noteq> vm_event c"
        using Cons.prems(4) [of y x d c] that c(3) by auto
      then show ?thesis using Cons.prems(3) [of y d] that y by simp
    qed
    show "y = z" if "y \<in> set xs" "z \<in> set xs" "vcpus ?h y = Some d" "vcpus ?h z = Some f"
        "vm_event d \<noteq> NULL" "vm_event d = vm_event f" for y z d f
    proof -
      have "y \<noteq> x" "z \<noteq> x" using that(1,2) Cons.prems(2) by auto
      then have "vcpus h y = Some d" "vcpus h z = Some f" using that(3,4) by simp_all
      from Cons.prems(4) [OF _ _ this that(5,6)] show ?thesis
        using that(1,2) by (meson list.set_intros(2))
    qed
  qed (use Cons.prems(2) c(4) in \<open>simp_all add: vcpu_list_upd del: fun_upd_apply\<close>)
  moreover have "detached xs ?h = detached (x # xs) h"
    using Cons.prems(2) c(3) by (auto simp: detached_def fun_eq_iff)
  ultimately show ?case using run by simp
qed

text \<open>
  Handling a response changes the contents of the events of \<open>xs\<close> and two flags of its vCPUs, and
  neither the links nor which objects are live.
\<close>

definition quiet :: "vcpu \<Rightarrow> vcpu" where
  "quiet c = c\<lparr>next_interrupt_enabled := False, single_step := False\<rparr>"

definition same_shape :: "addr list \<Rightarrow> vm_heap \<Rightarrow> vm_heap \<Rightarrow> bool" where
  "same_shape xs h h' \<longleftrightarrow>
     (\<forall>x. map_option quiet (vcpus h' x) = map_option quiet (vcpus h x)) \<and>
     (\<forall>x. x \<notin> set xs \<longrightarrow> vcpus h' x = vcpus h x) \<and>
     (\<forall>p. events h' p = None \<longleftrightarrow> events h p = None) \<and>
     (\<forall>p. p = NULL \<or> (\<forall>x \<in> set xs. \<forall>c. vcpus h x = Some c \<longrightarrow> vm_event c \<noteq> p) \<longrightarrow>
       events h' p = events h p)"

lemma quiet_simps [simp]:
  "next_in_list (quiet c) = next_in_list c" "vm_event (quiet c) = vm_event c"
  "vm_event_pause_count (quiet c) = vm_event_pause_count c"
  by (simp_all add: quiet_def)

lemma quiet_eqD: "quiet c = quiet d \<Longrightarrow> next_in_list c = next_in_list d \<and> vm_event c = vm_event d"
  by (metis quiet_simps(1,2))

lemma same_shapeD:
  assumes "same_shape xs h h'"
  shows "map_option quiet (vcpus h' x) = map_option quiet (vcpus h x)"
    and "x \<notin> set xs \<Longrightarrow> vcpus h' x = vcpus h x"
    and "events h' p = None \<longleftrightarrow> events h p = None"
    and "p = NULL \<or> (\<forall>x \<in> set xs. \<forall>c. vcpus h x = Some c \<longrightarrow> vm_event c \<noteq> p) \<Longrightarrow>
      events h' p = events h p"
  using assms unfolding same_shape_def by blast+

lemma same_shape_refl: "same_shape xs h h"
  by (simp add: same_shape_def)

lemma same_shape_vcpuE:
  assumes "same_shape xs h h'" "vcpus h' x = Some d"
  obtains c where "vcpus h x = Some c" "vm_event d = vm_event c" "next_in_list d = next_in_list c"
    "quiet d = quiet c"
  using assms by (metis (no_types, lifting) map_option_eq_Some quiet_eqD same_shape_def)

lemma same_shape_sym_vcpuE:
  assumes "same_shape xs h h'" "vcpus h x = Some c"
  obtains d where "vcpus h' x = Some d" "vm_event d = vm_event c" "next_in_list d = next_in_list c"
    "quiet d = quiet c"
  using assms by (metis (no_types, lifting) map_option_eq_Some quiet_eqD same_shape_def)

lemma same_shape_trans:
  assumes 1: "same_shape xs h h'" and 2: "same_shape xs h' h''"
  shows "same_shape xs h h''"
proof -
  have "events h'' p = events h p"
    if p: "p = NULL \<or> (\<forall>x \<in> set xs. \<forall>c. vcpus h x = Some c \<longrightarrow> vm_event c \<noteq> p)" for p
  proof -
    have "p = NULL \<or> (\<forall>x \<in> set xs. \<forall>c. vcpus h' x = Some c \<longrightarrow> vm_event c \<noteq> p)"
      using p by (metis same_shape_vcpuE [OF 1])
    then have "events h'' p = events h' p" by (rule same_shapeD(4) [OF 2])
    also have "\<dots> = events h p" using p by (rule same_shapeD(4) [OF 1])
    finally show ?thesis .
  qed
  then show ?thesis
    unfolding same_shape_def using same_shapeD(1-3) [OF 1] same_shapeD(1-3) [OF 2] by simp
qed

lemma same_shape_list:
  assumes "same_shape xs h h'" "vcpu_list (vcpus h) v ys"
  shows "vcpu_list (vcpus h') v ys"
  using assms(2)
proof (induction ys arbitrary: v)
  case (Cons y ys)
  then obtain c where c: "vcpus h y = Some c" "v = y" "y \<noteq> NULL" "vcpu_list (vcpus h) (next_in_list c) ys"
    unfolding vcpu_list_Cons_iff by blast
  obtain d where "vcpus h' y = Some d" "next_in_list d = next_in_list c"
    using same_shape_sym_vcpuE [OF assms(1) c(1)] by metis
  then show ?case using c Cons.IH by simp
qed simp

text \<open>Freeing what the creation attached gives back the events there were, responses in between or not.\<close>

lemma attachedD:
  assumes "attached ev xs h h'"
  shows "vcpus h' x = (if x \<in> set xs then map_option (\<lambda>c. c\<lparr>vm_event := ev x\<rparr>) (vcpus h x) else vcpus h x)"
    and "x \<in> set xs \<Longrightarrow> y \<in> set xs \<Longrightarrow> ev x \<noteq> NULL \<Longrightarrow> ev x = ev y \<Longrightarrow> x = y"
    and "if p \<in> ev ` set xs \<and> p \<noteq> NULL then events h p = None \<and> events h' p \<noteq> None
        else events h' p = events h p"
  using assms by (simp_all add: attached_def)

lemma attached_vm_event:
  "attached ev xs h h' \<Longrightarrow> x \<in> set xs \<Longrightarrow> vcpus h' x = Some c \<Longrightarrow> vm_event c = ev x"
  using attachedD(1) [of ev xs h h' x] by auto

lemma cleanup_attached:
  assumes l: "vcpu_list (vcpus h) v xs" "distinct xs" and at: "attached ev xs h h1"
    and sh: "same_shape xs h1 h2"
  shows "cleanup_loop v h2 = Some (detached xs h2)" and "events (detached xs h2) = events h"
proof -
  have ev: "vm_event c = ev x" if "x \<in> set xs" "vcpus h2 x = Some c" for x c
    using that attached_vm_event [OF at] by (metis same_shape_vcpuE [OF sh])
  have live: "\<exists>c. vcpus h2 x = Some c" if x: "x \<in> set xs" for x
  proof -
    obtain c where "vcpus h1 x = Some c"
      using vcpu_list_live [OF l(1) x] x attachedD(1) [OF at, of x] by auto
    then show ?thesis by (rule same_shape_sym_vcpuE [OF sh]) blast
  qed
  show "cleanup_loop v h2 = Some (detached xs h2)"
  proof (rule cleanup_loop_list)
    show "vcpu_list (vcpus h2) v xs"
      using l(1) attachedD(1) [OF at]
      by (intro same_shape_list [OF sh], subst vcpu_list_events [where vs = "vcpus h" and ev = ev]) simp_all
    show "events h2 (vm_event c) \<noteq> None" if "x \<in> set xs" "vcpus h2 x = Some c" "vm_event c \<noteq> NULL" for x c
      using that ev [of x c] attachedD(3) [OF at, of "ev x"] same_shapeD(3) [OF sh, of "ev x"]
      by simp
    show "x = y" if "x \<in> set xs" "y \<in> set xs" "vcpus h2 x = Some c" "vcpus h2 y = Some e"
        "vm_event c \<noteq> NULL" "vm_event c = vm_event e" for x y c e
      using that ev attachedD(2) [OF at, of x y] by metis
  qed (rule l(2))
  have "events (detached xs h2) p = events h p" for p
  proof (cases "p \<in> ev ` set xs \<and> p \<noteq> NULL")
    case True
    then obtain x c where "x \<in> set xs" "p = ev x" "vcpus h2 x = Some c" using live by blast
    then have "\<exists>x \<in> set xs. \<exists>c. vcpus h2 x = Some c \<and> vm_event c = p" using ev by blast
    then show ?thesis using True attachedD(3) [OF at, of p] by (simp add: detached_def)
  next
    case False
    then have no: "\<not> (p \<noteq> NULL \<and> (\<exists>x \<in> set xs. \<exists>c. vcpus h2 x = Some c \<and> vm_event c = p))"
      using ev by blast
    have "p = NULL \<or> (\<forall>x \<in> set xs. \<forall>c. vcpus h1 x = Some c \<longrightarrow> vm_event c \<noteq> p)"
      using False attached_vm_event [OF at] by blast
    then have "events h2 p = events h1 p" by (rule same_shapeD(4) [OF sh])
    then show ?thesis using False no attachedD(3) [OF at, of p] by (auto simp: detached_def)
  qed
  then show "events (detached xs h2) = events h" by blast
qed

lemma init_domain_attached:
  assumes "vcpu_list (vcpus h) (first_vcpu d) xs" "distinct xs" "fresh_from 0 malloc h"
    and "\<And>x c. x \<in> set xs \<Longrightarrow> vcpus h x = Some c \<Longrightarrow> vm_event c = NULL"
  obtains r n h' ev where "vm_event_init_domain malloc junk d h = Some (r, n, h')" "attached ev xs h h'"
    "r = 0 \<and> (\<forall>x \<in> set xs. ev x \<noteq> NULL) \<and> (\<forall>i < length xs. malloc i \<noteq> NULL) \<or>
     r = - ENOMEM \<and> (\<exists>i < length xs. malloc i = NULL)"
proof -
  have "creates malloc junk (first_vcpu d) 0 h xs" using assms by (intro init_loop_list)
  then obtain r n h' ev where "vm_event_init_domain malloc junk d h = Some (r, n, h')" "attached ev xs h h'"
    "init_outcome malloc 0 (length xs) r" "r = 0 \<longrightarrow> (\<forall>x \<in> set xs. ev x \<noteq> NULL)"
    unfolding creates_def vm_event_init_domain_def by blast
  then show ?thesis by (intro that [of r n h' ev]) (auto simp: init_outcome_def)
qed

text \<open>After a successful creation every vCPU has its event.\<close>

lemma attached_get_event:
  assumes "vcpu_list (vcpus h) v xs" "attached ev xs h h'" "\<forall>x \<in> set xs. ev x \<noteq> NULL" "x \<in> set xs"
  shows "\<exists>c. vcpus h' x = Some c \<and> vm_event c = ev x \<and> vm_event c \<noteq> NULL \<and> events h' (vm_event c) \<noteq> None"
proof -
  obtain c where "vcpus h x = Some c" using vcpu_list_live [OF assms(1,4)] by blast
  then show ?thesis
    using attachedD(1) [OF assms(2), of x] attachedD(3) [OF assms(2), of "ev x"] assms(3,4) by auto
qed

section \<open>What the events guarantee\<close>

text \<open>
  C2. Creating the events of a domain whose vCPUs have none returns success or \<open>-ENOMEM\<close>, success
  exactly when every allocation succeeds, and then every vCPU has an event. Freeing them afterwards
  restores the heap, in the failed case too: nothing leaks and nothing is freed twice.
\<close>

theorem vm_event_init_cleanup:
  assumes "vcpu_list (vcpus h) (first_vcpu d) xs" "distinct xs" "fresh_from 0 malloc h"
    and "\<And>x c. x \<in> set xs \<Longrightarrow> vcpus h x = Some c \<Longrightarrow> vm_event c = NULL"
  shows "\<exists>r n h'. vm_event_init_domain malloc junk d h = Some (r, n, h') \<and>
    (r = 0 \<or> r = - ENOMEM) \<and> (r = 0 \<longleftrightarrow> (\<forall>i < length xs. malloc i \<noteq> NULL)) \<and>
    (r = 0 \<longrightarrow> (\<forall>x \<in> set xs. \<exists>c. vcpus h' x = Some c \<and> vm_event c \<noteq> NULL \<and> events h' (vm_event c) \<noteq> None)) \<and>
    vm_event_cleanup_domain d h' = Some (d\<lparr>mem_access_emulate_each_rep := False\<rparr>, h)"
proof -
  obtain r n h' ev where init: "vm_event_init_domain malloc junk d h = Some (r, n, h')"
    and at: "attached ev xs h h'"
    and r: "r = 0 \<and> (\<forall>x \<in> set xs. ev x \<noteq> NULL) \<and> (\<forall>i < length xs. malloc i \<noteq> NULL) \<or>
     r = - ENOMEM \<and> (\<exists>i < length xs. malloc i = NULL)"
    by (rule init_domain_attached [OF assms])
  have "vcpus (detached xs h') x = vcpus h x" for x
    using attachedD(1) [OF at, of x] assms(4) [of x] by (cases "vcpus h x") (simp_all add: detached_def)
  then have "detached xs h' = h"
    using cleanup_attached(2) [OF assms(1,2) at same_shape_refl]
    by (cases h, cases "detached xs h'") (auto simp: fun_eq_iff)
  then have "cleanup_loop (first_vcpu d) h' = Some h"
    using cleanup_attached(1) [OF assms(1,2) at same_shape_refl] by simp
  moreover have "\<exists>c. vcpus h' x = Some c \<and> vm_event c \<noteq> NULL \<and> events h' (vm_event c) \<noteq> None"
    if "r = 0" "x \<in> set xs" for x
  proof -
    have "\<forall>x \<in> set xs. ev x \<noteq> NULL" using that(1) r by (auto simp: ENOMEM_def)
    from attached_get_event [OF assms(1) at this that(2)] show ?thesis by blast
  qed
  ultimately show ?thesis
    using init r by (auto simp: vm_event_cleanup_domain_def ENOMEM_def)
qed

definition two_vcpus :: vm_heap where
  "two_vcpus =
     (let c = \<lparr>next_in_list = 0, vm_event = 0, next_interrupt_enabled = False, single_step = False,
        vm_event_pause_count = 1\<rparr>
      in \<lparr>vcpus = [1 \<mapsto> c\<lparr>next_in_list := 2\<rparr>, 2 \<mapsto> c], events = (\<lambda>_. None)\<rparr>)"

definition blank_event :: arch_vm_event where
  "blank_event = \<lparr>emulate_flags = 0, emul = Emul_read [], gprs = no_regs, set_gprs = False,
     sync_event = False, write_data = \<lparr>dw_msr = 0, dw_cr0 = 0, dw_cr3 = 0, dw_cr4 = 0\<rparr>\<rparr>"

theorem vm_event_init_cleanup_witness:
  "\<exists>n h'. vm_event_init_domain (\<lambda>i. if i = 0 then 50 else 0) (\<lambda>_. blank_event)
      \<lparr>first_vcpu = 1, dom_guest_type = Guest_type_hvm, mem_access_emulate_each_rep = True\<rparr> two_vcpus =
      Some (- ENOMEM, n, h') \<and>
    vm_event_cleanup_domain \<lparr>first_vcpu = 1, dom_guest_type = Guest_type_hvm,
      mem_access_emulate_each_rep = True\<rparr> h' =
      Some (\<lparr>first_vcpu = 1, dom_guest_type = Guest_type_hvm, mem_access_emulate_each_rep = False\<rparr>, two_vcpus)"
proof -
  let ?malloc = "\<lambda>i :: nat. if i = 0 then 50 else 0 :: addr"
  let ?d = "\<lparr>first_vcpu = 1, dom_guest_type = Guest_type_hvm, mem_access_emulate_each_rep = True\<rparr>"
  have "vcpu_list (vcpus two_vcpus) (first_vcpu ?d) [1, 2]" by (simp add: two_vcpus_def Let_def)
  moreover have "fresh_from 0 ?malloc two_vcpus" by (auto simp: fresh_from_def two_vcpus_def Let_def split: if_splits)
  moreover have "vm_event c = NULL" if "x \<in> set [1, 2]" "vcpus two_vcpus x = Some c" for x c
    using that by (auto simp: two_vcpus_def Let_def split: if_splits)
  ultimately obtain r n h' where
    "vm_event_init_domain ?malloc (\<lambda>_. blank_event) ?d two_vcpus = Some (r, n, h')"
    "r = 0 \<or> r = - ENOMEM" "r = 0 \<longleftrightarrow> (\<forall>i < length [1, 2 :: addr]. ?malloc i \<noteq> NULL)"
    "vm_event_cleanup_domain ?d h' = Some (?d\<lparr>mem_access_emulate_each_rep := False\<rparr>, two_vcpus)"
    using vm_event_init_cleanup [of two_vcpus ?d "[1, 2]" ?malloc "\<lambda>_. blank_event"] by auto
  moreover have "\<not> (\<forall>i < length [1, 2 :: addr]. ?malloc i \<noteq> NULL)" by auto
  ultimately show ?thesis by auto
qed

text \<open>
  The response to an event with the emulation flag: the stored flags become those of the
  response exactly for descriptor accesses and for breakpoints that bring instruction data. In every
  other case, memory accesses among them, the object is left as it was, with the flags of an earlier
  response; without the flag they are cleared.
\<close>

theorem vm_event_emulate_check_flags:
  assumes "get_event v h = Some e"
  shows "\<exists>h' e'. vm_event_emulate_check v rsp h = Some h' \<and> get_event v h' = Some e' \<and>
    emulate_flags e' =
      (if \<not> has_flag rsp flag_emulate then 0
       else if rsp_reason rsp = REASON_DESCRIPTOR_ACCESS \<or>
         rsp_reason rsp = REASON_SOFTWARE_BREAKPOINT \<and> has_flag rsp flag_set_emul_insn_data
       then rsp_flags rsp else emulate_flags e) \<and>
    (has_flag rsp flag_emulate \<and> rsp_reason rsp = REASON_MEM_ACCESS \<longrightarrow> h' = h) \<and>
    gprs e' = gprs e \<and> write_data e' = write_data e \<and> vcpus h' = vcpus h"
  using assms
  by (auto simp: vm_event_emulate_check_def get_event_def put_event_def p2m_mem_access_emulate_check_def
      reasons Let_def split: if_splits)

theorem vm_event_emulate_check_flags_witness:
  "\<exists>h' e'. vm_event_emulate_check
      \<lparr>next_in_list = 0, vm_event = 9, next_interrupt_enabled = False, single_step = False, vm_event_pause_count = 1\<rparr>
      \<lparr>rsp_flags = 4, rsp_reason = 13, ctrlreg_index = 0, rsp_read = [], rsp_insn = [], rsp_regs = no_regs\<rparr>
      \<lparr>vcpus = (\<lambda>_. None), events = [9 \<mapsto> blank_event]\<rparr> = Some h' \<and>
    events h' 9 = Some e' \<and> emulate_flags e' = 4"
proof -
  let ?v = "\<lparr>next_in_list = 0, vm_event = 9, next_interrupt_enabled = False, single_step = False, vm_event_pause_count = 1\<rparr>"
  let ?rsp = "\<lparr>rsp_flags = 4, rsp_reason = 13, ctrlreg_index = 0, rsp_read = [], rsp_insn = [], rsp_regs = no_regs\<rparr>"
  let ?h = "\<lparr>vcpus = (\<lambda>_. None), events = [9 \<mapsto> blank_event]\<rparr>"
  have "get_event ?v ?h = Some blank_event" by (simp add: get_event_def)
  from vm_event_emulate_check_flags [OF this, of ?rsp] show ?thesis
    by (auto simp: get_event_def has_flag_def flag_emulate_def reasons)
qed

text \<open>
  A response that asks to toggle single-stepping toggles it in every HVM domain for which the
  hook exists, even where the hook would answer that it is not supported.
\<close>

theorem vm_event_toggle_ignores_support:
  assumes "has_flag rsp flag_toggle_singlestep" "is_hvm_domain d"
  shows "vm_event_toggle_singlestep (Some (\<lambda>_. False)) d v rsp = v\<lparr>single_step := \<not> single_step v\<rparr>"
  using assms
  by (simp add: vm_event_toggle_singlestep_def hvm_toggle_singlestep_def hvm_is_singlestep_supported_def)

theorem vm_event_toggle_ignores_support_witness:
  "single_step (vm_event_toggle_singlestep (Some (\<lambda>_. False))
      \<lparr>first_vcpu = 0, dom_guest_type = Guest_type_hvm, mem_access_emulate_each_rep = False\<rparr>
      \<lparr>next_in_list = 0, vm_event = 9, next_interrupt_enabled = False, single_step = False, vm_event_pause_count = 1\<rparr>
      \<lparr>rsp_flags = 16, rsp_reason = 13, ctrlreg_index = 0, rsp_read = [], rsp_insn = [], rsp_regs = no_regs\<rparr>)"
  using vm_event_toggle_ignores_support [of
      "\<lparr>rsp_flags = 16, rsp_reason = 13, ctrlreg_index = 0, rsp_read = [], rsp_insn = [], rsp_regs = no_regs\<rparr>"
      "\<lparr>first_vcpu = 0, dom_guest_type = Guest_type_hvm, mem_access_emulate_each_rep = False\<rparr>"]
  by (simp add: has_flag_def flag_toggle_singlestep_def is_hvm_domain_def)

end
