(* ===== verification/Vm_Event_Life.thy ===== *)
theory Vm_Event_Life
  imports Vm_Event
begin

text \<open>
  The life of a domain's events in vm_event_verified.c: they are created, any number of responses is
  handled on any of its vCPUs, and they are freed. The vCPUs are objects on the heap, which the
  handlers change in place.
\<close>

section \<open>Handling one response\<close>

datatype vm_op =
    Toggle_singlestep vm_event_response
  | Register_write_resume vm_event_response
  | Set_registers vm_event_response
  | Monitor_next_interrupt
  | Sync_event bool
  | Emulate_check vm_event_response

definition update_vcpu :: "addr \<Rightarrow> (vcpu \<Rightarrow> vcpu) \<Rightarrow> vm_heap \<Rightarrow> vm_heap option" where
  "update_vcpu v f h = do {
     c \<leftarrow> vcpus h v;
     Some (h\<lparr>vcpus := (vcpus h)(v \<mapsto> f c)\<rparr>) }"

definition handle :: "(unit \<Rightarrow> bool) option \<Rightarrow> vm_domain \<Rightarrow> addr \<Rightarrow> vm_op \<Rightarrow> vm_heap \<Rightarrow> vm_heap option" where
  "handle hook d v op h = do {
     c \<leftarrow> vcpus h v;
     case op of
       Toggle_singlestep rsp \<Rightarrow> update_vcpu v (\<lambda>c. vm_event_toggle_singlestep hook d c rsp) h
     | Register_write_resume rsp \<Rightarrow> vm_event_register_write_resume c rsp h
     | Set_registers rsp \<Rightarrow> vm_event_set_registers c rsp h
     | Monitor_next_interrupt \<Rightarrow> update_vcpu v vm_event_monitor_next_interrupt h
     | Sync_event b \<Rightarrow> vm_event_sync_event c b h
     | Emulate_check rsp \<Rightarrow> vm_event_emulate_check c rsp h }"

fun handle_all ::
    "(unit \<Rightarrow> bool) option \<Rightarrow> vm_domain \<Rightarrow> (addr \<times> vm_op) list \<Rightarrow> vm_heap \<Rightarrow> vm_heap option" where
  "handle_all hook d [] h = Some h"
| "handle_all hook d ((v, op) # ops) h = handle hook d v op h \<bind> handle_all hook d ops"

section \<open>Handlers keep the shape of the heap\<close>

lemma update_vcpu_shape:
  assumes "v \<in> set xs" "vcpus h v = Some c" "quiet (f c) = quiet c"
  shows "\<exists>h'. update_vcpu v f h = Some h' \<and> same_shape xs h h'"
  using assms by (auto simp: update_vcpu_def same_shape_def)

lemma put_event_shape:
  assumes "v \<in> set xs" "vcpus h v = Some c" "get_event c h = Some e"
  shows "same_shape xs h (put_event c e' h)"
  using assms by (auto simp: same_shape_def put_event_def get_event_def split: if_splits)

lemma quiet_handlers:
  "quiet (vm_event_toggle_singlestep hook d c rsp) = quiet c"
  "quiet (vm_event_monitor_next_interrupt c) = quiet c"
  by (simp_all add: quiet_def vm_event_toggle_singlestep_def hvm_toggle_singlestep_def
      vm_event_monitor_next_interrupt_def)

lemma handle_shape:
  assumes "v \<in> set xs" "vcpus h v = Some c" "get_event c h = Some e"
  shows "\<exists>h'. handle hook d v op h = Some h' \<and> same_shape xs h h'"
proof -
  note put = put_event_shape [OF assms]
  note simps = handle_def assms(2,3) same_shape_refl put Let_def
  show ?thesis
  proof (cases op)
    case (Toggle_singlestep rsp)
    then show ?thesis
      using update_vcpu_shape [OF assms(1,2), of "\<lambda>c. vm_event_toggle_singlestep hook d c rsp"]
      by (simp add: simps quiet_handlers)
  next
    case Monitor_next_interrupt
    then show ?thesis
      using update_vcpu_shape [OF assms(1,2), of vm_event_monitor_next_interrupt]
      by (simp add: simps quiet_handlers)
  next
    case (Register_write_resume rsp)
    then show ?thesis by (simp add: simps vm_event_register_write_resume_def)
  next
    case (Set_registers rsp)
    then show ?thesis by (simp add: simps vm_event_set_registers_def)
  next
    case (Sync_event b)
    then show ?thesis by (simp add: simps vm_event_sync_event_def)
  next
    case (Emulate_check rsp)
    then show ?thesis by (simp add: simps vm_event_emulate_check_def)
  qed
qed

text \<open>Every vCPU of \<open>xs\<close> has an event.\<close>

definition ready :: "addr list \<Rightarrow> vm_heap \<Rightarrow> bool" where
  "ready xs h \<longleftrightarrow> (\<forall>x \<in> set xs. \<exists>c. vcpus h x = Some c \<and> get_event c h \<noteq> None)"

lemma ready_shape:
  assumes "ready xs h" "same_shape xs h h'"
  shows "ready xs h'"
  unfolding ready_def
proof
  fix x
  assume "x \<in> set xs"
  then obtain c where c: "vcpus h x = Some c" "get_event c h \<noteq> None" using assms(1) by (auto simp: ready_def)
  obtain c' where "vcpus h' x = Some c'" "vm_event c' = vm_event c"
    using same_shape_sym_vcpuE [OF assms(2) c(1)] by metis
  then show "\<exists>c. vcpus h' x = Some c \<and> get_event c h' \<noteq> None"
    using c same_shapeD(3) [OF assms(2), of "vm_event c"] by (auto simp: get_event_def split: if_splits)
qed

lemma handle_all_shape:
  assumes "ready xs h" "fst ` set ops \<subseteq> set xs"
  shows "\<exists>h'. handle_all hook d ops h = Some h' \<and> ready xs h' \<and> same_shape xs h h'"
  using assms
proof (induction ops arbitrary: h)
  case Nil
  then show ?case by (simp add: same_shape_refl)
next
  case (Cons a ops)
  obtain v op where a: "a = (v, op)" by (cases a)
  with Cons.prems obtain c e where "v \<in> set xs" "vcpus h v = Some c" "get_event c h = Some e"
    by (auto simp: ready_def)
  then obtain h' where h': "handle hook d v op h = Some h'" "same_shape xs h h'"
    using handle_shape by blast
  with Cons.IH [OF ready_shape [OF Cons.prems(1) h'(2)]] Cons.prems(2) same_shape_trans [OF h'(2)]
  show ?case by (auto simp: a)
qed

section \<open>From creation to cleanup\<close>

text \<open>
  C3. In a domain whose events could all be allocated, no sequence of responses on its vCPUs fails:
  no handler reaches an object that is not there. The cleanup afterwards frees exactly what the
  creation had allocated, each object once: the events of the heap are those from before, the vCPUs
  have no event, and apart from their two flags (single-stepping, next interrupt) they are as before;
  other vCPUs are untouched.
\<close>

theorem vm_event_lifecycle:
  assumes "vcpu_list (vcpus h) (first_vcpu d) xs" "distinct xs" "fresh_from 0 malloc h"
    and "\<And>x c. x \<in> set xs \<Longrightarrow> vcpus h x = Some c \<Longrightarrow> vm_event c = NULL"
    and "\<And>i. i < length xs \<Longrightarrow> malloc i \<noteq> NULL"
    and "fst ` set ops \<subseteq> set xs"
  shows "\<exists>n h1 h2 h3. vm_event_init_domain malloc junk d h = Some (0, n, h1) \<and>
    handle_all hook d ops h1 = Some h2 \<and>
    vm_event_cleanup_domain d h2 = Some (d\<lparr>mem_access_emulate_each_rep := False\<rparr>, h3) \<and>
    events h3 = events h \<and>
    (\<forall>x. map_option quiet (vcpus h3 x) = map_option quiet (vcpus h x)) \<and>
    (\<forall>x. x \<notin> set xs \<longrightarrow> vcpus h3 x = vcpus h x)"
proof -
  obtain r n h1 ev where init: "vm_event_init_domain malloc junk d h = Some (r, n, h1)"
    and at: "attached ev xs h h1"
    and r: "r = 0 \<and> (\<forall>x \<in> set xs. ev x \<noteq> NULL) \<and> (\<forall>i < length xs. malloc i \<noteq> NULL) \<or>
     r = - ENOMEM \<and> (\<exists>i < length xs. malloc i = NULL)"
    by (rule init_domain_attached [OF assms(1-4)])
  have "\<not> (\<exists>i < length xs. malloc i = NULL)" using assms(5) by blast
  with r have r: "r = 0" "\<forall>x \<in> set xs. ev x \<noteq> NULL" by simp_all
  have "ready xs h1"
    using attached_get_event [OF assms(1) at r(2)] by (force simp: ready_def get_event_def)
  then obtain h2 where run: "handle_all hook d ops h1 = Some h2" and sh: "same_shape xs h1 h2"
    using handle_all_shape assms(6) by blast
  note clean = cleanup_attached [OF assms(1,2) at sh]
  have "map_option quiet (vcpus (detached xs h2) x) = map_option quiet (vcpus h x)" for x
  proof (cases "x \<in> set xs")
    case True
    obtain c where c: "vcpus h x = Some c" using vcpu_list_live [OF assms(1) True] by blast
    then have "vcpus h1 x = Some (c\<lparr>vm_event := ev x\<rparr>)" using attachedD(1) [OF at, of x] True by simp
    then obtain e where e: "vcpus h2 x = Some e" "quiet e = quiet (c\<lparr>vm_event := ev x\<rparr>)"
      by (rule same_shape_sym_vcpuE [OF sh])
    have "quiet (e\<lparr>vm_event := NULL\<rparr>) = (quiet e)\<lparr>vm_event := NULL\<rparr>" by (simp add: quiet_def)
    also have "\<dots> = quiet c" using e(2) assms(4) [OF True c] by (simp add: quiet_def)
    finally show ?thesis using True e c by (simp add: detached_def)
  next
    case False
    then show ?thesis
      using attachedD(1) [OF at, of x] same_shapeD(2) [OF sh, of x] by (simp add: detached_def)
  qed
  moreover have "vcpus (detached xs h2) x = vcpus h x" if "x \<notin> set xs" for x
    using that attachedD(1) [OF at, of x] same_shapeD(2) [OF sh that] by (simp add: detached_def)
  ultimately show ?thesis
    using init r run clean by (auto simp: vm_event_cleanup_domain_def)
qed

definition hvm_guest :: vm_domain where
  "hvm_guest = \<lparr>first_vcpu = 1, dom_guest_type = Guest_type_hvm, mem_access_emulate_each_rep = True\<rparr>"

theorem vm_event_lifecycle_witness:
  "\<exists>n h1 h2 h3. vm_event_init_domain (\<lambda>i. 50 + i) (\<lambda>_. blank_event) hvm_guest two_vcpus = Some (0, n, h1) \<and>
    handle_all None hvm_guest [(2, Sync_event True), (1, Monitor_next_interrupt)] h1 = Some h2 \<and>
    vm_event_cleanup_domain hvm_guest h2 = Some (hvm_guest\<lparr>mem_access_emulate_each_rep := False\<rparr>, h3) \<and>
    events h3 = events two_vcpus \<and>
    (\<forall>x. map_option quiet (vcpus h3 x) = map_option quiet (vcpus two_vcpus x)) \<and>
    (\<forall>x. x \<notin> set [1, 2] \<longrightarrow> vcpus h3 x = vcpus two_vcpus x)"
proof (rule vm_event_lifecycle)
  show "vcpu_list (vcpus two_vcpus) (first_vcpu hvm_guest) [1, 2]"
    by (simp add: two_vcpus_def hvm_guest_def Let_def)
  show "fresh_from 0 (\<lambda>i. 50 + i) two_vcpus" by (auto simp: fresh_from_def two_vcpus_def Let_def)
  show "vm_event c = NULL" if "x \<in> set [1, 2]" "vcpus two_vcpus x = Some c" for x c
    using that by (auto simp: two_vcpus_def Let_def split: if_splits)
qed simp_all

end
