(* ===== verification/Vm_Event_Local.thy ===== *)
theory Vm_Event_Local
  imports Vm_Event_Life
begin

text \<open>
  What a response does to its own vCPU, and that it does nothing else. The handlers of
  vm_event_verified.c reach the event of a vCPU through a pointer on a shared heap; here they are a
  function on one vCPU with its event, and any interleaving of responses is, for each vCPU, the
  responses to it in their order.
\<close>

section \<open>Objects that are changed one at a time\<close>

text \<open>
  A state in which each step works on one object: it does to the view of that object what \<open>spec\<close> says
  and leaves the views of the others alone.
\<close>

locale separate_objects =
  fixes step :: "'a \<Rightarrow> 'op \<Rightarrow> 's \<Rightarrow> 's option"
    and run :: "('a \<times> 'op) list \<Rightarrow> 's \<Rightarrow> 's option"
    and view :: "'a \<Rightarrow> 's \<Rightarrow> 'v option"
    and spec :: "'op \<Rightarrow> 'v \<Rightarrow> 'v"
    and objs :: "'a set"
    and inv :: "'s \<Rightarrow> bool"
  assumes run_Nil: "run [] s = Some s"
    and run_Cons: "run ((a, op) # ops) s = step a op s \<bind> run ops"
    and step_spec: "inv s \<Longrightarrow> a \<in> objs \<Longrightarrow> \<exists>s' v. step a op s = Some s' \<and> inv s' \<and>
      view a s = Some v \<and> view a s' = Some (spec op v) \<and> (\<forall>b \<in> objs. b \<noteq> a \<longrightarrow> view b s' = view b s)"
begin

lemma run_spec:
  "inv s \<Longrightarrow> fst ` set ops \<subseteq> objs \<Longrightarrow>
   \<exists>s'. run ops s = Some s' \<and> inv s' \<and> (\<forall>a \<in> objs.
     view a s' = map_option (fold spec (map snd (filter (\<lambda>x. fst x = a) ops))) (view a s))"
proof (induction ops arbitrary: s)
  case Nil
  then show ?case by (simp add: run_Nil id_def option.map_ident)
next
  case (Cons x ops)
  obtain a op where x: "x = (a, op)" by (cases x)
  with Cons.prems obtain s1 v where s1: "step a op s = Some s1" "inv s1" "view a s = Some v"
    "view a s1 = Some (spec op v)" "\<forall>b \<in> objs. b \<noteq> a \<longrightarrow> view b s1 = view b s"
    using step_spec [of s a op] by auto
  from Cons.IH [OF s1(2)] Cons.prems(2) obtain s' where s': "run ops s1 = Some s'" "inv s'"
    "\<forall>b \<in> objs. view b s' = map_option (fold spec (map snd (filter (\<lambda>x. fst x = b) ops))) (view b s1)"
    by auto
  have "view b s' = map_option (fold spec (map snd (filter (\<lambda>x. fst x = b) (x # ops)))) (view b s)"
    if "b \<in> objs" for b
    using s'(3) that s1(3-5) x by (cases "b = a") auto
  with s1(1) s' show ?case by (auto simp: x run_Cons)
qed

end

section \<open>A vCPU and its event\<close>

definition view :: "addr \<Rightarrow> vm_heap \<Rightarrow> (vcpu \<times> arch_vm_event) option" where
  "view x h = do {
     c \<leftarrow> vcpus h x;
     e \<leftarrow> get_event c h;
     Some (c, e) }"

text \<open>A denied write: the mark of what was to be written is taken back.\<close>

definition deny_write :: "vm_event_response \<Rightarrow> do_write \<Rightarrow> do_write" where
  "deny_write rsp w =
     (if rsp_reason rsp = REASON_MOV_TO_MSR then w\<lparr>dw_msr := 0\<rparr>
      else if rsp_reason rsp = REASON_WRITE_CTRLREG then
        (if ctrlreg_index rsp = 0 then w\<lparr>dw_cr0 := 0\<rparr>
         else if ctrlreg_index rsp = 1 then w\<lparr>dw_cr3 := 0\<rparr>
         else if ctrlreg_index rsp = 2 then w\<lparr>dw_cr4 := 0\<rparr>
         else w)
      else w)"

text \<open>The emulation a response asks for.\<close>

definition emulate_with :: "vm_event_response \<Rightarrow> arch_vm_event \<Rightarrow> arch_vm_event" where
  "emulate_with rsp e =
     (if \<not> has_flag rsp flag_emulate then e\<lparr>emulate_flags := 0\<rparr>
      else if rsp_reason rsp = REASON_SOFTWARE_BREAKPOINT \<and> has_flag rsp flag_set_emul_insn_data
        then e\<lparr>emul := Emul_insn (rsp_insn rsp), emulate_flags := rsp_flags rsp\<rparr>
      else if rsp_reason rsp = REASON_DESCRIPTOR_ACCESS
        then e\<lparr>emul := (if has_flag rsp flag_set_emul_read_data then Emul_read (rsp_read rsp) else emul e),
          emulate_flags := rsp_flags rsp\<rparr>
      else e)"

fun respond :: "(unit \<Rightarrow> bool) option \<Rightarrow> vm_domain \<Rightarrow> vm_op \<Rightarrow> vcpu \<times> arch_vm_event \<Rightarrow> vcpu \<times> arch_vm_event" where
  "respond hook d (Toggle_singlestep rsp) (c, e) =
     (if has_flag rsp flag_toggle_singlestep \<and> dom_guest_type d = Guest_type_hvm \<and> hook \<noteq> None
      then c\<lparr>single_step := \<not> single_step c\<rparr> else c, e)"
| "respond hook d (Register_write_resume rsp) (c, e) =
     (c, if has_flag rsp flag_deny \<and> vm_event_pause_count c \<noteq> 0
         then e\<lparr>write_data := deny_write rsp (write_data e)\<rparr> else e)"
| "respond hook d (Set_registers rsp) (c, e) = (c, e\<lparr>gprs := rsp_regs rsp, set_gprs := True\<rparr>)"
| "respond hook d Monitor_next_interrupt (c, e) = (c\<lparr>next_interrupt_enabled := True\<rparr>, e)"
| "respond hook d (Sync_event b) (c, e) = (c, e\<lparr>sync_event := b\<rparr>)"
| "respond hook d (Emulate_check rsp) (c, e) = (c, emulate_with rsp e)"

text \<open>Every vCPU of \<open>xs\<close> has an event of its own.\<close>

definition own_events :: "addr list \<Rightarrow> vm_heap \<Rightarrow> bool" where
  "own_events xs h \<longleftrightarrow> ready xs h \<and>
     (\<forall>x \<in> set xs. \<forall>y \<in> set xs. \<forall>c c'. vcpus h x = Some c \<longrightarrow> vcpus h y = Some c' \<longrightarrow>
        vm_event c = vm_event c' \<longrightarrow> x = y)"

lemma own_events_shape:
  assumes "own_events xs h" "same_shape xs h h'"
  shows "own_events xs h'"
proof -
  have "x = y" if xy: "x \<in> set xs" "y \<in> set xs" "vcpus h' x = Some c" "vcpus h' y = Some c'"
    "vm_event c = vm_event c'" for x y c c'
  proof -
    obtain b b' where "vcpus h x = Some b" "vm_event c = vm_event b" "vcpus h y = Some b'" "vm_event c' = vm_event b'"
      using xy same_shape_vcpuE [OF assms(2)] by metis
    then show ?thesis using assms(1) xy by (auto simp: own_events_def)
  qed
  then show ?thesis using ready_shape [OF _ assms(2)] assms(1) by (auto simp: own_events_def)
qed

text \<open>What replacing an event or a vCPU shows in the views.\<close>

lemma put_event_simps [simp]:
  "vcpus (put_event c e h) = vcpus h"
  "vm_event c \<noteq> NULL \<Longrightarrow>
    get_event b (put_event c e h) = (if vm_event b = vm_event c then Some e else get_event b h)"
  by (simp_all add: put_event_def get_event_def)

lemma view_put_event:
  assumes "own_events xs h" "x \<in> set xs" "y \<in> set xs" "vcpus h x = Some c"
  shows "view y (put_event c e h) = (if y = x then Some (c, e) else view y h)"
proof -
  obtain b where b: "vcpus h y = Some b" using assms(1,3) by (auto simp: own_events_def ready_def)
  have "get_event c h \<noteq> None" using assms(1,2,4) by (force simp: own_events_def ready_def)
  then have "vm_event c \<noteq> NULL" by (auto simp: get_event_def split: if_splits)
  moreover have "vm_event b \<noteq> vm_event c" if "y \<noteq> x"
    using assms b that by (auto simp: own_events_def)
  ultimately show ?thesis
    using b assms(4) by (cases "y = x") (simp_all add: view_def)
qed

lemma view_update_vcpu:
  assumes "vcpus h x = Some c" "vm_event (f c) = vm_event c" "update_vcpu x f h = Some h'"
  shows "view y h' = (if y = x then map_option (\<lambda>(c, e). (f c, e)) (view x h) else view y h)"
proof -
  have "get_event b (h\<lparr>vcpus := vs\<rparr>) = get_event b h" for b vs by (simp add: get_event_def)
  moreover have "get_event (f c) h = get_event c h" using assms(2) by (simp add: get_event_def)
  ultimately show ?thesis
    using assms(1,3) by (cases "get_event c h") (auto simp: update_vcpu_def view_def)
qed

lemma view_ready:
  assumes "own_events xs h" "x \<in> set xs"
  obtains c e where "vcpus h x = Some c" "get_event c h = Some e" "view x h = Some (c, e)"
  using assms by (force simp: own_events_def ready_def view_def)

lemma toggle_respond:
  "vm_event_toggle_singlestep hook d c rsp = fst (respond hook d (Toggle_singlestep rsp) (c, e))"
  by (simp add: vm_event_toggle_singlestep_def hvm_toggle_singlestep_def hvm_is_singlestep_supported_def
      is_hvm_domain_def)

lemma vm_event_flags [simp]:
  "vm_event (vm_event_toggle_singlestep hook d c rsp) = vm_event c"
  "vm_event (vm_event_monitor_next_interrupt c) = vm_event c"
  by (simp_all add: vm_event_toggle_singlestep_def hvm_toggle_singlestep_def vm_event_monitor_next_interrupt_def)

text \<open>One response, on the heap and on its vCPU.\<close>

lemma handle_update:
  assumes "handle hook d x op h = update_vcpu x f h" "vcpus h x = Some c" "get_event c h = Some e"
    and "vm_event (f c) = vm_event c" "respond hook d op (c, e) = (f c, e)"
  shows "\<exists>h'. handle hook d x op h = Some h' \<and> view x h' = Some (respond hook d op (c, e)) \<and>
    (\<forall>y \<in> set xs. y \<noteq> x \<longrightarrow> view y h' = view y h)"
proof -
  obtain h' where h': "update_vcpu x f h = Some h'" using assms(2) by (simp add: update_vcpu_def)
  have "view x h = Some (c, e)" using assms(2,3) by (simp add: view_def)
  then show ?thesis using view_update_vcpu [OF assms(2,4) h'] h' assms(1,5) by simp
qed

lemma put_event_same: "get_event c h = Some e \<Longrightarrow> put_event c e h = h"
  by (simp add: get_event_def put_event_def fun_upd_idem split: if_splits)

lemma handle_put:
  assumes "own_events xs h" "x \<in> set xs" "vcpus h x = Some c" "get_event c h = Some e"
    and "handle hook d x op h = Some (put_event c (snd (respond hook d op (c, e))) h)"
    and "fst (respond hook d op (c, e)) = c"
  shows "\<exists>h'. handle hook d x op h = Some h' \<and> view x h' = Some (respond hook d op (c, e)) \<and>
    (\<forall>y \<in> set xs. y \<noteq> x \<longrightarrow> view y h' = view y h)"
  using view_put_event [OF assms(1,2) _ assms(3)] assms(2,5,6) by (simp add: prod_eq_iff)

lemma register_write_put:
  assumes "get_event c h = Some e"
  shows "vm_event_register_write_resume c rsp h =
    Some (put_event c (snd (respond hook d (Register_write_resume rsp) (c, e))) h)"
  unfolding vm_event_register_write_resume_def deny_write_def respond.simps
  using assms put_event_same [OF assms] by (simp cong: if_cong)

lemma handle_respond:
  assumes own: "own_events xs h" "x \<in> set xs" and c: "vcpus h x = Some c" "get_event c h = Some e"
  shows "\<exists>h'. handle hook d x op h = Some h' \<and> view x h' = Some (respond hook d op (c, e)) \<and>
    (\<forall>y \<in> set xs. y \<noteq> x \<longrightarrow> view y h' = view y h)"
proof (cases op)
  case (Toggle_singlestep rsp)
  then show ?thesis
    by (intro handle_update [where f = "\<lambda>c. vm_event_toggle_singlestep hook d c rsp"] c)
      (simp_all add: handle_def c toggle_respond [where e = e])
next
  case Monitor_next_interrupt
  then show ?thesis
    by (intro handle_update [where f = vm_event_monitor_next_interrupt] c)
      (simp_all add: handle_def c vm_event_monitor_next_interrupt_def)
next
  case (Register_write_resume rsp)
  then show ?thesis
    by (intro handle_put [OF own c])
      (simp_all add: handle_def c register_write_put [where hook = hook and d = d] del: respond.simps, simp)
next
  case (Set_registers rsp)
  then show ?thesis
    by (intro handle_put [OF own c]) (simp_all add: handle_def c vm_event_set_registers_def)
next
  case (Sync_event v)
  then show ?thesis
    by (intro handle_put [OF own c]) (simp_all add: handle_def c vm_event_sync_event_def)
next
  case (Emulate_check rsp)
  then show ?thesis
    by (intro handle_put [OF own c])
      (simp_all add: handle_def c vm_event_emulate_check_def emulate_with_def reasons put_event_same
        p2m_mem_access_emulate_check_def Let_def)
qed

section \<open>Sequences of responses\<close>

interpretation vm: separate_objects "handle hook d" "handle_all hook d" view "respond hook d" "set xs" "own_events xs"
  for hook d xs
proof (unfold_locales, goal_cases)
  case (3 h x op)
  obtain c e where c: "vcpus h x = Some c" "get_event c h = Some e" "view x h = Some (c, e)"
    using 3 by (rule view_ready)
  obtain h' where h': "handle hook d x op h = Some h'" "view x h' = Some (respond hook d op (c, e))"
    "\<forall>y \<in> set xs. y \<noteq> x \<longrightarrow> view y h' = view y h"
    using handle_respond [OF 3 c(1,2)] by blast
  have "same_shape xs h h'" using handle_shape [OF 3(2) c(1,2), of hook d op] h'(1) by auto
  then have "own_events xs h'" by (rule own_events_shape [OF 3(1)])
  with h' c(3) show ?case by blast
qed simp_all

lemma attached_own_events:
  assumes "vcpu_list (vcpus h) v xs" "attached ev xs h h'" "\<forall>x \<in> set xs. ev x \<noteq> NULL"
  shows "own_events xs h'"
proof -
  have "ready xs h'" using attached_get_event [OF assms] by (force simp: ready_def get_event_def)
  moreover have "x = y" if "x \<in> set xs" "y \<in> set xs" "vcpus h' x = Some c" "vcpus h' y = Some c'"
    "vm_event c = vm_event c'" for x y c c'
    using that attachedD(2) [OF assms(2), of x y] attached_vm_event [OF assms(2)] assms(3) by metis
  ultimately show ?thesis unfolding own_events_def by blast
qed

text \<open>
  C4. After the events of a domain have been created, the responses to its vCPUs, however they are
  interleaved, have on each vCPU and its event the effect of the responses to this vCPU alone, in
  their order, and each of these does what \<open>respond\<close> says of a single vCPU with its event: the heap and
  its pointers cannot be told from separate vCPUs.
\<close>

theorem vm_event_responses_refine:
  assumes "vcpu_list (vcpus h) (first_vcpu d) xs" "distinct xs" "fresh_from 0 malloc h"
    and "\<And>x c. x \<in> set xs \<Longrightarrow> vcpus h x = Some c \<Longrightarrow> vm_event c = NULL"
    and "\<And>i. i < length xs \<Longrightarrow> malloc i \<noteq> NULL"
    and "fst ` set ops \<subseteq> set xs" "x \<in> set xs" "vcpus h x = Some c"
  shows "\<exists>n h1 h2 p e. vm_event_init_domain malloc junk d h = Some (0, n, h1) \<and>
    view x h1 = Some (c\<lparr>vm_event := p\<rparr>, e) \<and>
    handle_all hook d ops h1 = Some h2 \<and>
    view x h2 = Some (fold (respond hook d) (map snd (filter (\<lambda>a. fst a = x) ops)) (c\<lparr>vm_event := p\<rparr>, e))"
proof -
  obtain r n h1 ev where init: "vm_event_init_domain malloc junk d h = Some (r, n, h1)"
    and at: "attached ev xs h h1"
    and r: "r = 0 \<and> (\<forall>x \<in> set xs. ev x \<noteq> NULL) \<and> (\<forall>i < length xs. malloc i \<noteq> NULL) \<or>
     r = - ENOMEM \<and> (\<exists>i < length xs. malloc i = NULL)"
    by (rule init_domain_attached [OF assms(1-4)])
  have "\<not> (\<exists>i < length xs. malloc i = NULL)" using assms(5) by blast
  with r have r: "r = 0" "\<forall>x \<in> set xs. ev x \<noteq> NULL" by simp_all
  have own: "own_events xs h1" using attached_own_events [OF assms(1) at r(2)] .
  obtain b e where "vcpus h1 x = Some b" "view x h1 = Some (b, e)"
    using own assms(7) by (rule view_ready)
  moreover have "vcpus h1 x = Some (c\<lparr>vm_event := ev x\<rparr>)"
    using attachedD(1) [OF at, of x] assms(7,8) by simp
  ultimately have view: "view x h1 = Some (c\<lparr>vm_event := ev x\<rparr>, e)" by simp
  obtain h2 where "handle_all hook d ops h1 = Some h2"
    "view x h2 = map_option (fold (respond hook d) (map snd (filter (\<lambda>a. fst a = x) ops))) (view x h1)"
    using vm.run_spec [OF own assms(6)] assms(7) by blast
  with init r(1) view show ?thesis by auto
qed

theorem vm_event_responses_refine_witness:
  "\<exists>n h1 h2 b e. vm_event_init_domain (\<lambda>i. 50 + i) (\<lambda>_. blank_event) hvm_guest two_vcpus = Some (0, n, h1) \<and>
    view 2 h1 = Some (b, e) \<and>
    handle_all None hvm_guest [(2, Sync_event True), (1, Monitor_next_interrupt), (2, Sync_event False)] h1 = Some h2 \<and>
    view 2 h2 = Some (b, e\<lparr>sync_event := False\<rparr>)"
proof -
  let ?ops = "[(2 :: addr, Sync_event True), (1, Monitor_next_interrupt), (2, Sync_event False)]"
  obtain c where c: "vcpus two_vcpus 2 = Some c" by (simp add: two_vcpus_def Let_def)
  have "\<exists>n h1 h2 p e. vm_event_init_domain (\<lambda>i. 50 + i) (\<lambda>_. blank_event) hvm_guest two_vcpus = Some (0, n, h1) \<and>
    view 2 h1 = Some (c\<lparr>vm_event := p\<rparr>, e) \<and> handle_all None hvm_guest ?ops h1 = Some h2 \<and>
    view 2 h2 = Some (fold (respond None hvm_guest) (map snd (filter (\<lambda>a. fst a = 2) ?ops)) (c\<lparr>vm_event := p\<rparr>, e))"
  proof (rule vm_event_responses_refine)
    show "vcpu_list (vcpus two_vcpus) (first_vcpu hvm_guest) [1, 2]"
      by (simp add: two_vcpus_def hvm_guest_def Let_def)
    show "fresh_from 0 (\<lambda>i. 50 + i) two_vcpus" by (auto simp: fresh_from_def two_vcpus_def Let_def)
    show "vm_event c = NULL" if "x \<in> set [1, 2]" "vcpus two_vcpus x = Some c" for x c
      using that by (auto simp: two_vcpus_def Let_def split: if_splits)
  qed (simp_all add: c)
  then show ?thesis by (simp del: handle_all.simps) blast
qed

end
