(* ===== verification/Monitor.thy ===== *)
theory Monitor
  imports C_Loops
begin

text \<open>
  The monitor controls of monitor_verified.c: the MSR bitmaps of a domain and the domctl that
  switches its events on and off. The calls it makes to pause the domain and to the hypervisor's
  hardware code, whose bodies are empty or which are declared only, are recorded in order. Declared
  only, and so parameters: \<open>monitored_msr\<close>, \<open>monitor_ctrlreg_bitmask\<close> (whose argument is a \<open>bool\<close>), the
  bit operations on the bitmaps, and the hook for descriptor accesses; \<open>unlikely\<close> has a body that
  returns no value. \<open>unsigned long\<close> has 32 bits in the dialect of the sources.
\<close>

section \<open>Data\<close>

record monitor =
  msr_bitmap :: int
  write_ctrlreg_mask :: "int list"
  write_ctrlreg_sync :: u32
  write_ctrlreg_onchangeonly :: u32
  write_ctrlreg_enabled :: u32
  singlestep_enabled :: int
  inguest_pagefault_disabled :: int
  software_breakpoint_enabled :: int
  debug_exception_enabled :: int
  debug_exception_sync :: int
  cpuid_enabled :: int
  emul_unimplemented_enabled :: int
  descriptor_access_enabled :: int

text \<open>The bitmaps behind the pointers \<open>low\<close>, \<open>hypervisor\<close> and \<open>high\<close>; \<open>None\<close> is NULL.\<close>

record 'b domain =
  arch_monitor :: monitor
  common_monitor :: "int list"
  low :: "'b option"
  hypervisor :: "'b option"
  high :: "'b option"

text \<open>The fields of both declarations of \<open>struct xen_domctl_monitor_op\<close>.\<close>

record monitor_op =
  mop_op :: int
  mop_event :: int
  cr_pad1 :: int
  cr_pad2 :: int
  cr_index :: int
  cr_sync :: u32
  cr_onchangeonly :: u32
  cr_bitmask :: int
  msr_number :: u32
  msr_onchangeonly :: int
  debug_sync :: int

definition OP_ENABLE :: int where "OP_ENABLE = 13"
definition EVENT_WRITE_CTRLREG :: int where "EVENT_WRITE_CTRLREG = 0"
definition EVENT_MOV_TO_MSR :: int where "EVENT_MOV_TO_MSR = 1"
definition EVENT_SINGLESTEP :: int where "EVENT_SINGLESTEP = 2"
definition EVENT_SOFTWARE_BREAKPOINT :: int where "EVENT_SOFTWARE_BREAKPOINT = 3"
definition EVENT_DEBUG_EXCEPTION :: int where "EVENT_DEBUG_EXCEPTION = 5"
definition EVENT_CPUID :: int where "EVENT_CPUID = 6"
definition EVENT_DESC_ACCESS :: int where "EVENT_DESC_ACCESS = 9"
definition EVENT_INGUEST_PAGEFAULT :: int where "EVENT_INGUEST_PAGEFAULT = 11"
definition EVENT_EMUL_UNIMPLEMENTED :: int where "EVENT_EMUL_UNIMPLEMENTED = 12"

lemmas event_numbers = EVENT_WRITE_CTRLREG_def EVENT_MOV_TO_MSR_def EVENT_SINGLESTEP_def
  EVENT_SOFTWARE_BREAKPOINT_def EVENT_DEBUG_EXCEPTION_def EVENT_CPUID_def EVENT_DESC_ACCESS_def
  EVENT_INGUEST_PAGEFAULT_def EVENT_EMUL_UNIMPLEMENTED_def

section \<open>Life of the monitor\<close>

definition xzalloc_array :: "int \<Rightarrow> int \<Rightarrow> int" where
  "xzalloc_array x y = 0"

text \<open>The error is returned as the positive \<open>ENOMEM\<close>.\<close>

definition arch_monitor_init_domain :: "'b domain \<Rightarrow> int \<times> 'b domain" where
  "arch_monitor_init_domain d =
     (let m = arch_monitor d;
          m = (if msr_bitmap m = 0 then m\<lparr>msr_bitmap := xzalloc_array (msr_bitmap m) 2\<rparr> else m);
          d = d\<lparr>arch_monitor := m\<rparr>
      in if msr_bitmap (arch_monitor d) = 0 then (ENOMEM, d) else (0, d))"

definition zero_monitor :: monitor where
  "zero_monitor =
     \<lparr>msr_bitmap = 0, write_ctrlreg_mask = replicate 25 0, write_ctrlreg_sync = 0,
      write_ctrlreg_onchangeonly = 0, write_ctrlreg_enabled = 0, singlestep_enabled = 0,
      inguest_pagefault_disabled = 0, software_breakpoint_enabled = 0, debug_exception_enabled = 0,
      debug_exception_sync = 0, cpuid_enabled = 0, emul_unimplemented_enabled = 0,
      descriptor_access_enabled = 0\<rparr>"

definition arch_monitor_cleanup_domain :: "'b domain \<Rightarrow> 'b domain" where
  "arch_monitor_cleanup_domain d = d\<lparr>arch_monitor := zero_monitor, common_monitor := replicate 25 0\<rparr>"

section \<open>MSR bitmaps\<close>

datatype msr_range = Low | Hypervisor | High

fun bitmap_of :: "msr_range \<Rightarrow> 'b domain \<Rightarrow> 'b option" where
  "bitmap_of Low d = low d"
| "bitmap_of Hypervisor d = hypervisor d"
| "bitmap_of High d = high d"

fun put_bitmap :: "msr_range \<Rightarrow> 'b \<Rightarrow> 'b domain \<Rightarrow> 'b domain" where
  "put_bitmap Low b d = d\<lparr>low := Some b\<rparr>"
| "put_bitmap Hypervisor b d = d\<lparr>hypervisor := Some b\<rparr>"
| "put_bitmap High b d = d\<lparr>high := Some b\<rparr>"

text \<open>The result names the bitmap; the second component is the updated \<open>*msr\<close>.\<close>

definition monitor_bitmap_for_msr :: "u32 \<Rightarrow> msr_range option \<times> u32" where
  "monitor_bitmap_for_msr msr =
     (if msr = 0x1fff then (Some Low, msr)
      else if msr = 0x40000000 then (Some Hypervisor, msr AND 0x1fff)
      else if msr = 0xc0001fff then (Some High, msr AND 0x1fff)
      else (None, msr))"

text \<open>
  The calls that leave the file's state alone: two have empty bodies (and \<open>hvm_enable_msr_interception\<close>
  too), the others are declared only. The vCPU of \<open>hvm_update_guest_cr\<close> is a local pointer that
  \<open>for_each_vcpu\<close> does not set.
\<close>

datatype monitor_call =
    Domain_pause
  | Domain_unpause
  | For_each_vcpu
  | Hvm_update_guest_cr int
  | Hvm_enable_msr_interception u32
  | Hvm_set_icebp_interception bool

text \<open>\<open>sz\<close> is the size of \<open>struct monitor_msr_bitmap\<close>, which is not declared.\<close>

definition monitor_enable_msr ::
    "(u32 \<Rightarrow> 'b \<Rightarrow> 'b) \<Rightarrow> (u32 \<Rightarrow> 'b \<Rightarrow> 'b) \<Rightarrow> u32 \<Rightarrow> u32 \<Rightarrow> bool \<Rightarrow> 'b domain \<Rightarrow>
     int \<times> 'b domain \<times> monitor_call list" where
  "monitor_enable_msr put_bit clear_bit sz msr onchangeonly d =
     (if msr_bitmap (arch_monitor d) = 0 then (- ENXIO, d, [])
      else
        let (bitmap, index) = monitor_bitmap_for_msr msr in
        case bitmap of
          None \<Rightarrow> (- EINVAL, d, [])
        | Some rg \<Rightarrow>
            (case bitmap_of rg d of
               None \<Rightarrow> (- EINVAL, d, [])
             | Some b \<Rightarrow>
                 let b = put_bit index b;
                     b = (if onchangeonly then put_bit (index + sz * 8) b
                          else clear_bit (index + sz * 8) b)
                 in (0, put_bitmap rg b d, [Hvm_enable_msr_interception msr])))"

definition monitor_disable_msr ::
    "(u32 \<Rightarrow> 'b \<Rightarrow> 'b) \<Rightarrow> u32 \<Rightarrow> 'b domain \<Rightarrow> int \<times> 'b domain \<times> monitor_call list" where
  "monitor_disable_msr clear_bit msr d =
     (if msr_bitmap (arch_monitor d) = 0 then (- ENXIO, d, [])
      else
        let (bitmap, index) = monitor_bitmap_for_msr msr in
        case bitmap of
          None \<Rightarrow> (- EINVAL, d, [])
        | Some rg \<Rightarrow>
            (case bitmap_of rg d of
               None \<Rightarrow> (- EINVAL, d, [])
             | Some b \<Rightarrow> (0, put_bitmap rg (clear_bit index b) d, [])))"

section \<open>Switching events\<close>

text \<open>
  The code of the cases that switch one field: compare the old status with the requested one, pause,
  assign, unpause.
\<close>

definition switch_event ::
    "(monitor \<Rightarrow> int) \<Rightarrow> (int \<Rightarrow> monitor \<Rightarrow> monitor) \<Rightarrow> bool \<Rightarrow> monitor \<Rightarrow>
     int \<times> monitor \<times> monitor_call list" where
  "switch_event get put requested m =
     (if \<not> ((get m \<noteq> 0) = requested) then (- EEXIST, m, [])
      else (0, put (if requested then 1 else 0) m, [Domain_pause, Domain_unpause]))"

definition ARRAY_SIZE :: "int list \<Rightarrow> int" where
  "ARRAY_SIZE a = 0"

definition X86_CR3 :: int where "X86_CR3 = 1"
definition X86_CR4 :: int where "X86_CR4 = 2"

definition write_ctrlreg_event ::
    "(bool \<Rightarrow> bool) \<Rightarrow> (bool \<Rightarrow> u32) \<Rightarrow> bool \<Rightarrow> monitor_op \<Rightarrow> monitor \<Rightarrow>
     (int \<times> monitor \<times> monitor_call list) option" where
  "write_ctrlreg_event unlikely ctrlreg_bitmask requested mop m =
     (if unlikely (cr_index mop \<ge> ARRAY_SIZE (write_ctrlreg_mask m)) then Some (- EINVAL, m, [])
      else if unlikely (cr_pad1 mop \<noteq> 0 \<or> cr_pad2 mop \<noteq> 0) then Some (- EINVAL, m, [])
      else
        let bits = ctrlreg_bitmask (cr_index mop \<noteq> 0);
            old_status = (write_ctrlreg_enabled m AND bits \<noteq> 0)
        in if \<not> (old_status = requested) then Some (- EEXIST, m, [])
           else
             let m = (if c_true (cr_sync mop)
                      then m\<lparr>write_ctrlreg_sync := write_ctrlreg_sync m OR bits\<rparr>
                      else m\<lparr>write_ctrlreg_sync := write_ctrlreg_sync m AND NOT bits\<rparr>);
                 m = (if c_true (cr_onchangeonly mop)
                      then m\<lparr>write_ctrlreg_onchangeonly := write_ctrlreg_onchangeonly m OR bits\<rparr>
                      else m\<lparr>write_ctrlreg_onchangeonly := write_ctrlreg_onchangeonly m AND NOT bits\<rparr>)
             in if cr_index mop < 0 then None
                else do {
                  masks \<leftarrow> upd (write_ctrlreg_mask m) (nat (cr_index mop))
                    (if requested then cr_bitmask mop else 0);
                  let m = m\<lparr>write_ctrlreg_mask := masks\<rparr>;
                  let m = m\<lparr>write_ctrlreg_enabled :=
                    (if requested then write_ctrlreg_enabled m OR bits
                     else write_ctrlreg_enabled m AND NOT bits)\<rparr>;
                  Some (0, m, [Domain_pause] @
                    (if cr_index mop = X86_CR3 \<or> cr_index mop = X86_CR4
                     then [For_each_vcpu, Hvm_update_guest_cr 0] else []) @ [Domain_unpause]) })"

definition debug_exception_event ::
    "bool \<Rightarrow> monitor_op \<Rightarrow> monitor \<Rightarrow> int \<times> monitor \<times> monitor_call list" where
  "debug_exception_event requested mop m =
     (if \<not> ((debug_exception_enabled m \<noteq> 0) = requested) then (- EEXIST, m, [])
      else (0, m\<lparr>debug_exception_enabled := (if requested then 1 else 0),
          debug_exception_sync := (if requested then debug_sync mop else 0)\<rparr>,
        [Domain_pause, Hvm_set_icebp_interception requested, Domain_unpause]))"

definition desc_access_event :: "bool \<Rightarrow> bool \<Rightarrow> monitor \<Rightarrow> int \<times> monitor \<times> monitor_call list" where
  "desc_access_event hook requested m =
     (if \<not> ((descriptor_access_enabled m \<noteq> 0) = requested) then (- EEXIST, m, [])
      else if \<not> hook then (- EOPNOTSUPP, m, [])
      else (0, m\<lparr>descriptor_access_enabled := (if requested then 1 else 0)\<rparr>,
        [Domain_pause, Domain_unpause]))"

text \<open>The case of the MSRs: the domain is paused before the status is looked up.\<close>

definition mov_to_msr_event ::
    "('b domain \<Rightarrow> u32 \<Rightarrow> bool) \<Rightarrow> (u32 \<Rightarrow> 'b \<Rightarrow> 'b) \<Rightarrow> (u32 \<Rightarrow> 'b \<Rightarrow> 'b) \<Rightarrow> u32 \<Rightarrow> bool \<Rightarrow> monitor_op \<Rightarrow>
     'b domain \<Rightarrow> int \<times> 'b domain \<times> monitor_call list" where
  "mov_to_msr_event monitored_msr put_bit clear_bit sz requested mop d =
     (let msr = msr_number mop; old_status = monitored_msr d msr in
      if \<not> (old_status = requested) then (- EEXIST, d, [Domain_pause, Domain_unpause])
      else
        let (rc, d, calls) =
              (if requested then monitor_enable_msr put_bit clear_bit sz msr (msr_onchangeonly mop \<noteq> 0) d
               else monitor_disable_msr clear_bit msr d)
        in (rc, d, [Domain_pause] @ calls @ [Domain_unpause]))"

text \<open>A result on the architecture's part of the domain.\<close>

definition on_arch ::
    "'b domain \<Rightarrow> int \<times> monitor \<times> monitor_call list \<Rightarrow> int \<times> 'b domain \<times> monitor_call list" where
  "on_arch d = (\<lambda>(r, m, calls). (r, d\<lparr>arch_monitor := m\<rparr>, calls))"

definition arch_monitor_domctl_event ::
    "(bool \<Rightarrow> bool) \<Rightarrow> (bool \<Rightarrow> u32) \<Rightarrow> ('b domain \<Rightarrow> u32 \<Rightarrow> bool) \<Rightarrow> (u32 \<Rightarrow> 'b \<Rightarrow> 'b) \<Rightarrow> (u32 \<Rightarrow> 'b \<Rightarrow> 'b) \<Rightarrow>
     u32 \<Rightarrow> bool \<Rightarrow> monitor_op \<Rightarrow> 'b domain \<Rightarrow> (int \<times> 'b domain \<times> monitor_call list) option" where
  "arch_monitor_domctl_event unlikely ctrlreg_bitmask monitored_msr put_bit clear_bit sz hook mop d =
     (let requested = (mop_op mop = OP_ENABLE); event = mop_event mop; m = arch_monitor d in
      if event = EVENT_WRITE_CTRLREG then
        map_option (on_arch d) (write_ctrlreg_event unlikely ctrlreg_bitmask requested mop m)
      else if event = EVENT_MOV_TO_MSR then
        Some (mov_to_msr_event monitored_msr put_bit clear_bit sz requested mop d)
      else if event = EVENT_SINGLESTEP then
        Some (on_arch d (switch_event singlestep_enabled (\<lambda>v. singlestep_enabled_update (\<lambda>_. v)) requested m))
      else if event = EVENT_INGUEST_PAGEFAULT then
        Some (on_arch d (switch_event inguest_pagefault_disabled
          (\<lambda>v. inguest_pagefault_disabled_update (\<lambda>_. v)) requested m))
      else if event = EVENT_DESC_ACCESS then
        Some (on_arch d (desc_access_event hook requested m))
      else if event = EVENT_SOFTWARE_BREAKPOINT then
        Some (on_arch d (switch_event software_breakpoint_enabled
          (\<lambda>v. software_breakpoint_enabled_update (\<lambda>_. v)) requested m))
      else if event = EVENT_DEBUG_EXCEPTION then
        Some (on_arch d (debug_exception_event requested mop m))
      else if event = EVENT_CPUID then
        Some (on_arch d (switch_event cpuid_enabled (\<lambda>v. cpuid_enabled_update (\<lambda>_. v)) requested m))
      else if event = EVENT_EMUL_UNIMPLEMENTED then
        Some (on_arch d (switch_event emul_unimplemented_enabled
          (\<lambda>v. emul_unimplemented_enabled_update (\<lambda>_. v)) requested m))
      else Some (- EOPNOTSUPP, d, []))"

section \<open>The contract of a switch\<close>

text \<open>
  A change is made under a pause: either nothing was called and the result is an error, or the calls
  are enclosed by the only pause and the only unpause. With an error nothing has changed.
\<close>

definition under_pause :: "'m \<Rightarrow> int \<times> 'm \<times> monitor_call list \<Rightarrow> bool" where
  "under_pause m = (\<lambda>(r, m', calls).
     (r < 0 \<longrightarrow> m' = m) \<and>
     (calls = [] \<and> r < 0 \<or>
      (\<exists>cs. calls = Domain_pause # cs @ [Domain_unpause] \<and> Domain_pause \<notin> set cs \<and> Domain_unpause \<notin> set cs)))"

text \<open>
  What the cases have in common, as they are written: a request that differs from the status is
  refused and changes nothing; one that repeats it may succeed, and the status stays.
\<close>

locale event_switch =
  fixes status :: "'m \<Rightarrow> bool"
    and switch :: "bool \<Rightarrow> 'm \<Rightarrow> int \<times> 'm \<times> monitor_call list"
  assumes refuses: "status m \<noteq> requested \<Longrightarrow> switch requested m = (- EEXIST, m, [])"
    and repeats: "status m = requested \<Longrightarrow>
      status (fst (snd (switch requested m))) = requested \<and> under_pause m (switch requested m)"
begin

lemma never_changes: "status (fst (snd (switch requested m))) = status m"
  using refuses [of m requested] repeats [of m requested] by (cases "status m = requested") auto

lemma never_changes_sequence:
  "status (fold (\<lambda>requested m. fst (snd (switch requested m))) requests m) = status m"
  by (induction requests arbitrary: m) (simp_all add: never_changes)

lemma change_refused: "status m \<noteq> requested \<Longrightarrow> fst (switch requested m) < 0"
  by (simp add: refuses errnos)

lemma changes_under_pause: "under_pause m (switch requested m)"
  using refuses [of m requested] repeats [of m requested]
  by (cases "status m = requested") (auto simp: under_pause_def errnos)

end

interpretation singlestep: event_switch "\<lambda>m. singlestep_enabled m \<noteq> 0"
  "switch_event singlestep_enabled (\<lambda>v. singlestep_enabled_update (\<lambda>_. v))"
  by unfold_locales (simp_all add: switch_event_def under_pause_def)

interpretation pagefault: event_switch "\<lambda>m. inguest_pagefault_disabled m \<noteq> 0"
  "switch_event inguest_pagefault_disabled (\<lambda>v. inguest_pagefault_disabled_update (\<lambda>_. v))"
  by unfold_locales (simp_all add: switch_event_def under_pause_def)

interpretation breakpoint: event_switch "\<lambda>m. software_breakpoint_enabled m \<noteq> 0"
  "switch_event software_breakpoint_enabled (\<lambda>v. software_breakpoint_enabled_update (\<lambda>_. v))"
  by unfold_locales (simp_all add: switch_event_def under_pause_def)

interpretation cpuid: event_switch "\<lambda>m. cpuid_enabled m \<noteq> 0"
  "switch_event cpuid_enabled (\<lambda>v. cpuid_enabled_update (\<lambda>_. v))"
  by unfold_locales (simp_all add: switch_event_def under_pause_def)

interpretation emul_unimplemented: event_switch "\<lambda>m. emul_unimplemented_enabled m \<noteq> 0"
  "switch_event emul_unimplemented_enabled (\<lambda>v. emul_unimplemented_enabled_update (\<lambda>_. v))"
  by unfold_locales (simp_all add: switch_event_def under_pause_def)

interpretation debug_exception: event_switch "\<lambda>m. debug_exception_enabled m \<noteq> 0"
  "\<lambda>requested. debug_exception_event requested mop" for mop
  by unfold_locales (auto simp: debug_exception_event_def under_pause_def)

interpretation desc_access: event_switch "\<lambda>m. descriptor_access_enabled m \<noteq> 0"
  "desc_access_event hook" for hook
  by unfold_locales (auto simp: desc_access_event_def under_pause_def errnos)

text \<open>As rewrite rules, on the fields themselves.\<close>

lemmas switch_keeps [simplified] =
  singlestep.never_changes pagefault.never_changes breakpoint.never_changes cpuid.never_changes
  emul_unimplemented.never_changes debug_exception.never_changes desc_access.never_changes

lemmas switch_refuses =
  singlestep.refuses pagefault.refuses breakpoint.refuses cpuid.refuses
  emul_unimplemented.refuses debug_exception.refuses desc_access.refuses

lemmas switch_under_pause =
  singlestep.changes_under_pause pagefault.changes_under_pause breakpoint.changes_under_pause
  cpuid.changes_under_pause emul_unimplemented.changes_under_pause debug_exception.changes_under_pause
  desc_access.changes_under_pause

section \<open>What the domctl can do\<close>

text \<open>
  Whether an MSR is monitored: the body that \<open>monitored_msr\<close> has in a comment of the file (lines 403 to
  416), over the test of a bit. The bit operations are declared only; they are to set, clear and test
  bits.
\<close>

definition msr_monitored :: "(u32 \<Rightarrow> 'b \<Rightarrow> bool) \<Rightarrow> 'b domain \<Rightarrow> u32 \<Rightarrow> bool" where
  "msr_monitored test_bit d msr =
     (if msr_bitmap (arch_monitor d) = 0 then False
      else let (bitmap, index) = monitor_bitmap_for_msr msr in
        case bitmap of
          None \<Rightarrow> False
        | Some rg \<Rightarrow> (case bitmap_of rg d of None \<Rightarrow> False | Some b \<Rightarrow> test_bit index b))"

definition bit_ops :: "(u32 \<Rightarrow> 'b \<Rightarrow> bool) \<Rightarrow> (u32 \<Rightarrow> 'b \<Rightarrow> 'b) \<Rightarrow> (u32 \<Rightarrow> 'b \<Rightarrow> 'b) \<Rightarrow> bool" where
  "bit_ops test_bit put_bit clear_bit \<longleftrightarrow>
     (\<forall>i j b. (test_bit i (put_bit j b) \<longleftrightarrow> i = j \<or> test_bit i b) \<and>
              (test_bit i (clear_bit j b) \<longleftrightarrow> i \<noteq> j \<and> test_bit i b))"

text \<open>The status of the event a request is about.\<close>

definition event_status ::
    "(bool \<Rightarrow> u32) \<Rightarrow> ('b domain \<Rightarrow> u32 \<Rightarrow> bool) \<Rightarrow> monitor_op \<Rightarrow> 'b domain \<Rightarrow> bool" where
  "event_status ctrlreg_bitmask monitored_msr mop d =
     (let m = arch_monitor d in
      if mop_event mop = EVENT_WRITE_CTRLREG
      then write_ctrlreg_enabled m AND ctrlreg_bitmask (cr_index mop \<noteq> 0) \<noteq> 0
      else if mop_event mop = EVENT_MOV_TO_MSR then monitored_msr d (msr_number mop)
      else if mop_event mop = EVENT_SINGLESTEP then singlestep_enabled m \<noteq> 0
      else if mop_event mop = EVENT_INGUEST_PAGEFAULT then inguest_pagefault_disabled m \<noteq> 0
      else if mop_event mop = EVENT_DESC_ACCESS then descriptor_access_enabled m \<noteq> 0
      else if mop_event mop = EVENT_SOFTWARE_BREAKPOINT then software_breakpoint_enabled m \<noteq> 0
      else if mop_event mop = EVENT_DEBUG_EXCEPTION then debug_exception_enabled m \<noteq> 0
      else if mop_event mop = EVENT_CPUID then cpuid_enabled m \<noteq> 0
      else if mop_event mop = EVENT_EMUL_UNIMPLEMENTED then emul_unimplemented_enabled m \<noteq> 0
      else False)"

lemma set_bits_status: "(w OR b) AND b = b" "(w AND NOT b) AND b = 0" for w b :: u32
  by (auto intro!: bit_word_eqI simp: bit_simps)

lemma write_ctrlreg_status:
  assumes "write_ctrlreg_event unlikely ctrlreg_bitmask requested mop m = Some (r, m', calls)"
  shows "(write_ctrlreg_enabled m' AND ctrlreg_bitmask (cr_index mop \<noteq> 0) \<noteq> 0) =
      (write_ctrlreg_enabled m AND ctrlreg_bitmask (cr_index mop \<noteq> 0) \<noteq> 0)"
    and "(write_ctrlreg_enabled m AND ctrlreg_bitmask (cr_index mop \<noteq> 0) \<noteq> 0) \<noteq> requested \<Longrightarrow> r < 0 \<and> m' = m"
proof -
  let ?bits = "ctrlreg_bitmask (cr_index mop \<noteq> 0)"
  let ?old = "write_ctrlreg_enabled m AND ?bits \<noteq> 0"
  have "if ?old = requested then (write_ctrlreg_enabled m' AND ?bits \<noteq> 0) = requested else r < 0 \<and> m' = m"
    using assms
    by (auto simp: write_ctrlreg_event_def Let_def errnos set_bits_status bind_eq_Some_conv split: if_splits)
  then show "(write_ctrlreg_enabled m' AND ?bits \<noteq> 0) = ?old" "?old \<noteq> requested \<Longrightarrow> r < 0 \<and> m' = m"
    by (auto split: if_splits)
qed

lemma on_arch_simps [simp]:
  "fst (on_arch d x) = fst x" "arch_monitor (fst (snd (on_arch d x))) = fst (snd x)"
  "on_arch d (r, arch_monitor d, calls) = (r, d, calls)"
  by (simp_all add: on_arch_def split_def)

lemma put_bitmap_simps [simp]:
  "bitmap_of rg (put_bitmap rg b d) = Some b" "arch_monitor (put_bitmap rg b d) = arch_monitor d"
  by (cases rg; simp)+

lemma msr_requests_keep_status:
  assumes ops: "bit_ops test_bit put_bit clear_bit" and sz: "sz * 8 \<noteq> 0"
  shows "monitor_enable_msr put_bit clear_bit sz msr onchangeonly d = (r, d', calls) \<Longrightarrow>
      msr_monitored test_bit d msr \<Longrightarrow> msr_monitored test_bit d' msr"
    and "monitor_disable_msr clear_bit msr d = (r, d', calls) \<Longrightarrow>
      \<not> msr_monitored test_bit d msr \<Longrightarrow> \<not> msr_monitored test_bit d' msr"
proof -
  have "index \<noteq> index + sz * 8" for index using sz by simp
  then show "monitor_enable_msr put_bit clear_bit sz msr onchangeonly d = (r, d', calls) \<Longrightarrow>
      msr_monitored test_bit d msr \<Longrightarrow> msr_monitored test_bit d' msr"
    using ops by (auto simp: monitor_enable_msr_def msr_monitored_def bit_ops_def Let_def
        split: prod.splits option.splits if_splits)
  show "monitor_disable_msr clear_bit msr d = (r, d', calls) \<Longrightarrow>
      \<not> msr_monitored test_bit d msr \<Longrightarrow> \<not> msr_monitored test_bit d' msr"
    using ops by (auto simp: monitor_disable_msr_def msr_monitored_def bit_ops_def Let_def
        split: prod.splits option.splits if_splits)
qed

lemma mov_to_msr_keeps_status:
  assumes "bit_ops test_bit put_bit clear_bit" "sz * 8 \<noteq> 0"
    and "mov_to_msr_event (msr_monitored test_bit) put_bit clear_bit sz requested mop d = (r, d', calls)"
  shows "msr_monitored test_bit d' (msr_number mop) = msr_monitored test_bit d (msr_number mop) \<and>
    (msr_monitored test_bit d (msr_number mop) \<noteq> requested \<longrightarrow> r < 0 \<and> d' = d)"
proof (cases "msr_monitored test_bit d (msr_number mop) = requested")
  case True
  then show ?thesis
    using assms(3) msr_requests_keep_status [OF assms(1,2)]
    by (cases requested) (auto simp: mov_to_msr_event_def Let_def split: prod.splits)
next
  case False
  then show ?thesis using assms(3) by (auto simp: mov_to_msr_event_def errnos)
qed

text \<open>
  C21. No request switches its event on or off, whatever the event: one that would change the status
  of its event is refused with a negative code and changes nothing, and after an accepted one the
  status is what it was. So an event that is off stays off. For the requests about an MSR this is
  said of the bit operations as operations on bits, and of \<open>monitored_msr\<close> as the commented-out body
  in the file has it; the other requests do not depend on these. (A request that indexes the control
  register masks out of their bounds is undefined and has no result.)
\<close>

theorem arch_monitor_domctl_never_switches:
  assumes "arch_monitor_domctl_event unlikely ctrlreg_bitmask (msr_monitored test_bit) put_bit clear_bit sz hook
      mop d = Some (r, d', calls)"
    and "mop_event mop = EVENT_MOV_TO_MSR \<Longrightarrow> bit_ops test_bit put_bit clear_bit \<and> sz * 8 \<noteq> 0"
  shows "event_status ctrlreg_bitmask (msr_monitored test_bit) mop d' =
      event_status ctrlreg_bitmask (msr_monitored test_bit) mop d \<and>
    (event_status ctrlreg_bitmask (msr_monitored test_bit) mop d \<noteq> (mop_op mop = OP_ENABLE) \<longrightarrow> r < 0 \<and> d' = d)"
proof -
  consider "mop_event mop = EVENT_WRITE_CTRLREG" | "mop_event mop = EVENT_MOV_TO_MSR"
    | "mop_event mop \<noteq> EVENT_WRITE_CTRLREG" "mop_event mop \<noteq> EVENT_MOV_TO_MSR" by blast
  then show ?thesis
  proof cases
    case 1
    then obtain m' where "d' = d\<lparr>arch_monitor := m'\<rparr>"
      "write_ctrlreg_event unlikely ctrlreg_bitmask (mop_op mop = OP_ENABLE) mop (arch_monitor d) = Some (r, m', calls)"
      using assms(1) by (auto simp: arch_monitor_domctl_event_def Let_def on_arch_def)
    with write_ctrlreg_status [OF this(2)] 1 show ?thesis by (auto simp: event_status_def)
  next
    case 2
    then have "mov_to_msr_event (msr_monitored test_bit) put_bit clear_bit sz (mop_op mop = OP_ENABLE) mop d =
        (r, d', calls)"
      using assms(1) by (simp add: arch_monitor_domctl_event_def Let_def event_numbers)
    from mov_to_msr_keeps_status [OF _ _ this] show ?thesis
      using 2 assms(2) by (simp add: event_status_def event_numbers)
  next
    case 3
    with assms(1) show ?thesis
      by (auto simp: arch_monitor_domctl_event_def event_status_def Let_def event_numbers switch_keeps switch_refuses
          on_arch_def split_def errnos split: if_splits)
  qed
qed

text \<open>
  The MSR 0x40000000 is not monitored, in a domain with a bitmap, here a set of bit numbers: a
  request to monitor it is refused.
\<close>

theorem arch_monitor_domctl_never_switches_witness:
  "\<exists>d'. arch_monitor_domctl_event id (\<lambda>_. 1) (msr_monitored (\<in>)) insert (\<lambda>i b. b - {i}) 3072 True
      \<lparr>mop_op = OP_ENABLE, mop_event = EVENT_MOV_TO_MSR, cr_pad1 = 0, cr_pad2 = 0, cr_index = 0, cr_sync = 0,
       cr_onchangeonly = 0, cr_bitmask = 0, msr_number = 0x40000000, msr_onchangeonly = 0, debug_sync = 0\<rparr>
      \<lparr>arch_monitor = zero_monitor\<lparr>msr_bitmap := 1\<rparr>, common_monitor = [], low = None,
       hypervisor = Some {5}, high = None\<rparr> =
      Some (- EEXIST, d', [Domain_pause, Domain_unpause]) \<and> \<not> msr_monitored (\<in>) d' 0x40000000"
proof -
  let ?mop = "\<lparr>mop_op = OP_ENABLE, mop_event = EVENT_MOV_TO_MSR, cr_pad1 = 0, cr_pad2 = 0, cr_index = 0, cr_sync = 0,
       cr_onchangeonly = 0, cr_bitmask = 0, msr_number = 0x40000000, msr_onchangeonly = 0, debug_sync = 0\<rparr>"
  let ?d = "\<lparr>arch_monitor = zero_monitor\<lparr>msr_bitmap := 1\<rparr>, common_monitor = [], low = None,
       hypervisor = Some {5 :: u32}, high = None\<rparr>"
  have off: "\<not> msr_monitored (\<in>) ?d 0x40000000"
    by (simp add: msr_monitored_def monitor_bitmap_for_msr_def)
  then have run: "arch_monitor_domctl_event id (\<lambda>_. 1) (msr_monitored (\<in>)) insert (\<lambda>i b. b - {i}) 3072 True ?mop ?d =
      Some (- EEXIST, ?d, [Domain_pause, Domain_unpause])"
    by (simp add: arch_monitor_domctl_event_def event_numbers mov_to_msr_event_def Let_def)
  have "bit_ops (\<in>) insert (\<lambda>(i :: u32) b. b - {i})" by (auto simp: bit_ops_def)
  from arch_monitor_domctl_never_switches [OF run] this have "\<not> event_status (\<lambda>_. 1) (msr_monitored (\<in>)) ?mop ?d"
    using off by (simp add: event_status_def event_numbers)
  with run off show ?thesis by blast
qed

text \<open>The cases that are not a single switch are under a pause as well.\<close>

lemma write_ctrlreg_under_pause:
  "write_ctrlreg_event unlikely ctrlreg_bitmask requested mop m = Some x \<Longrightarrow> under_pause m x"
  by (auto simp: write_ctrlreg_event_def Let_def under_pause_def errnos bind_eq_Some_conv split: if_splits)

lemma msr_enable_calls:
  "monitor_enable_msr put_bit clear_bit sz msr onchangeonly d = (r, d', calls) \<Longrightarrow>
   set calls \<subseteq> {Hvm_enable_msr_interception msr} \<and> (r < 0 \<longrightarrow> d' = d)"
  by (auto simp: monitor_enable_msr_def Let_def split: prod.splits option.splits if_splits)

lemma msr_disable_calls:
  "monitor_disable_msr clear_bit msr d = (r, d', calls) \<Longrightarrow> calls = [] \<and> (r < 0 \<longrightarrow> d' = d)"
  by (auto simp: monitor_disable_msr_def Let_def split: prod.splits option.splits if_splits)

lemma mov_to_msr_under_pause:
  "under_pause d (mov_to_msr_event monitored_msr put_bit clear_bit sz requested mop d)"
  by (auto simp: mov_to_msr_event_def under_pause_def Let_def split: prod.split
      dest!: msr_enable_calls msr_disable_calls)

lemma on_arch_under_pause: "under_pause (arch_monitor d) x \<Longrightarrow> under_pause d (on_arch d x)"
  by (auto simp: under_pause_def on_arch_def)

text \<open>
  C22. Whatever the request and its outcome, the domain is left unpaused and never changed while it
  runs: either nothing is called and the result is an error, or all calls stand between one pause and
  one unpause. A request that fails, before the pause or after it, leaves the domain as it was.
\<close>

theorem arch_monitor_domctl_under_pause:
  assumes "arch_monitor_domctl_event unlikely ctrlreg_bitmask monitored_msr put_bit clear_bit sz hook mop d =
      Some (r, d', calls)"
  shows "(r < 0 \<longrightarrow> d' = d) \<and>
    (calls = [] \<and> r < 0 \<or> (\<exists>cs. calls = Domain_pause # cs @ [Domain_unpause] \<and>
       Domain_pause \<notin> set cs \<and> Domain_unpause \<notin> set cs))"
proof -
  have "under_pause d (- EOPNOTSUPP, d, [])" by (simp add: under_pause_def errnos)
  then have "under_pause d x" if "arch_monitor_domctl_event unlikely ctrlreg_bitmask monitored_msr put_bit
      clear_bit sz hook mop d = Some x" for x
    using that unfolding arch_monitor_domctl_event_def Let_def
    by (auto intro: on_arch_under_pause switch_under_pause write_ctrlreg_under_pause mov_to_msr_under_pause
        split: if_splits)
  from this [OF assms] show ?thesis by (simp add: under_pause_def)
qed

text \<open>A request to switch off the tracking of CR3, which is off, changes the mask under a pause.\<close>

theorem arch_monitor_domctl_under_pause_witness:
  "\<exists>d' calls. arch_monitor_domctl_event (\<lambda>_. False) (\<lambda>_. 2) (\<lambda>_ _. False) (\<lambda>_ b. b) (\<lambda>_ b. b) 0 True
      \<lparr>mop_op = 0, mop_event = EVENT_WRITE_CTRLREG, cr_pad1 = 0, cr_pad2 = 0, cr_index = 1, cr_sync = 1,
       cr_onchangeonly = 0, cr_bitmask = 0, msr_number = 0, msr_onchangeonly = 0, debug_sync = 0\<rparr>
      \<lparr>arch_monitor = zero_monitor, common_monitor = [], low = Some (), hypervisor = None, high = None\<rparr> =
      Some (0, d', calls) \<and> calls = [Domain_pause, For_each_vcpu, Hvm_update_guest_cr 0, Domain_unpause] \<and>
    (\<exists>cs. calls = Domain_pause # cs @ [Domain_unpause])"
proof -
  let ?mop = "\<lparr>mop_op = 0, mop_event = EVENT_WRITE_CTRLREG, cr_pad1 = 0, cr_pad2 = 0, cr_index = 1, cr_sync = 1,
       cr_onchangeonly = 0, cr_bitmask = 0, msr_number = 0, msr_onchangeonly = 0, debug_sync = 0\<rparr>"
  let ?d = "\<lparr>arch_monitor = zero_monitor, common_monitor = [], low = Some (), hypervisor = None, high = None\<rparr>"
  let ?calls = "[Domain_pause, For_each_vcpu, Hvm_update_guest_cr 0, Domain_unpause]"
  have "\<exists>d'. arch_monitor_domctl_event (\<lambda>_. False) (\<lambda>_. 2) (\<lambda>_ _. False) (\<lambda>_ b. b) (\<lambda>_ b. b) 0 True ?mop ?d =
      Some (0, d', ?calls)"
    by (simp add: arch_monitor_domctl_event_def event_numbers on_arch_def write_ctrlreg_event_def zero_monitor_def
        OP_ENABLE_def X86_CR3_def upd_def c_true_def)
  then obtain d' where d': "arch_monitor_domctl_event (\<lambda>_. False) (\<lambda>_. 2) (\<lambda>_ _. False) (\<lambda>_ b. b) (\<lambda>_ b. b) 0 True
      ?mop ?d = Some (0, d', ?calls)" by blast
  from d' arch_monitor_domctl_under_pause [OF d'] show ?thesis by blast
qed

text \<open>
  No MSR can be monitored: the initialisation of a domain without a bitmap always fails, with a
  positive code, and every MSR request is then refused; even with a bitmap, every MSR but three is.
\<close>

theorem monitor_msr_refused:
  "(msr_bitmap (arch_monitor d) = 0 \<longrightarrow>
     arch_monitor_init_domain d = (ENOMEM, d) \<and>
     monitor_enable_msr put_bit clear_bit sz msr onchangeonly d = (- ENXIO, d, []) \<and>
     monitor_disable_msr clear_bit msr d = (- ENXIO, d, [])) \<and>
   (msr_bitmap (arch_monitor d) \<noteq> 0 \<and> msr \<notin> {0x1fff, 0x40000000, 0xc0001fff} \<longrightarrow>
     monitor_enable_msr put_bit clear_bit sz msr onchangeonly d = (- EINVAL, d, []) \<and>
     monitor_disable_msr clear_bit msr d = (- EINVAL, d, []))"
  by (auto simp: arch_monitor_init_domain_def monitor_enable_msr_def monitor_disable_msr_def
      monitor_bitmap_for_msr_def xzalloc_array_def Let_def)

theorem monitor_msr_refused_witness:
  "monitor_enable_msr (\<lambda>_ b. b) (\<lambda>_ b. b) 0 0x10 False
      \<lparr>arch_monitor = zero_monitor\<lparr>msr_bitmap := 1\<rparr>, common_monitor = [], low = Some (), hypervisor = None, high = None\<rparr> =
    (- EINVAL, \<lparr>arch_monitor = zero_monitor\<lparr>msr_bitmap := 1\<rparr>, common_monitor = [], low = Some (),
      hypervisor = None, high = None\<rparr>, [])"
  using monitor_msr_refused [of "\<lparr>arch_monitor = zero_monitor\<lparr>msr_bitmap := 1\<rparr>, common_monitor = [], low = Some (),
      hypervisor = None, high = None\<rparr>" "\<lambda>_ b. b" "\<lambda>_ b. b" 0 "0x10"]
  by simp

section \<open>A domain from its creation on\<close>

text \<open>The requests made for a domain, in order; \<open>event\<close> is \<open>arch_monitor_domctl_event\<close> with its parameters.\<close>

fun domctl_run ::
    "(monitor_op \<Rightarrow> 'b domain \<Rightarrow> (int \<times> 'b domain \<times> monitor_call list) option) \<Rightarrow> monitor_op list \<Rightarrow>
     'b domain \<Rightarrow> 'b domain option" where
  "domctl_run event [] d = Some d"
| "domctl_run event (mop # mops) d = do {
     (r, d, calls) \<leftarrow> event mop d;
     domctl_run event mops d }"

text \<open>A monitor without a bitmap and with every event off, and no mask set.\<close>

definition monitor_off :: "monitor \<Rightarrow> bool" where
  "monitor_off m \<longleftrightarrow>
     msr_bitmap m = 0 \<and> set (write_ctrlreg_mask m) \<subseteq> {0} \<and> write_ctrlreg_enabled m = 0 \<and>
     singlestep_enabled m = 0 \<and> inguest_pagefault_disabled m = 0 \<and> software_breakpoint_enabled m = 0 \<and>
     debug_exception_enabled m = 0 \<and> debug_exception_sync m = 0 \<and> cpuid_enabled m = 0 \<and>
     emul_unimplemented_enabled m = 0 \<and> descriptor_access_enabled m = 0"

lemma switch_off:
  assumes "monitor_off m"
  shows "monitor_off (fst (snd (switch_event singlestep_enabled (\<lambda>v. singlestep_enabled_update (\<lambda>_. v)) req m)))"
    "monitor_off (fst (snd (switch_event inguest_pagefault_disabled
      (\<lambda>v. inguest_pagefault_disabled_update (\<lambda>_. v)) req m)))"
    "monitor_off (fst (snd (switch_event software_breakpoint_enabled
      (\<lambda>v. software_breakpoint_enabled_update (\<lambda>_. v)) req m)))"
    "monitor_off (fst (snd (switch_event cpuid_enabled (\<lambda>v. cpuid_enabled_update (\<lambda>_. v)) req m)))"
    "monitor_off (fst (snd (switch_event emul_unimplemented_enabled
      (\<lambda>v. emul_unimplemented_enabled_update (\<lambda>_. v)) req m)))"
    "monitor_off (fst (snd (debug_exception_event req mop m)))"
    "monitor_off (fst (snd (desc_access_event hook req m)))"
  using assms by (simp_all add: monitor_off_def switch_event_def debug_exception_event_def desc_access_event_def)

text \<open>What a request to switch the tracking of a control register off can change.\<close>

lemma write_ctrlreg_disable:
  assumes "write_ctrlreg_event unlikely ctrlreg_bitmask False mop m = Some (r, m', calls)"
  obtains "m' = m"
  | s c i b where "m' = m\<lparr>write_ctrlreg_sync := s, write_ctrlreg_onchangeonly := c,
      write_ctrlreg_mask := (write_ctrlreg_mask m)[i := 0], write_ctrlreg_enabled := write_ctrlreg_enabled m AND b\<rparr>"
  using assms
  by (cases "c_true (cr_sync mop)"; cases "c_true (cr_onchangeonly mop)")
    (fastforce simp: write_ctrlreg_event_def Let_def upd_def split: if_splits)+

lemma write_ctrlreg_off:
  assumes "monitor_off m" "write_ctrlreg_event unlikely ctrlreg_bitmask req mop m = Some x"
  shows "monitor_off (fst (snd x))"
proof (cases req)
  case True
  then have "fst (snd x) = m"
    using assms by (auto simp: write_ctrlreg_event_def Let_def monitor_off_def split: if_splits)
  then show ?thesis using assms(1) by simp
next
  case False
  have masks: "set ((write_ctrlreg_mask m)[i := 0]) \<subseteq> {0}" for i
    using assms(1) set_update_subset_insert [of "write_ctrlreg_mask m" i 0] by (auto simp: monitor_off_def)
  obtain r m' calls where x: "x = (r, m', calls)" by (rule prod_cases3)
  from assms(2) have "write_ctrlreg_event unlikely ctrlreg_bitmask False mop m = Some (r, m', calls)"
    using False x by simp
  then show ?thesis
    by (cases rule: write_ctrlreg_disable) (use assms(1) masks x in \<open>simp_all add: monitor_off_def\<close>)
qed

lemma mov_to_msr_off:
  "monitor_off (arch_monitor d) \<Longrightarrow>
   fst (snd (mov_to_msr_event monitored_msr put_bit clear_bit sz req mop d)) = d"
  by (simp add: mov_to_msr_event_def monitor_enable_msr_def monitor_disable_msr_def monitor_off_def Let_def)

text \<open>The bitmaps of a domain.\<close>

definition bitmaps :: "'b domain \<Rightarrow> 'b option \<times> 'b option \<times> 'b option" where
  "bitmaps d = (low d, hypervisor d, high d)"

lemma bitmaps_on_arch [simp]: "bitmaps (fst (snd (on_arch d x))) = bitmaps d"
  by (simp add: on_arch_def split_def bitmaps_def)

lemma domctl_event_off:
  assumes "monitor_off (arch_monitor d)"
    and "arch_monitor_domctl_event unlikely ctrlreg_bitmask monitored_msr put_bit clear_bit sz hook mop d = Some x"
  shows "monitor_off (arch_monitor (fst (snd x))) \<and> bitmaps (fst (snd x)) = bitmaps d"
  using assms(2) unfolding arch_monitor_domctl_event_def Let_def
  by (auto intro: switch_off [OF assms(1)] dest: write_ctrlreg_off [OF assms(1)]
      simp: mov_to_msr_off [OF assms(1)] assms(1) split: if_splits)

text \<open>
  C23. From its creation to its cleanup a domain is never monitored: a new domain has no MSR bitmap,
  its initialisation fails and leaves it as it was, and whatever is then requested, in any order,
  every event stays off and the bitmaps are not written.
\<close>

theorem monitor_session_off:
  assumes "d\<^sub>0 = arch_monitor_cleanup_domain d"
    and "domctl_run (arch_monitor_domctl_event unlikely ctrlreg_bitmask monitored_msr put_bit clear_bit sz hook)
      mops (snd (arch_monitor_init_domain d\<^sub>0)) = Some d'"
  shows "fst (arch_monitor_init_domain d\<^sub>0) = ENOMEM \<and> monitor_off (arch_monitor d') \<and>
    (low d', hypervisor d', high d') = (low d, hypervisor d, high d)"
proof -
  have init: "arch_monitor_init_domain d\<^sub>0 = (ENOMEM, d\<^sub>0)"
    using assms(1)
    by (simp add: arch_monitor_init_domain_def arch_monitor_cleanup_domain_def zero_monitor_def xzalloc_array_def Let_def)
  have "monitor_off (arch_monitor d\<^sub>0)" "bitmaps d\<^sub>0 = bitmaps d"
    using assms(1) by (simp_all add: arch_monitor_cleanup_domain_def monitor_off_def zero_monitor_def bitmaps_def)
  moreover have "monitor_off (arch_monitor d') \<and> bitmaps d' = bitmaps e"
    if "domctl_run (arch_monitor_domctl_event unlikely ctrlreg_bitmask monitored_msr put_bit clear_bit sz hook) mops e =
      Some d'" "monitor_off (arch_monitor e)" for e
    using that
  proof (induction mops arbitrary: e)
    case (Cons mop mops)
    then obtain r e' calls where step: "arch_monitor_domctl_event unlikely ctrlreg_bitmask monitored_msr put_bit
        clear_bit sz hook mop e = Some (r, e', calls)"
      and rest: "domctl_run (arch_monitor_domctl_event unlikely ctrlreg_bitmask monitored_msr put_bit
        clear_bit sz hook) mops e' = Some d'"
      by (auto simp: bind_eq_Some_conv)
    have "monitor_off (arch_monitor e')" "bitmaps e' = bitmaps e"
      using domctl_event_off [OF Cons.prems(2) step] by simp_all
    with Cons.IH [OF rest] show ?case by simp
  qed simp
  ultimately show ?thesis using assms(2) init by (simp add: bitmaps_def)
qed

text \<open>Single-stepping was on before the cleanup; asking for it and asking to end it leave it off.\<close>

definition singlestep_op :: "int \<Rightarrow> monitor_op" where
  "singlestep_op op = \<lparr>mop_op = op, mop_event = EVENT_SINGLESTEP, cr_pad1 = 0, cr_pad2 = 0, cr_index = 0, cr_sync = 0,
     cr_onchangeonly = 0, cr_bitmask = 0, msr_number = 0, msr_onchangeonly = 0, debug_sync = 0\<rparr>"

definition stepped_domain :: "unit domain" where
  "stepped_domain = \<lparr>arch_monitor = zero_monitor\<lparr>singlestep_enabled := 1\<rparr>, common_monitor = [], low = Some (),
     hypervisor = None, high = None\<rparr>"

theorem monitor_session_off_witness:
  "\<exists>d'. domctl_run (arch_monitor_domctl_event id (\<lambda>_. 1) (\<lambda>_ _. False) (\<lambda>_ b. b) (\<lambda>_ b. b) 0 True)
      [singlestep_op OP_ENABLE, singlestep_op 0]
      (snd (arch_monitor_init_domain (arch_monitor_cleanup_domain stepped_domain))) = Some d' \<and>
    singlestep_enabled (arch_monitor d') = 0"
proof -
  let ?ev = "arch_monitor_domctl_event id (\<lambda>_. 1) (\<lambda>_ _. False) (\<lambda>_ (b :: unit). b) (\<lambda>_ b. b) 0 True"
  let ?d = "arch_monitor_cleanup_domain stepped_domain"
  have "arch_monitor ?d = zero_monitor" by (simp add: arch_monitor_cleanup_domain_def)
  then have "arch_monitor (snd (arch_monitor_init_domain ?d)) = zero_monitor"
    by (simp add: arch_monitor_init_domain_def zero_monitor_def xzalloc_array_def Let_def)
  then have "\<exists>d'. domctl_run ?ev [singlestep_op OP_ENABLE, singlestep_op 0] (snd (arch_monitor_init_domain ?d)) = Some d'"
    by (simp add: arch_monitor_domctl_event_def singlestep_op_def event_numbers on_arch_def switch_event_def
        zero_monitor_def OP_ENABLE_def)
  then obtain d' where d': "domctl_run ?ev [singlestep_op OP_ENABLE, singlestep_op 0]
      (snd (arch_monitor_init_domain ?d)) = Some d'" by blast
  then show ?thesis using monitor_session_off [OF refl d'] by (auto simp: monitor_off_def)
qed

end
