(* ===== verification/I8259.thy ===== *)
theory I8259
  imports Xen_Prelude
begin

text \<open>
  The 8259A interrupt controllers of irq_verified.c. The program keeps a cached mask and writes
  ports; the state records every port write in order, and a model of the two chips (after their
  data sheet) runs over that record, so that the theorems speak of the lines the hardware masks.
  What \<open>inb\<close> returns is a parameter that may depend on everything written before. The spinlock
  functions have empty bodies; \<open>outb\<close>, \<open>inb\<close>, \<open>udelay\<close> and the set-up calls are declared only.
\<close>

section \<open>State\<close>

datatype io_event = Out u32 u32  \<comment> \<open>value, port\<close>

record pic =
  cached_irq_mask :: u32
  spurious_irq_mask :: u32
  io_apic_irqs :: u32
  irq_trigger :: "u8 \<times> u8"
  trace :: "io_event list"

definition outb :: "u32 \<Rightarrow> u32 \<Rightarrow> pic \<Rightarrow> pic" where
  "outb v port s = s\<lparr>trace := trace s @ [Out v port]\<rparr>"

text \<open>\<open>cached_21\<close> and \<open>cached_A1\<close>: the two low bytes of the cached mask.\<close>

definition cached_21 :: "pic \<Rightarrow> u32" where
  "cached_21 s = cached_irq_mask s AND 0xff"

definition cached_A1 :: "pic \<Rightarrow> u32" where
  "cached_A1 s = drop_bit 8 (cached_irq_mask s) AND 0xff"

text \<open>\<open>1 << irq\<close> has no defined value from 32 on.\<close>

definition irq_bit :: "u32 \<Rightarrow> u32 option" where
  "irq_bit irq = (if irq < 32 then Some (push_bit (unat irq) 1) else None)"

type_synonym inb = "io_event list \<Rightarrow> u32 \<Rightarrow> u32"

section \<open>Operations\<close>

definition disable_8259A_irq_nr :: "u32 \<Rightarrow> pic \<Rightarrow> pic option" where
  "disable_8259A_irq_nr irq s = do {
     b \<leftarrow> irq_bit irq;
     let s = s\<lparr>cached_irq_mask := cached_irq_mask s OR b\<rparr>;
     Some (if irq AND 8 \<noteq> 0 then outb (cached_A1 s) 0xA1 s else outb (cached_21 s) 0x21 s) }"

record irq_desc =
  desc_irq :: u32
  desc_status :: u32
  desc_handler_8259A :: bool   \<comment> \<open>\<open>handler == &i8259A_irq_type\<close>\<close>
  desc_cpu_mask :: int
  desc_vector :: u32

definition disable_8259A_irq :: "irq_desc \<Rightarrow> pic \<Rightarrow> pic option" where
  "disable_8259A_irq desc s = disable_8259A_irq_nr (desc_irq desc) s"

definition enable_8259A_irq :: "irq_desc \<Rightarrow> pic \<Rightarrow> pic option" where
  "enable_8259A_irq desc s = do {
     b \<leftarrow> irq_bit (desc_irq desc);
     let s = s\<lparr>cached_irq_mask := cached_irq_mask s AND NOT b\<rparr>;
     Some (if desc_irq desc AND 8 \<noteq> 0 then outb (cached_A1 s) 0xA1 s else outb (cached_21 s) 0x21 s) }"

definition i8259A_irq_pending :: "inb \<Rightarrow> u32 \<Rightarrow> pic \<Rightarrow> u32 option" where
  "i8259A_irq_pending inb irq s = do {
     b \<leftarrow> irq_bit irq;
     Some (if irq < 8 then inb (trace s) 0x20 AND b else inb (trace s) 0xA0 AND drop_bit 8 b) }"

definition mask_8259A :: "pic \<Rightarrow> pic" where
  "mask_8259A s = outb 0xff 0x21 (outb 0xff 0xA1 s)"

definition unmask_8259A :: "pic \<Rightarrow> pic" where
  "unmask_8259A s = (let s = outb (cached_A1 s) 0xA1 s in outb (cached_21 s) 0x21 s)"

text \<open>The mask is an \<open>int\<close> here, so its shift keeps the sign.\<close>

definition i8259A_irq_real :: "inb \<Rightarrow> u32 \<Rightarrow> pic \<Rightarrow> (u32 \<times> pic) option" where
  "i8259A_irq_real inb irq s = do {
     irqmask \<leftarrow> irq_bit irq;
     if irq < 8 then
       let s = outb 0x0B 0x20 s;
           v = inb (trace s) 0x20 AND irqmask
       in Some (v, outb 0x0A 0x20 s)
     else
       let s = outb 0x0B 0xA0 s;
           v = inb (trace s) 0xA0 AND signed_drop_bit 8 irqmask
       in Some (v, outb 0x0A 0xA0 s) }"

text \<open>All port accesses of this function but the test for a spurious interrupt are commented out.\<close>

definition mask_and_ack_8259A_irq_nr :: "inb \<Rightarrow> u32 \<Rightarrow> pic \<Rightarrow> (bool \<times> pic) option" where
  "mask_and_ack_8259A_irq_nr inb irq s = do {
     irqmask \<leftarrow> irq_bit irq;
     (is_real, s) \<leftarrow>
       (if cached_irq_mask s AND irqmask \<noteq> 0 then do {
          (v, s) \<leftarrow> i8259A_irq_real inb irq s;
          Some (if v = 0
            then (False, if spurious_irq_mask s AND irqmask = 0
                         then s\<lparr>spurious_irq_mask := spurious_irq_mask s OR irqmask\<rparr> else s)
            else (True, s)) }
        else Some (True, s));
     Some (is_real, s\<lparr>cached_irq_mask := cached_irq_mask s OR irqmask\<rparr>) }"

definition bogus_8259A_irq :: "inb \<Rightarrow> u32 \<Rightarrow> pic \<Rightarrow> (bool \<times> pic) option" where
  "bogus_8259A_irq inb irq s = mask_and_ack_8259A_irq_nr inb irq s"

definition mask_and_ack_8259A_irq :: "inb \<Rightarrow> irq_desc \<Rightarrow> pic \<Rightarrow> pic option" where
  "mask_and_ack_8259A_irq inb desc s = map_option snd (mask_and_ack_8259A_irq_nr inb (desc_irq desc) s)"

definition startup_8259A_irq :: "irq_desc \<Rightarrow> pic \<Rightarrow> (u32 \<times> pic) option" where
  "startup_8259A_irq desc s = do {
     s \<leftarrow> enable_8259A_irq desc s;
     Some (0, s) }"

text \<open>\<open>IRQ_DISABLED\<close> and \<open>IRQ_INPROGRESS\<close> are ghost variables of type \<open>bool\<close>.\<close>

definition end_8259A_irq :: "bool \<Rightarrow> bool \<Rightarrow> irq_desc \<Rightarrow> pic \<Rightarrow> pic option" where
  "end_8259A_irq irq_disabled irq_inprogress desc s =
     (if desc_status desc AND of_bool_w (irq_disabled \<or> irq_inprogress) = 0
      then enable_8259A_irq desc s else Some s)"

text \<open>The trigger bytes are \<open>char\<close>, widened with their sign when they are written.\<close>

definition restore_ELCR :: "pic \<Rightarrow> pic" where
  "restore_ELCR s = outb (scast (snd (irq_trigger s))) 0x4d1 (outb (scast (fst (irq_trigger s))) 0x4d0 s)"

definition save_ELCR :: "inb \<Rightarrow> pic \<Rightarrow> pic" where
  "save_ELCR inb s =
     s\<lparr>irq_trigger := (ucast (inb (trace s) 0x4d0 AND 0xF8), ucast (inb (trace s) 0x4d1 AND 0xDE))\<rparr>"

definition i8259A_resume :: "pic \<Rightarrow> int \<times> pic" where
  "i8259A_resume s = (0, restore_ELCR s)"

definition i8259A_suspend :: "inb \<Rightarrow> pic \<Rightarrow> int \<times> pic" where
  "i8259A_suspend inb s = (0, save_ELCR inb s)"

text \<open>\<open>flv\<close> is the ghost variable \<open>FIRST_LEGACY_VECTOR\<close>; \<open>outb_p\<close> is a slower \<open>outb\<close>.\<close>

definition init_8259A :: "u32 \<Rightarrow> u32 \<Rightarrow> pic \<Rightarrow> pic" where
  "init_8259A flv auto_eoi s =
     (let s = outb 0xff 0x21 s;
          s = outb 0xff 0xA1 s;
          s = outb 0x11 0x20 s;
          s = outb flv 0x21 s;
          s = outb 0x04 0x21 s;
          s = (if c_true auto_eoi then outb 0x03 0x21 s else outb 0x01 0x21 s);
          s = outb 0x11 0xA0 s;
          s = outb (flv + 8) 0xA1 s;
          s = outb 0x02 0xA1 s;
          s = outb 0x01 0xA1 s;
          s = outb (cached_21 s) 0x21 s
      in outb (cached_A1 s) 0xA1 s)"

definition make_8259A_irq :: "u32 \<Rightarrow> pic \<Rightarrow> (u32 \<Rightarrow> irq_desc) \<Rightarrow> (pic \<times> (u32 \<Rightarrow> irq_desc)) option" where
  "make_8259A_irq irq s descs = do {
     b \<leftarrow> irq_bit irq;
     Some (s\<lparr>io_apic_irqs := io_apic_irqs s AND NOT b\<rparr>,
       descs(irq := (descs irq)\<lparr>desc_handler_8259A := True\<rparr>)) }"

text \<open>
  The loop of \<open>init_IRQ\<close>; \<open>platform_legacy_irq\<close> is declared only, so it may never end. The loop
  reads a ghost variable of its own, \<open>vec\<close>, declared in the function like the one in \<open>init_8259A\<close>.
  \<open>cpumask_copy\<close> is declared with two integers for arguments and cannot change the descriptor.
\<close>

partial_function (option) init_IRQ_loop ::
    "(u32 \<Rightarrow> bool) \<Rightarrow> u32 \<Rightarrow> u32 \<Rightarrow> (u32 \<Rightarrow> irq_desc) \<Rightarrow> (u32 \<Rightarrow> irq_desc) option" where
  "init_IRQ_loop platform_legacy_irq vec irq descs =
     (if platform_legacy_irq irq then
        if irq = 2 then init_IRQ_loop platform_legacy_irq vec (irq + 1) descs
        else init_IRQ_loop platform_legacy_irq vec (irq + 1)
          (descs(irq := (descs irq)\<lparr>desc_handler_8259A := True, desc_vector := vec + irq\<rparr>))
      else Some descs)"

definition init_IRQ ::
    "(u32 \<Rightarrow> bool) \<Rightarrow> u32 \<Rightarrow> u32 \<Rightarrow> pic \<Rightarrow> (u32 \<Rightarrow> irq_desc) \<Rightarrow> (pic \<times> (u32 \<Rightarrow> irq_desc)) option" where
  "init_IRQ platform_legacy_irq flv vec s descs = do {
     let s = init_8259A flv 0 s;
     descs \<leftarrow> init_IRQ_loop platform_legacy_irq vec 0 descs;
     Some (s, descs) }"

section \<open>The chips\<close>

text \<open>
  One 8259A after its data sheet. A write with address line 0 and bit 4 set starts the
  initialisation, which takes one to three more words on address line 1; outside it, line 1 is the
  mask register, and a word on line 0 with bit 3 set selects the register to read.
\<close>

datatype phase = Ready | Want_icw2 | Want_icw3 | Want_icw4

record chip =
  phase_of :: phase
  imr :: u8
  vector_base :: u8
  cascade :: u8
  icw4 :: u8
  want_icw3 :: bool
  want_icw4 :: bool
  reads_isr :: bool

fun write_command :: "u8 \<Rightarrow> chip \<Rightarrow> chip" where
  "write_command v c =
     (if bit v 4 then c\<lparr>phase_of := Want_icw2, imr := 0, want_icw3 := \<not> bit v 1, want_icw4 := bit v 0,
        reads_isr := False\<rparr>
      else if bit v 3 \<and> bit v 1 then c\<lparr>reads_isr := bit v 0\<rparr>
      else c)"

fun write_data :: "u8 \<Rightarrow> chip \<Rightarrow> chip" where
  "write_data v c = (case phase_of c of
     Ready \<Rightarrow> c\<lparr>imr := v\<rparr>
   | Want_icw2 \<Rightarrow> c\<lparr>vector_base := v,
       phase_of := (if want_icw3 c then Want_icw3 else if want_icw4 c then Want_icw4 else Ready)\<rparr>
   | Want_icw3 \<Rightarrow> c\<lparr>cascade := v, phase_of := (if want_icw4 c then Want_icw4 else Ready)\<rparr>
   | Want_icw4 \<Rightarrow> c\<lparr>icw4 := v, phase_of := Ready\<rparr>)"

text \<open>Master at ports 0x20 and 0x21, slave at 0xA0 and 0xA1; only the low byte reaches a chip.\<close>

fun device_step :: "io_event \<Rightarrow> chip \<times> chip \<Rightarrow> chip \<times> chip" where
  "device_step (Out v port) (master, slave) =
     (if port = 0x20 then (write_command (ucast v) master, slave)
      else if port = 0x21 then (write_data (ucast v) master, slave)
      else if port = 0xA0 then (master, write_command (ucast v) slave)
      else if port = 0xA1 then (master, write_data (ucast v) slave)
      else (master, slave))"

definition device :: "chip \<times> chip \<Rightarrow> pic \<Rightarrow> chip \<times> chip" where
  "device d0 s = fold device_step (trace s) d0"

lemma device_outb [simp]: "device d0 (outb v port s) = device_step (Out v port) (device d0 s)"
  by (simp add: device_def outb_def)

lemma device_update [simp]:
  "device d0 (s\<lparr>cached_irq_mask := m\<rparr>) = device d0 s"
  "device d0 (s\<lparr>spurious_irq_mask := m\<rparr>) = device d0 s"
  "device d0 (s\<lparr>irq_trigger := t\<rparr>) = device d0 s"
  by (simp_all add: device_def)

lemma outb_simps [simp]:
  "cached_irq_mask (outb v p s) = cached_irq_mask s" "spurious_irq_mask (outb v p s) = spurious_irq_mask s"
  "cached_21 (outb v p s) = cached_21 s" "cached_A1 (outb v p s) = cached_A1 s"
  "irq_trigger (outb v p s) = irq_trigger s"
  by (simp_all add: outb_def cached_21_def cached_A1_def)

text \<open>The lines the hardware masks, and the chips in step with the cached mask.\<close>

definition masked_lines :: "chip \<times> chip \<Rightarrow> nat set" where
  "masked_lines d = {n. n < 8 \<and> bit (imr (fst d)) n \<or> 8 \<le> n \<and> n < 16 \<and> bit (imr (snd d)) (n - 8)}"

definition in_step :: "chip \<times> chip \<Rightarrow> pic \<Rightarrow> bool" where
  "in_step d s \<longleftrightarrow> phase_of (fst d) = Ready \<and> phase_of (snd d) = Ready \<and>
     (\<forall>n < 16. n \<in> masked_lines d \<longleftrightarrow> bit (cached_irq_mask s) n)"

section \<open>The cached mask and the hardware\<close>

lemma bit_ff: "bit (0xff :: u32) n \<longleftrightarrow> n < 8"
proof -
  have "(0xff :: u32) = mask 8" by (simp add: mask_eq_exp_minus_1)
  show ?thesis unfolding \<open>(0xff :: u32) = mask 8\<close> by (simp only: bit_mask_iff) auto
qed

lemma bit_ff_int: "bit (0xff :: int) n \<longleftrightarrow> n < 8"
proof -
  have "(0xff :: int) = mask 8" by (simp add: mask_eq_exp_minus_1)
  show ?thesis unfolding \<open>(0xff :: int) = mask 8\<close> by (simp only: bit_mask_iff) auto
qed

lemma bit_cached [simp]:
  "bit (ucast (cached_21 s) :: u8) n \<longleftrightarrow> n < 8 \<and> bit (cached_irq_mask s) n"
  "bit (ucast (cached_A1 s) :: u8) n \<longleftrightarrow> n < 8 \<and> bit (cached_irq_mask s) (8 + n)"
  by (simp_all only: cached_21_def cached_A1_def bit_unsigned_iff bit_and_iff bit_ff bit_drop_bit_eq comp_def)
    auto

lemma in_step_lines: "in_step d s \<Longrightarrow> masked_lines d = {n. n < 16 \<and> bit (cached_irq_mask s) n}"
proof -
  assume d: "in_step d s"
  have "n < 16" if "n \<in> masked_lines d" for n using that by (auto simp: masked_lines_def)
  with d show ?thesis by (auto simp: in_step_def)
qed

lemma chips_ready:
  "in_step d s \<Longrightarrow> phase_of (fst d) = Ready" "in_step d s \<Longrightarrow> phase_of (snd d) = Ready"
  by (simp_all add: in_step_def)

text \<open>Writing one byte of the cached mask brings the lines of that chip into step.\<close>

lemma out_21_in_step:
  assumes "phase_of (fst d) = Ready" "phase_of (snd d) = Ready"
    and "\<And>n. 8 \<le> n \<Longrightarrow> n < 16 \<Longrightarrow> n \<in> masked_lines d \<longleftrightarrow> bit (cached_irq_mask s) n"
  shows "in_step (device_step (Out (cached_21 s) 0x21) d) s"
proof -
  obtain m sl where d: "d = (m, sl)" by (cases d)
  have "n \<in> masked_lines (device_step (Out (cached_21 s) 0x21) d) \<longleftrightarrow> bit (cached_irq_mask s) n" if "n < 16" for n
    using assms(1) assms(3) [of n] that by (cases "n < 8") (simp_all add: d masked_lines_def)
  then show ?thesis using assms(1,2) by (simp add: in_step_def d)
qed

lemma out_A1_in_step:
  assumes "phase_of (fst d) = Ready" "phase_of (snd d) = Ready"
    and "\<And>n. n < 8 \<Longrightarrow> n \<in> masked_lines d \<longleftrightarrow> bit (cached_irq_mask s) n"
  shows "in_step (device_step (Out (cached_A1 s) 0xA1) d) s"
proof -
  obtain m sl where d: "d = (m, sl)" by (cases d)
  have "n \<in> masked_lines (device_step (Out (cached_A1 s) 0xA1) d) \<longleftrightarrow> bit (cached_irq_mask s) n" if "n < 16" for n
  proof -
    have "n - 8 < 8" using that by simp
    then show ?thesis
      using assms(2) assms(3) [of n] that by (cases "n < 8") (simp_all add: d masked_lines_def)
  qed
  then show ?thesis using assms(1,2) by (simp add: in_step_def d)
qed

lemma irq_and_8: "irq < 16 \<Longrightarrow> irq AND 8 \<noteq> 0 \<longleftrightarrow> 8 \<le> irq" for irq :: u32
proof -
  assume "irq < 16"
  then have n: "unat irq < 16" by (simp add: word_less_nat_alt)
  have "irq AND 8 \<noteq> 0 \<longleftrightarrow> bit irq 3"
  proof -
    have "(8 :: u32) = 2 ^ 3" by simp
    show ?thesis unfolding \<open>(8 :: u32) = 2 ^ 3\<close> by (simp only: and_exp_eq_0_iff_not_bit not_not)
  qed
  also have "bit irq 3 \<longleftrightarrow> odd (unat irq div 8)"
    by (simp add: bit_unsigned_iff flip: bit_iff_odd [of "unat irq" 3, simplified])
  also have "\<dots> \<longleftrightarrow> 8 \<le> unat irq" using n by presburger
  finally show ?thesis by (simp add: word_le_nat_alt)
qed

lemma bit_irq:
  "irq < 32 \<Longrightarrow> bit (push_bit (unat irq) 1 :: u32) n \<longleftrightarrow> n = unat irq"
  "irq < 32 \<Longrightarrow> bit (2 ^ unat irq :: u32) n \<longleftrightarrow> n = unat irq" for irq :: u32
  by (auto simp: bit_simps word_less_nat_alt)

lemma in_step_outb [simp]: "in_step d (outb v p s) = in_step d s"
  by (simp add: in_step_def)

text \<open>A new mask that differs in one line, written to the chip of this line.\<close>

lemma line_written:
  fixes irq :: u32
  assumes "in_step (device d0 s) s" "irq < 16"
    and "\<And>n. n \<noteq> unat irq \<Longrightarrow> bit m n = bit (cached_irq_mask s) n"
    and t: "t = s\<lparr>cached_irq_mask := m\<rparr>"
    and s': "s' = (if irq AND 8 \<noteq> 0 then outb (cached_A1 t) 0xA1 t else outb (cached_21 t) 0x21 t)"
  shows "in_step (device d0 s') s'" "masked_lines (device d0 s') = {n. n < 16 \<and> bit m n}"
proof -
  have lines: "n \<in> masked_lines (device d0 s) \<longleftrightarrow> n < 16 \<and> bit (cached_irq_mask s) n" for n
    using in_step_lines [OF assms(1)] by simp
  show step: "in_step (device d0 s') s'"
  proof (cases "8 \<le> irq")
    case True
    then have "in_step (device_step (Out (cached_A1 t) 0xA1) (device d0 s)) t"
      using chips_ready [OF assms(1)] lines assms(3)
      by (intro out_A1_in_step) (auto simp: t word_le_nat_alt)
    then show ?thesis using True irq_and_8 [OF assms(2)] by (simp add: s' t)
  next
    case False
    then have "in_step (device_step (Out (cached_21 t) 0x21) (device d0 s)) t"
      using chips_ready [OF assms(1)] lines assms(3)
      by (intro out_21_in_step) (auto simp: t word_le_nat_alt)
    then show ?thesis using False irq_and_8 [OF assms(2)] by (simp add: s' t)
  qed
  have "cached_irq_mask s' = m" by (simp add: s' t)
  with in_step_lines [OF step] show "masked_lines (device d0 s') = {n. n < 16 \<and> bit m n}" by simp
qed

lemma i8259_lines:
  assumes "in_step (device d0 s) s" "desc_irq desc < 16"
  shows "(\<exists>s'. disable_8259A_irq desc s = Some s' \<and> in_step (device d0 s') s' \<and>
      masked_lines (device d0 s') = insert (unat (desc_irq desc)) (masked_lines (device d0 s))) \<and>
    (\<exists>s'. enable_8259A_irq desc s = Some s' \<and> in_step (device d0 s') s' \<and>
      masked_lines (device d0 s') = masked_lines (device d0 s) - {unat (desc_irq desc)})"
proof
  let ?irq = "desc_irq desc"
  have irq: "?irq < 32" "unat ?irq < 16" using assms(2) by (auto simp: word_less_nat_alt)
  have b: "irq_bit ?irq = Some (push_bit (unat ?irq) 1)" using irq by (simp add: irq_bit_def)
  have lines: "masked_lines (device d0 s) = {n. n < 16 \<and> bit (cached_irq_mask s) n}"
    by (rule in_step_lines [OF assms(1)])
  let ?or = "cached_irq_mask s OR push_bit (unat ?irq) 1"
  have "bit ?or n = bit (cached_irq_mask s) n" if "n \<noteq> unat ?irq" for n
    using that irq by (simp add: bit_or_iff bit_irq)
  note or = line_written [OF assms this refl refl]
  moreover have "{n. n < 16 \<and> bit ?or n} = insert (unat ?irq) (masked_lines (device d0 s))"
    using irq by (auto simp: lines bit_or_iff bit_irq)
  moreover note disable_8259A_irq_def disable_8259A_irq_nr_def b
  ultimately show "\<exists>s'. disable_8259A_irq desc s = Some s' \<and> in_step (device d0 s') s' \<and>
      masked_lines (device d0 s') = insert (unat ?irq) (masked_lines (device d0 s))"
    by (simp only: Option.bind.simps Let_def option.inject ex_simps simp_thms)
  let ?and = "cached_irq_mask s AND NOT (push_bit (unat ?irq) 1)"
  have "bit ?and n = bit (cached_irq_mask s) n" if "n \<noteq> unat ?irq" for n
    using that irq by (auto simp: bit_and_iff bit_not_iff bit_irq dest: bit_imp_le_length)
  note clr = line_written [OF assms this refl refl]
  moreover have "{n. n < 16 \<and> bit ?and n} = masked_lines (device d0 s) - {unat ?irq}"
    using irq by (auto simp: lines bit_and_iff bit_not_iff bit_irq)
  moreover note enable_8259A_irq_def b
  ultimately show "\<exists>s'. enable_8259A_irq desc s = Some s' \<and> in_step (device d0 s') s' \<and>
      masked_lines (device d0 s') = masked_lines (device d0 s) - {unat ?irq}"
    by (simp only: Option.bind.simps Let_def option.inject ex_simps simp_thms)
qed

text \<open>
  Disabling and enabling a line refine the set of masked lines: while the chips are in step
  with the cached mask, disabling adds exactly this line, enabling removes exactly this line, and
  the chips stay in step.
\<close>

theorem i8259_lines_refine:
  assumes "in_step (device d0 s) s" "desc_irq desc < 16"
  shows "(\<exists>s'. disable_8259A_irq desc s = Some s' \<and> in_step (device d0 s') s' \<and>
      masked_lines (device d0 s') = insert (unat (desc_irq desc)) (masked_lines (device d0 s))) \<and>
    (\<exists>s'. enable_8259A_irq desc s = Some s' \<and> in_step (device d0 s') s' \<and>
      masked_lines (device d0 s') = masked_lines (device d0 s) - {unat (desc_irq desc)})"
  using assms by (rule i8259_lines)

definition idle_chips :: "chip \<times> chip" where
  "idle_chips =
     (let c = \<lparr>phase_of = Ready, imr = 0xff, vector_base = 0, cascade = 0, icw4 = 0, want_icw3 = False,
        want_icw4 = False, reads_isr = False\<rparr> in (c, c))"

definition boot_pic :: pic where
  "boot_pic = \<lparr>cached_irq_mask = 0xffff, spurious_irq_mask = 0, io_apic_irqs = 0, irq_trigger = (0, 0), trace = []\<rparr>"

lemma bit_ffff: "n < 16 \<Longrightarrow> bit (0xffff :: u32) n"
proof -
  assume n: "n < 16"
  have "(0xffff :: u32) = mask 16" by (simp add: mask_eq_exp_minus_1)
  show "bit (0xffff :: u32) n"
    unfolding \<open>(0xffff :: u32) = mask 16\<close> using n by (simp only: bit_mask_iff) simp
qed

lemma boot_in_step: "in_step (device idle_chips boot_pic) boot_pic"
proof -
  have chips: "device idle_chips boot_pic = idle_chips" by (simp add: device_def boot_pic_def)
  have "n \<in> masked_lines idle_chips" if "n < 16" for n
    using that by (cases "n < 8") (auto simp: masked_lines_def idle_chips_def Let_def bit_ff_int)
  moreover have "cached_irq_mask boot_pic = 0xffff" by (simp add: boot_pic_def)
  moreover have "phase_of (fst idle_chips) = Ready" "phase_of (snd idle_chips) = Ready"
    by (simp_all add: idle_chips_def Let_def)
  ultimately show ?thesis unfolding in_step_def chips using bit_ffff by (simp only: simp_thms) blast
qed

theorem i8259_lines_refine_witness:
  "\<exists>s'. enable_8259A_irq \<lparr>desc_irq = 9, desc_status = 0, desc_handler_8259A = True, desc_cpu_mask = 0,
       desc_vector = 0\<rparr> boot_pic = Some s' \<and>
     masked_lines (device idle_chips s') = masked_lines (device idle_chips boot_pic) - {9}"
  using i8259_lines_refine [OF boot_in_step, of "\<lparr>desc_irq = 9, desc_status = 0, desc_handler_8259A = True,
      desc_cpu_mask = 0, desc_vector = 0\<rparr>"]
  by auto

text \<open>Whatever state the chips were in, what \<open>init_8259A\<close> makes of them.\<close>

lemma init_8259A_device:
  assumes "device d0 s = (m, sl)"
  shows "device d0 (init_8259A flv auto_eoi s) =
    (m\<lparr>phase_of := Ready, imr := ucast (cached_21 s), vector_base := ucast flv, cascade := 4,
       icw4 := if auto_eoi \<noteq> 0 then 3 else 1, want_icw3 := True, want_icw4 := True, reads_isr := False\<rparr>,
     sl\<lparr>phase_of := Ready, imr := ucast (cached_A1 s), vector_base := ucast (flv + 8), cascade := 2,
       icw4 := 1, want_icw3 := True, want_icw4 := True, reads_isr := False\<rparr>)"
  by (cases m, cases sl) (simp add: init_8259A_def Let_def assms c_true_def)

lemma init_8259A_cached [simp]: "cached_irq_mask (init_8259A flv auto_eoi s) = cached_irq_mask s"
  by (simp add: init_8259A_def Let_def)

lemma init_8259A_in_step:
  "in_step (device d0 (init_8259A flv auto_eoi s)) (init_8259A flv auto_eoi s)"
proof -
  obtain m sl where d: "device d0 s = (m, sl)" by (cases "device d0 s")
  note dev = init_8259A_device [OF d, of flv auto_eoi]
  have "n \<in> masked_lines (device d0 (init_8259A flv auto_eoi s)) \<longleftrightarrow> bit (cached_irq_mask s) n" if "n < 16" for n
  proof -
    have "n - 8 < 8" using that by simp
    then show ?thesis using that by (cases "n < 8") (simp_all add: dev masked_lines_def)
  qed
  note lines = this
  show ?thesis unfolding in_step_def init_8259A_cached using lines unfolding dev by simp
qed

text \<open>
  C20. From any state of the two chips, in the middle of another initialisation even, \<open>init_8259A\<close>
  leaves both ready, with the vector bases, the cascade wiring and the mode it was asked for, and
  the hardware masks in step with the cached mask.
\<close>

theorem init_8259A_programs:
  shows "in_step (device d0 (init_8259A flv auto_eoi s)) (init_8259A flv auto_eoi s) \<and>
    (case device d0 (init_8259A flv auto_eoi s) of (master, slave) \<Rightarrow>
      vector_base master = ucast flv \<and> vector_base slave = ucast (flv + 8) \<and>
      cascade master = 4 \<and> cascade slave = 2 \<and>
      icw4 master = (if auto_eoi \<noteq> 0 then 3 else 1) \<and> icw4 slave = 1 \<and>
      \<not> reads_isr master \<and> \<not> reads_isr slave)"
proof
  obtain m sl where d: "device d0 s = (m, sl)" by (cases "device d0 s")
  show "case device d0 (init_8259A flv auto_eoi s) of (master, slave) \<Rightarrow>
      vector_base master = ucast flv \<and> vector_base slave = ucast (flv + 8) \<and>
      cascade master = 4 \<and> cascade slave = 2 \<and>
      icw4 master = (if auto_eoi \<noteq> 0 then 3 else 1) \<and> icw4 slave = 1 \<and>
      \<not> reads_isr master \<and> \<not> reads_isr slave"
    by (simp add: init_8259A_device [OF d])
qed (rule init_8259A_in_step)

text \<open>The loop of \<open>init_IRQ\<close> runs to the first line that is not a legacy one.\<close>

definition legacy_desc :: "u32 \<Rightarrow> u32 \<Rightarrow> u32 \<Rightarrow> irq_desc \<Rightarrow> irq_desc" where
  "legacy_desc vec n i d =
     (if i < n \<and> i \<noteq> 2 then d\<lparr>desc_handler_8259A := True, desc_vector := vec + i\<rparr> else d)"

lemma init_IRQ_loop_runs:
  assumes legacy: "\<And>i. i < n \<Longrightarrow> platform_legacy_irq i" and last: "\<not> platform_legacy_irq n"
  shows "irq \<le> n \<Longrightarrow> init_IRQ_loop platform_legacy_irq vec irq descs =
    Some (\<lambda>i. if i < irq then descs i else legacy_desc vec n i (descs i))"
proof (induction "unat n - unat irq" arbitrary: irq descs)
  case 0
  then have "irq = n" by (simp add: word_le_nat_alt word_unat_eq_iff)
  then show ?case
    using last by (subst init_IRQ_loop.simps) (auto simp: legacy_desc_def)
next
  case (Suc k)
  then have lt: "irq < n" by (simp add: word_less_nat_alt)
  then have up: "unat (irq + 1) = Suc (unat irq)"
    using word_order.extremum_strict [of n] by (intro unat_plus_1) auto
  then have IH: "init_IRQ_loop platform_legacy_irq vec (irq + 1) ds =
      Some (\<lambda>i. if i < irq + 1 then ds i else legacy_desc vec n i (ds i))" for ds
    using Suc.hyps lt by (intro Suc.hyps(1)) (simp_all add: word_le_nat_alt word_less_nat_alt)
  have below: "i < irq + 1 \<longleftrightarrow> i < irq \<or> i = irq" for i
    using up by (auto simp: word_less_nat_alt word_unat_eq_iff less_Suc_eq)
  note step = init_IRQ_loop.simps [of platform_legacy_irq vec irq descs]
  show ?case
  proof (cases "irq = 2")
    case True
    then show ?thesis
      using step legacy [OF lt] lt IH [of descs, unfolded below] by (auto simp: legacy_desc_def fun_eq_iff)
  next
    case False
    then show ?thesis using step legacy [OF lt] lt by (auto simp: IH below legacy_desc_def fun_eq_iff)
  qed
qed

text \<open>
  When the legacy lines are those below some \<open>n\<close>, \<open>init_IRQ\<close> returns: it gives the 8259A handler and
  the vector to every line below \<open>n\<close> but the cascade line 2, leaves all other descriptors as they
  were, and has programmed the chips, which mask the lines of the cached mask.
\<close>

theorem init_IRQ_sets_up:
  assumes "\<And>i. i < n \<Longrightarrow> platform_legacy_irq i" "\<not> platform_legacy_irq n"
  shows "\<exists>s'. init_IRQ platform_legacy_irq flv vec s descs = Some (s', \<lambda>i. legacy_desc vec n i (descs i)) \<and>
    in_step (device d0 s') s' \<and> cached_irq_mask s' = cached_irq_mask s"
proof -
  have "init_IRQ_loop platform_legacy_irq vec 0 descs = Some (\<lambda>i. legacy_desc vec n i (descs i))"
    using init_IRQ_loop_runs [of n platform_legacy_irq 0 vec descs] assms by simp
  then show ?thesis using init_8259A_in_step by (simp add: init_IRQ_def)
qed

theorem init_IRQ_sets_up_witness:
  "\<exists>s' descs'. init_IRQ (\<lambda>i. i < 16) 0x20 0x20 boot_pic
      (\<lambda>i. \<lparr>desc_irq = i, desc_status = 0, desc_handler_8259A = False, desc_cpu_mask = 0, desc_vector = 0\<rparr>) =
        Some (s', descs') \<and>
    desc_vector (descs' 7) = 0x27 \<and> \<not> desc_handler_8259A (descs' 2) \<and> \<not> desc_handler_8259A (descs' 16)"
  using init_IRQ_sets_up [of 16 "\<lambda>i. i < 16" "0x20" "0x20" boot_pic
      "\<lambda>i. \<lparr>desc_irq = i, desc_status = 0, desc_handler_8259A = False, desc_cpu_mask = 0, desc_vector = 0\<rparr>" idle_chips]
  by (auto simp: legacy_desc_def)

text \<open>
  Acknowledging an interrupt does not reach the hardware: on a line that is enabled the
  function reports a real interrupt, masks the line in its cached mask only, and writes no port, so
  the chips are out of step and neither masks the line nor gets an end of interrupt.
\<close>

theorem mask_and_ack_out_of_step:
  assumes "in_step (device d0 s) s" "irq < 16" "\<not> bit (cached_irq_mask s) (unat irq)"
  shows "\<exists>s'. mask_and_ack_8259A_irq_nr inb irq s = Some (True, s') \<and> trace s' = trace s \<and>
    bit (cached_irq_mask s') (unat irq) \<and> unat irq \<notin> masked_lines (device d0 s') \<and>
    \<not> in_step (device d0 s') s'"
proof -
  let ?b = "push_bit (unat irq) 1 :: u32"
  let ?s' = "s\<lparr>cached_irq_mask := cached_irq_mask s OR ?b\<rparr>"
  have irq: "irq < 32" "unat irq < 16" using assms(2) by (auto simp: word_less_nat_alt)
  have "cached_irq_mask s AND ?b = 0"
    using assms(3) by (intro bit_word_eqI) (auto simp: bit_and_iff bit_irq [OF irq(1)])
  then have "mask_and_ack_8259A_irq_nr inb irq s = Some (True, ?s')"
    using irq by (simp add: mask_and_ack_8259A_irq_nr_def irq_bit_def)
  moreover have set: "bit (cached_irq_mask ?s') (unat irq)" by (simp add: bit_or_iff bit_irq irq)
  moreover have line: "unat irq \<notin> masked_lines (device d0 ?s')"
    using in_step_lines [OF assms(1)] assms(3) by (simp add: device_def)
  moreover have "\<not> in_step (device d0 ?s') ?s'"
    using set line irq(2) by (auto simp: in_step_def)
  ultimately show ?thesis by auto
qed

theorem mask_and_ack_out_of_step_witness:
  "\<exists>s s'. mask_and_ack_8259A_irq_nr (\<lambda>_ _. 0) 9 s = Some (True, s') \<and> \<not> in_step (device idle_chips s') s'"
proof -
  obtain s where s: "enable_8259A_irq \<lparr>desc_irq = 9, desc_status = 0, desc_handler_8259A = True,
      desc_cpu_mask = 0, desc_vector = 0\<rparr> boot_pic = Some s"
    "in_step (device idle_chips s) s"
    "masked_lines (device idle_chips s) = masked_lines (device idle_chips boot_pic) - {9}"
    using i8259_lines [OF boot_in_step, of "\<lparr>desc_irq = 9, desc_status = 0, desc_handler_8259A = True,
      desc_cpu_mask = 0, desc_vector = 0\<rparr>"] by auto
  have "9 \<notin> masked_lines (device idle_chips s)" using s(3) by blast
  then have "\<not> bit (cached_irq_mask s) (unat (9 :: u32))"
    using in_step_lines [OF s(2)] by simp
  from mask_and_ack_out_of_step [OF s(2) _ this, of "\<lambda>_ _. 0"] show ?thesis by auto
qed

text \<open>The in-service bit of a line is the one \<open>i8259A_irq_real\<close> selects.\<close>

lemma irq_real_bit:
  fixes irq v :: u32
  assumes "irq < 16"
  shows "(if irq < 8 then v AND push_bit (unat irq) 1 else v AND signed_drop_bit 8 (push_bit (unat irq) 1)) \<noteq> 0 \<longleftrightarrow>
    bit v (unat irq mod 8)"
proof (cases "irq < 8")
  case True
  then have "unat irq mod 8 = unat irq" by (simp add: word_less_nat_alt)
  with True show ?thesis by (simp add: and_exp_eq_0_iff_not_bit)
next
  case False
  then have n: "8 \<le> unat irq" "unat irq mod 8 = unat irq - 8" and irq: "irq < 32" "unat irq < 16"
    using assms by (auto simp: word_less_nat_alt mod_if)
  have "signed_drop_bit 8 (push_bit (unat irq) 1 :: u32) = 2 ^ (unat irq - 8)"
    using n irq by (intro bit_word_eqI) (auto simp: bit_signed_drop_bit_iff bit_irq bit_exp_iff)
  with False n show ?thesis by (simp add: and_exp_eq_0_iff_not_bit)
qed

text \<open>
  The test for a spurious interrupt selects the in-service register of the right chip, reads
  it, and selects the request register again; an interrupt is reported as spurious exactly when its
  line was masked and its in-service bit is clear, and it is remembered once per line.
\<close>

theorem mask_and_ack_spurious:
  assumes "irq < 16" "bit (cached_irq_mask s) (unat irq)"
    and "phase_of (fst (device d0 s)) = Ready" "phase_of (snd (device d0 s)) = Ready"
  shows "\<exists>s' port isr. mask_and_ack_8259A_irq_nr inb irq s = Some (isr, s') \<and>
    port = (if irq < 8 then 0x20 else 0xA0) \<and>
    trace s' = trace s @ [Out 0x0B port, Out 0x0A port] \<and>
    isr = bit (inb (trace s @ [Out 0x0B port]) port) (unat irq mod 8) \<and>
    reads_isr ((if irq < 8 then fst else snd) (device d0 (outb 0x0B port s))) \<and>
    \<not> reads_isr ((if irq < 8 then fst else snd) (device d0 s')) \<and>
    spurious_irq_mask s' = (if isr then spurious_irq_mask s else spurious_irq_mask s OR push_bit (unat irq) 1)"
proof -
  let ?b = "push_bit (unat irq) 1 :: u32" and ?port = "if irq < 8 then 0x20 else 0xA0 :: u32"
  let ?v = "inb (trace s @ [Out 0x0B ?port]) ?port"
  have irq: "irq < 32" "unat irq < 16" using assms(1) by (auto simp: word_less_nat_alt)
  have b: "irq_bit irq = Some ?b" using irq by (simp add: irq_bit_def)
  have line: "cached_irq_mask s AND ?b \<noteq> 0"
    using assms(2) by (simp add: and_exp_eq_0_iff_not_bit)
  define v where "v = (if irq < 8 then ?v AND ?b else ?v AND signed_drop_bit 8 ?b)"
  have isr: "v \<noteq> 0 \<longleftrightarrow> bit ?v (unat irq mod 8)" unfolding v_def by (rule irq_real_bit [OF assms(1)])
  let ?t = "outb 0x0A ?port (outb 0x0B ?port s)"
  have real: "i8259A_irq_real inb irq s = Some (v, ?t)"
    by (simp add: i8259A_irq_real_def b v_def Let_def) (simp add: outb_def)
  let ?s' = "(if v = 0 \<and> spurious_irq_mask s AND ?b = 0
      then ?t\<lparr>spurious_irq_mask := spurious_irq_mask s OR ?b\<rparr> else ?t)\<lparr>cached_irq_mask := cached_irq_mask s OR ?b\<rparr>"
  have run: "mask_and_ack_8259A_irq_nr inb irq s = Some (v \<noteq> 0, ?s')"
    using line by (simp add: mask_and_ack_8259A_irq_nr_def b real)
  have "trace ?s' = trace s @ [Out 0x0B ?port, Out 0x0A ?port]" by (simp add: outb_def)
  moreover obtain m sl where d: "device d0 s = (m, sl)" by (cases "device d0 s")
  have "reads_isr ((if irq < 8 then fst else snd) (device d0 (outb 0x0B ?port s)))"
    "\<not> reads_isr ((if irq < 8 then fst else snd) (device d0 ?s'))"
    by (simp_all add: d)
  moreover have "spurious_irq_mask ?s' = (if v \<noteq> 0 then spurious_irq_mask s else spurious_irq_mask s OR ?b)"
  proof -
    have "spurious_irq_mask s OR ?b = spurious_irq_mask s" if "spurious_irq_mask s AND ?b \<noteq> 0"
      using that irq by (intro bit_word_eqI) (auto simp: and_exp_eq_0_iff_not_bit bit_or_iff bit_irq)
    then show ?thesis by auto
  qed
  ultimately show ?thesis using run isr by (intro exI [of _ ?s'] exI [of _ ?port] exI [of _ "v \<noteq> 0"]) simp
qed

theorem mask_and_ack_spurious_witness:
  "\<exists>s'. mask_and_ack_8259A_irq_nr (\<lambda>_ _. 0) 7 boot_pic = Some (False, s') \<and> trace s' = [Out 0x0B 0x20, Out 0x0A 0x20]"
proof -
  have "bit (cached_irq_mask boot_pic) (unat (7 :: u32))" by (simp add: boot_pic_def)
  moreover have "phase_of (fst (device idle_chips boot_pic)) = Ready" "phase_of (snd (device idle_chips boot_pic)) = Ready"
    using boot_in_step by (simp_all add: in_step_def)
  ultimately show ?thesis
    using mask_and_ack_spurious [of 7 boot_pic idle_chips "\<lambda>_ _. 0"] by (auto simp: boot_pic_def)
qed

end
