(* ===== verification/I8259_Session.thy ===== *)
theory I8259_Session
  imports I8259
begin

text \<open>
  Sequences of operations of irq_verified.c, from the initialisation of the interrupt controllers on.
  The specification is a pair of sets of lines: those the cached mask has and those the hardware
  masks. They part when an interrupt is acknowledged, which reaches the first and not the second, and
  while \<open>mask_8259A\<close> has all lines masked; an operation that writes a chip brings the lines of this chip
  together again.
\<close>

section \<open>Operations and their specification\<close>

datatype pic_op =
    Disable irq_desc
  | Enable irq_desc
  | Startup irq_desc
  | End_irq bool bool irq_desc
  | Acknowledge irq_desc
  | Bogus u32
  | Pending u32
  | Really u32
  | Suspend
  | Resume
  | Mask_all
  | Unmask_all
  | Make u32 "u32 \<Rightarrow> irq_desc"
  | Init u32 u32

definition pic_do :: "inb \<Rightarrow> pic_op \<Rightarrow> pic \<Rightarrow> pic option" where
  "pic_do inb op s = (case op of
     Disable desc \<Rightarrow> disable_8259A_irq desc s
   | Enable desc \<Rightarrow> enable_8259A_irq desc s
   | Startup desc \<Rightarrow> map_option snd (startup_8259A_irq desc s)
   | End_irq irq_disabled irq_inprogress desc \<Rightarrow> end_8259A_irq irq_disabled irq_inprogress desc s
   | Acknowledge desc \<Rightarrow> mask_and_ack_8259A_irq inb desc s
   | Bogus irq \<Rightarrow> map_option snd (bogus_8259A_irq inb irq s)
   | Pending irq \<Rightarrow> map_option (\<lambda>_. s) (i8259A_irq_pending inb irq s)
   | Really irq \<Rightarrow> map_option snd (i8259A_irq_real inb irq s)
   | Suspend \<Rightarrow> Some (snd (i8259A_suspend inb s))
   | Resume \<Rightarrow> Some (snd (i8259A_resume s))
   | Mask_all \<Rightarrow> Some (mask_8259A s)
   | Unmask_all \<Rightarrow> Some (unmask_8259A s)
   | Make irq descs \<Rightarrow> map_option fst (make_8259A_irq irq s descs)
   | Init flv auto_eoi \<Rightarrow> Some (init_8259A flv auto_eoi s))"

fun pic_run :: "inb \<Rightarrow> pic_op list \<Rightarrow> pic \<Rightarrow> pic option" where
  "pic_run inb [] s = Some s"
| "pic_run inb (op # ops) s = pic_do inb op s \<bind> pic_run inb ops"

definition line :: "irq_desc \<Rightarrow> nat" where
  "line desc = unat (desc_irq desc)"

text \<open>The lines of the chip that has line \<open>i\<close>; writing this chip, with \<open>C\<close> in the cached mask.\<close>

definition same_chip :: "nat \<Rightarrow> nat set" where
  "same_chip i = {n. n < 16 \<and> (n < 8 \<longleftrightarrow> i < 8)}"

definition write_chip :: "nat \<Rightarrow> nat set \<Rightarrow> nat set \<Rightarrow> nat set \<times> nat set" where
  "write_chip i C H = (C, (H - same_chip i) \<union> (C \<inter> same_chip i))"

fun spec_op :: "pic_op \<Rightarrow> nat set \<times> nat set \<Rightarrow> nat set \<times> nat set" where
  "spec_op (Disable desc) (C, H) = write_chip (line desc) (insert (line desc) C) H"
| "spec_op (Enable desc) (C, H) = write_chip (line desc) (C - {line desc}) H"
| "spec_op (Startup desc) (C, H) = write_chip (line desc) (C - {line desc}) H"
| "spec_op (End_irq irq_disabled irq_inprogress desc) (C, H) =
     (if bit (desc_status desc) 0 \<and> (irq_disabled \<or> irq_inprogress) then (C, H)
      else write_chip (line desc) (C - {line desc}) H)"
| "spec_op (Acknowledge desc) (C, H) = (insert (line desc) C, H)"
| "spec_op (Bogus irq) (C, H) = (insert (unat irq) C, H)"
| "spec_op Mask_all (C, H) = (C, {n. n < 16})"
| "spec_op Unmask_all (C, H) = (C, C)"
| "spec_op (Init flv auto_eoi) (C, H) = (C, C)"
| "spec_op _ (C, H) = (C, H)"

text \<open>Every line is one of the sixteen.\<close>

fun op_ok :: "pic_op \<Rightarrow> bool" where
  "op_ok (Disable desc) = (desc_irq desc < 16)"
| "op_ok (Enable desc) = (desc_irq desc < 16)"
| "op_ok (Startup desc) = (desc_irq desc < 16)"
| "op_ok (End_irq irq_disabled irq_inprogress desc) = (desc_irq desc < 16)"
| "op_ok (Acknowledge desc) = (desc_irq desc < 16)"
| "op_ok (Bogus irq) = (irq < 16)"
| "op_ok (Pending irq) = (irq < 16)"
| "op_ok (Really irq) = (irq < 16)"
| "op_ok (Make irq descs) = (irq < 16)"
| "op_ok _ = True"

text \<open>The operations that part the two sets: the acknowledgements and \<open>mask_8259A\<close>.\<close>

fun parts_masks :: "pic_op \<Rightarrow> bool" where
  "parts_masks (Acknowledge desc) = True"
| "parts_masks (Bogus irq) = True"
| "parts_masks Mask_all = True"
| "parts_masks _ = False"

section \<open>One operation\<close>

definition cached_lines :: "pic \<Rightarrow> nat set" where
  "cached_lines s = {n. n < 16 \<and> bit (cached_irq_mask s) n}"

text \<open>Both chips are ready, the cached mask has the lines \<open>C\<close> and the hardware masks \<open>H\<close>.\<close>

definition masks :: "chip \<times> chip \<Rightarrow> nat set \<times> nat set \<Rightarrow> pic \<Rightarrow> bool" where
  "masks d0 CH s \<longleftrightarrow>
     phase_of (fst (device d0 s)) = Ready \<and> phase_of (snd (device d0 s)) = Ready \<and>
     cached_lines s = fst CH \<and> masked_lines (device d0 s) = snd CH"

lemma masks_in_step: "masks d0 (C, C) s \<Longrightarrow> in_step (device d0 s) s"
  by (auto simp: masks_def in_step_def cached_lines_def)

lemma masks_start: "in_step (device d0 s) s \<Longrightarrow> masks d0 (cached_lines s, cached_lines s) s"
  using in_step_lines by (auto simp: masks_def in_step_def cached_lines_def)

text \<open>A new cached mask, written to the chip of one line.\<close>

definition put_mask :: "u32 \<Rightarrow> pic \<Rightarrow> pic" where
  "put_mask irq t = (if irq AND 8 \<noteq> 0 then outb (cached_A1 t) 0xA1 t else outb (cached_21 t) 0x21 t)"

lemma masks_put_mask:
  assumes s: "masks d0 (C, H) s" and irq: "irq < 16"
  shows "masks d0 (write_chip (unat irq) (cached_lines (s\<lparr>cached_irq_mask := m\<rparr>)) H)
    (put_mask irq (s\<lparr>cached_irq_mask := m\<rparr>))"
proof -
  obtain ma sl where d: "device d0 s = (ma, sl)" by (cases "device d0 s")
  let ?t = "s\<lparr>cached_irq_mask := m\<rparr>" and ?s = "put_mask irq (s\<lparr>cached_irq_mask := m\<rparr>)"
  have r: "phase_of ma = Ready" "phase_of sl = Ready" and H: "H = masked_lines (ma, sl)"
    using s by (simp_all add: masks_def d)
  have dev: "device d0 ?s = (if 8 \<le> unat irq then (ma, sl\<lparr>imr := ucast (cached_A1 ?t)\<rparr>)
      else (ma\<lparr>imr := ucast (cached_21 ?t)\<rparr>, sl))"
    using irq_and_8 [OF irq] r by (simp add: put_mask_def d word_le_nat_alt)
  have "n - 8 < 8" if "n < 16" for n :: nat using that by simp
  then have "masked_lines (device d0 ?s) = H - same_chip (unat irq) \<union> (cached_lines ?t \<inter> same_chip (unat irq))"
    unfolding dev H by (auto simp: masked_lines_def same_chip_def cached_lines_def)
  moreover have "cached_lines ?s = cached_lines ?t" by (simp add: put_mask_def cached_lines_def)
  ultimately show ?thesis by (simp add: masks_def write_chip_def dev r)
qed

lemma masks_lines:
  assumes "masks d0 (C, H) s" "desc_irq desc < 16"
  shows "\<exists>s'. disable_8259A_irq desc s = Some s' \<and> masks d0 (spec_op (Disable desc) (C, H)) s'"
    and "\<exists>s'. enable_8259A_irq desc s = Some s' \<and> masks d0 (spec_op (Enable desc) (C, H)) s'"
proof -
  have irq: "desc_irq desc < 32" using assms(2) by (simp add: word_less_nat_alt)
  let ?b = "push_bit (line desc) 1 :: u32"
  have b: "irq_bit (desc_irq desc) = Some ?b" using irq by (simp add: irq_bit_def line_def)
  have bits: "bit (2 ^ line desc :: u32) n \<longleftrightarrow> n = line desc" for n unfolding line_def by (rule bit_irq(2) [OF irq])
  have C: "C = cached_lines s" using assms(1) by (simp add: masks_def)
  have l: "line desc < 16" using assms(2) by (simp add: line_def word_less_nat_alt)
  have "cached_lines (s\<lparr>cached_irq_mask := cached_irq_mask s OR ?b\<rparr>) = insert (line desc) C"
    "cached_lines (s\<lparr>cached_irq_mask := cached_irq_mask s AND NOT ?b\<rparr>) = C - {line desc}"
    using l by (auto simp: C cached_lines_def bit_or_iff bit_and_iff bit_not_iff bits)
  then show "\<exists>s'. disable_8259A_irq desc s = Some s' \<and> masks d0 (spec_op (Disable desc) (C, H)) s'"
    "\<exists>s'. enable_8259A_irq desc s = Some s' \<and> masks d0 (spec_op (Enable desc) (C, H)) s'"
    using masks_put_mask [OF assms, of "cached_irq_mask s OR ?b"] masks_put_mask [OF assms, of "cached_irq_mask s AND NOT ?b"]
    by (simp_all add: disable_8259A_irq_def disable_8259A_irq_nr_def enable_8259A_irq_def b put_mask_def line_def Let_def)
qed

text \<open>A write that selects a register to read, or goes to another port, masks nothing.\<close>

lemma write_select [simp]:
  "imr (write_command v c) = (if bit v 4 then 0 else imr c)"
  "\<not> bit v 4 \<Longrightarrow> phase_of (write_command v c) = phase_of c"
  by simp_all

lemma cached_lines_simps [simp]:
  "cached_lines (outb v port s) = cached_lines s" "cached_lines (s\<lparr>irq_trigger := t\<rparr>) = cached_lines s"
  "cached_lines (s\<lparr>spurious_irq_mask := m\<rparr>) = cached_lines s"
  by (simp_all add: cached_lines_def)

lemma masks_update [simp]:
  "masks d0 CH (s\<lparr>irq_trigger := t\<rparr>) = masks d0 CH s" "masks d0 CH (s\<lparr>spurious_irq_mask := m\<rparr>) = masks d0 CH s"
  by (simp_all add: masks_def)

lemma masks_out:
  assumes "masks d0 CH s" "(port = 0x20 \<or> port = 0xA0) \<and> \<not> bit v 4 \<or> port = 0x4d0 \<or> port = 0x4d1"
  shows "masks d0 CH (outb v port s)"
proof -
  obtain m sl where d: "device d0 s = (m, sl)" by (cases "device d0 s")
  have "\<not> bit (ucast v :: u8) 4" if "\<not> bit v 4" using that by (simp add: bit_unsigned_iff)
  then show ?thesis using assms by (auto simp: masks_def d masked_lines_def)
qed

lemma masks_real:
  assumes "masks d0 CH s" "irq < 16"
  shows "\<exists>v s'. i8259A_irq_real inb irq s = Some (v, s') \<and> masks d0 CH s'"
proof -
  have "irq < 32" using assms(2) by (simp add: word_less_nat_alt)
  then show ?thesis
    by (auto simp: i8259A_irq_real_def irq_bit_def Let_def intro!: masks_out assms(1))
qed

text \<open>Acknowledging a line adds it to the cached mask; a test for a spurious interrupt masks nothing.\<close>

lemma masks_acknowledge:
  assumes s: "masks d0 (C, H) s" and irq: "irq < 16"
  shows "\<exists>r s'. mask_and_ack_8259A_irq_nr inb irq s = Some (r, s') \<and> masks d0 (insert (unat irq) C, H) s'"
proof -
  let ?b = "push_bit (unat irq) 1 :: u32"
  have irq32: "irq < 32" and l: "unat irq < 16" using irq by (simp_all add: word_less_nat_alt)
  have b: "irq_bit irq = Some ?b" using irq32 by (simp add: irq_bit_def)
  have set: "masks d0 (insert (unat irq) C, H) (t\<lparr>cached_irq_mask := cached_irq_mask t OR 2 ^ unat irq\<rparr>)"
    if "masks d0 (C, H) t" for t
    using that l bit_irq(2) [OF irq32] by (auto simp: masks_def cached_lines_def bit_or_iff)
  obtain v t where t: "i8259A_irq_real inb irq s = Some (v, t)" "masks d0 (C, H) t"
    using masks_real [OF s irq] by blast
  then show ?thesis
    using s set [of "t\<lparr>spurious_irq_mask := m\<rparr>" for m] by (auto simp: mask_and_ack_8259A_irq_nr_def b intro!: set)
qed

lemma masks_all:
  assumes "masks d0 (C, H) s"
  shows "masks d0 (C, {n. n < 16}) (mask_8259A s)" "masks d0 (C, C) (unmask_8259A s)"
proof -
  obtain m sl where d: "device d0 s = (m, sl)" by (cases "device d0 s")
  have r: "phase_of m = Ready" "phase_of sl = Ready" and C: "C = cached_lines s"
    using assms by (simp_all add: masks_def d)
  have ff: "bit (0xff :: u8) n" if "n < 8" for n
  proof -
    have "(0xff :: u8) = mask 8" by (simp add: mask_eq_exp_minus_1)
    then show ?thesis using that by (simp only: bit_mask_iff) simp
  qed
  have low: "n - 8 < 8" if "n < 16" for n :: nat using that by simp
  have "masked_lines (device d0 (mask_8259A s)) = {n. n < 16}"
    using ff low by (auto simp: mask_8259A_def d r masked_lines_def simp del: bit_numeral_word_iff)
  then show "masks d0 (C, {n. n < 16}) (mask_8259A s)" by (simp add: masks_def C mask_8259A_def d r)
  have "masked_lines (device d0 (unmask_8259A s)) = cached_lines s"
    using low by (auto simp: unmask_8259A_def Let_def d r masked_lines_def cached_lines_def)
  then show "masks d0 (C, C) (unmask_8259A s)" by (simp add: masks_def C unmask_8259A_def Let_def d r)
qed

lemma masks_init:
  "masks d0 (C, H) s \<Longrightarrow> masks d0 (C, C) (init_8259A flv auto_eoi s)"
  using masks_start [OF init_8259A_in_step, of d0 flv auto_eoi s] by (simp add: masks_def cached_lines_def)

lemma status_bit: "st AND of_bool_w b = 0 \<longleftrightarrow> \<not> (bit st 0 \<and> b)" for st :: u32
  by (cases b) (simp_all add: of_bool_w_def)

lemma pic_do_refines:
  assumes s: "masks d0 (C, H) s" and ok: "op_ok op"
  shows "\<exists>s'. pic_do inb op s = Some s' \<and> masks d0 (spec_op op (C, H)) s'"
proof (cases op)
  case (Disable desc)
  then show ?thesis using masks_lines(1) [OF s] ok by (simp add: pic_do_def)
next
  case (Enable desc)
  then show ?thesis using masks_lines(2) [OF s] ok by (simp add: pic_do_def)
next
  case (Startup desc)
  then show ?thesis using masks_lines(2) [OF s, of desc] ok by (auto simp: pic_do_def startup_8259A_irq_def)
next
  case (End_irq a b desc)
  then show ?thesis
    using masks_lines(2) [OF s, of desc] ok s by (auto simp: pic_do_def end_8259A_irq_def status_bit)
next
  case (Acknowledge desc)
  then show ?thesis
    using masks_acknowledge [OF s, of "desc_irq desc" inb] ok
    by (auto simp: pic_do_def mask_and_ack_8259A_irq_def line_def)
next
  case (Bogus irq)
  then show ?thesis
    using masks_acknowledge [OF s, of irq inb] ok by (auto simp: pic_do_def bogus_8259A_irq_def)
next
  case (Pending irq)
  then have "irq < 32" using ok by (simp add: word_less_nat_alt)
  then show ?thesis using Pending s by (simp add: pic_do_def i8259A_irq_pending_def irq_bit_def)
next
  case (Really irq)
  then show ?thesis using masks_real [OF s, of irq inb] ok by (auto simp: pic_do_def)
next
  case Suspend
  then show ?thesis using s by (simp add: pic_do_def i8259A_suspend_def save_ELCR_def)
next
  case Resume
  then show ?thesis using s by (simp add: pic_do_def i8259A_resume_def restore_ELCR_def masks_out)
next
  case Mask_all
  then show ?thesis using masks_all(1) [OF s] by (simp add: pic_do_def)
next
  case Unmask_all
  then show ?thesis using masks_all(2) [OF s] by (simp add: pic_do_def)
next
  case (Make irq descs)
  then have "irq < 32" using ok by (simp add: word_less_nat_alt)
  then show ?thesis
    using Make s by (simp add: pic_do_def make_8259A_irq_def irq_bit_def masks_def cached_lines_def device_def)
next
  case (Init flv auto_eoi)
  then show ?thesis using masks_init [OF s] by (simp add: pic_do_def)
qed

lemma pic_run_refines:
  "masks d0 CH s \<Longrightarrow> \<forall>op \<in> set ops. op_ok op \<Longrightarrow>
   \<exists>s'. pic_run inb ops s = Some s' \<and> masks d0 (fold spec_op ops CH) s'"
proof (induction ops arbitrary: CH s)
  case (Cons op ops)
  obtain C H where CH: "CH = (C, H)" by (cases CH)
  obtain s' where "pic_do inb op s = Some s'" "masks d0 (spec_op op CH) s'"
    using pic_do_refines [of d0 C H s op inb] Cons.prems CH by auto
  then show ?case using Cons by simp
qed simp

text \<open>Without such an operation the two sets of the specification stay the same.\<close>

lemma spec_op_in_step: "\<not> parts_masks op \<Longrightarrow> C \<subseteq> {n. n < 16} \<Longrightarrow> op_ok op \<Longrightarrow>
    \<exists>C'. spec_op op (C, C) = (C', C') \<and> C' \<subseteq> {n. n < 16}"
  by (cases op) (auto simp: write_chip_def same_chip_def line_def word_less_nat_alt)

lemma spec_run_in_step:
  "list_all (\<lambda>op. \<not> parts_masks op \<and> op_ok op) ops \<Longrightarrow> C \<subseteq> {n. n < 16} \<Longrightarrow>
   \<exists>C'. fold spec_op ops (C, C) = (C', C')"
proof (induction ops arbitrary: C)
  case (Cons op ops)
  then obtain C' where "spec_op op (C, C) = (C', C')" "C' \<subseteq> {n. n < 16}"
    using spec_op_in_step [of op C] by auto
  then show ?case using Cons by simp
qed simp

section \<open>A session\<close>

text \<open>
  C5. From the initialisation on, whatever state the chips were in, no sequence of operations on lines
  below 16 fails, and it refines its specification on two sets of lines, those of the cached mask and
  those the hardware masks. Disabling and enabling a line, starting it up and ending its interrupt
  change the first set by this line and make the lines of its chip agree; acknowledging an interrupt
  changes the first set only, so that the line stays open in the hardware until its chip is written
  for another reason; \<open>mask_8259A\<close> masks all lines in the hardware and none in the cached mask,
  \<open>unmask_8259A\<close> and another initialisation make all lines agree; asking for pending, real or spurious interrupts,
  handing a line to the controller and saving and restoring the trigger modes change no line the
  hardware masks. In a sequence without an acknowledgement and without \<open>mask_8259A\<close> the two sets are
  always the same.
\<close>

theorem i8259_session_refines:
  assumes "\<forall>op \<in> set ops. op_ok op"
  shows "\<exists>s'. pic_run inb ops (init_8259A flv auto_eoi s) = Some s' \<and>
    (cached_lines s', masked_lines (device d0 s')) = fold spec_op ops (cached_lines s, cached_lines s) \<and>
    (list_all (\<lambda>op. \<not> parts_masks op) ops \<longrightarrow> in_step (device d0 s') s')"
proof -
  let ?s = "init_8259A flv auto_eoi s" and ?C = "cached_lines s"
  have C: "cached_lines ?s = ?C" by (simp add: cached_lines_def)
  have "masks d0 (?C, ?C) ?s" using masks_start [OF init_8259A_in_step, of d0 flv auto_eoi s] C by simp
  from pic_run_refines [OF this assms] obtain s'
    where s': "pic_run inb ops ?s = Some s'" "masks d0 (fold spec_op ops (?C, ?C)) s'" by blast
  have "in_step (device d0 s') s'" if "list_all (\<lambda>op. \<not> parts_masks op) ops"
  proof -
    have "list_all (\<lambda>op. \<not> parts_masks op \<and> op_ok op) ops" using that assms by (simp add: list_all_iff)
    then obtain C' where "fold spec_op ops (?C, ?C) = (C', C')"
      using spec_run_in_step [of ops ?C] by (auto simp: cached_lines_def)
    then show ?thesis using s'(2) masks_in_step by simp
  qed
  with s' show ?thesis by (auto simp: masks_def)
qed

definition a_desc :: irq_desc where
  "a_desc = \<lparr>desc_irq = 9, desc_status = 0, desc_handler_8259A = True, desc_cpu_mask = 0, desc_vector = 0\<rparr>"

text \<open>
  Line 9 is opened and acknowledged: only the cached mask has it. Opening line 12 masks it again;
  everything is masked and then opened again.
\<close>

theorem i8259_session_refines_witness:
  "\<exists>s'. pic_run (\<lambda>_ _. 0) [Enable a_desc, Really 3, Acknowledge a_desc, Enable (a_desc\<lparr>desc_irq := 12\<rparr>), Mask_all, Unmask_all]
      (init_8259A 0x20 0 boot_pic) = Some s' \<and>
    masked_lines (device idle_chips s') = {n. n < 16} - {12}"
proof -
  have "cached_lines boot_pic = {n. n < 16}"
    using bit_ffff by (auto simp: boot_pic_def cached_lines_def simp del: bit_numeral_word_iff)
  then show ?thesis
    using i8259_session_refines [where s = boot_pic and ?d0.0 = idle_chips and flv = "0x20" and auto_eoi = 0
        and inb = "\<lambda>_ _. 0" and ops = "[Enable a_desc, Really 3, Acknowledge a_desc, Enable (a_desc\<lparr>desc_irq := 12\<rparr>), Mask_all, Unmask_all]"]
    by (auto simp: a_desc_def line_def write_chip_def same_chip_def)
qed

end
