(* ===== verification/Percpu.thy ===== *)
theory Percpu
  imports C_Loops
begin

text \<open>
  The per-CPU areas of percpu_verified.c. The linker's symbols, the allocator and the moment at which
  RCU runs a callback are not part of the sources: the first two are parameters, the calls that leave
  the file are recorded in a trace, and the third is a step of its own. A pointer or an \<open>unsigned long\<close>
  is a word of 32 bits.
\<close>

section \<open>Data\<close>

definition NR_CPUS :: nat where "NR_CPUS = 1"

text \<open>The symbols \<open>__per_cpu_start\<close> and \<open>__per_cpu_data_end\<close>.\<close>

record percpu_layout =
  per_cpu_start :: u32
  per_cpu_data_end :: u32

text \<open>The calls out of the file: allocations, what is cleared, what is freed, and queued callbacks.\<close>

datatype percpu_call =
    Alloc_pages u32 u32  \<comment> \<open>order, result\<close>
  | Clear u32 u32        \<comment> \<open>address, bytes\<close>
  | Free_pages u32 u32   \<comment> \<open>address, order\<close>
  | Call_rcu
  | Register_cpu_notifier

text \<open>\<open>__per_cpu_offset\<close>, the field \<open>cpu\<close> of the one \<open>struct free_info f\<close>, and the calls made.\<close>

record percpu =
  per_cpu_offset :: "u32 list"
  free_cpu :: u32
  percpu_calls :: "percpu_call list"

definition percpu_boot :: percpu where
  "percpu_boot = \<lparr>per_cpu_offset = replicate NR_CPUS 0, free_cpu = 0, percpu_calls = []\<rparr>"

section \<open>Operations\<close>

text \<open>\<open>INVALID_PERCPU_AREA\<close>; the constant loses its upper half when it is made an \<open>unsigned long\<close>.\<close>

definition invalid_percpu_area :: "percpu_layout \<Rightarrow> u32" where
  "invalid_percpu_area L = ucast (0x8000000000000000 :: u64) - per_cpu_start L"

lemma unat_half: "unat (drop_bit 1 w) = unat w div 2" for w :: u32
  by (metis drop_bit_eq_div power_one_right unsigned_drop_bit_eq unsigned_take_bit_eq take_bit_word_eq_self order_refl take_bit_drop_bit)

lemma half_less: "w \<noteq> 0 \<Longrightarrow> unat (drop_bit 1 w) < unat w" for w :: u32
  by (simp only: unat_half) (simp add: unat_gt_0)

function order_loop :: "u32 \<Rightarrow> u32 \<Rightarrow> u32" where
  "order_loop sz order = (if sz \<noteq> 0 then order_loop (drop_bit 1 sz) (order + 1) else order)"
  by auto
termination
  by (relation "measure (\<lambda>(sz, order). unat sz)")
    (rule wf_measure, simp only: in_measure prod.case, rule half_less)

declare order_loop.simps [simp del]

definition get_order_from_bytes :: "u32 \<Rightarrow> u32" where
  "get_order_from_bytes sz = order_loop (drop_bit 12 (sz - 1)) 0"

definition percpu_order :: "percpu_layout \<Rightarrow> u32" where
  "percpu_order L = get_order_from_bytes (per_cpu_data_end L - per_cpu_start L)"

definition percpu_init_areas :: "percpu_layout \<Rightarrow> percpu \<Rightarrow> percpu option" where
  "percpu_init_areas L s = do {
     offs \<leftarrow> for_loop (\<lambda>cpu offs. upd offs cpu (invalid_percpu_area L)) 1 NR_CPUS (per_cpu_offset s);
     Some (s\<lparr>per_cpu_offset := offs\<rparr>) }"

text \<open>\<open>alloc\<close> is the allocator, which sees the calls so far and the order.\<close>

definition init_percpu_area ::
    "(percpu_call list \<Rightarrow> u32 \<Rightarrow> u32) \<Rightarrow> percpu_layout \<Rightarrow> u32 \<Rightarrow> percpu \<Rightarrow> (int \<times> percpu) option" where
  "init_percpu_area alloc L cpu s = do {
     off \<leftarrow> at (per_cpu_offset s) (unat cpu);
     if off \<noteq> invalid_percpu_area L then Some (0, s)
     else
       let lim = percpu_order L;
           p = alloc (percpu_calls s) lim;
           s = s\<lparr>percpu_calls := percpu_calls s @ [Alloc_pages lim p]\<rparr>
       in if p = 0 then Some (- 1, s)
       else do {
         let s = s\<lparr>percpu_calls := percpu_calls s @ [Clear p lim]\<rparr>;
         offs \<leftarrow> upd (per_cpu_offset s) (unat cpu) (p - per_cpu_start L);
         Some (0, s\<lparr>per_cpu_offset := offs\<rparr>) } }"

text \<open>The callback; \<open>container_of\<close> returns its second argument, the file's \<open>f\<close>.\<close>

definition free_percpu_area_callback :: "percpu_layout \<Rightarrow> percpu \<Rightarrow> percpu option" where
  "free_percpu_area_callback L s = do {
     let cpu = unat (free_cpu s);
     off \<leftarrow> at (per_cpu_offset s) cpu;
     let p = per_cpu_start L + off;
     let s = s\<lparr>percpu_calls := percpu_calls s @ [Free_pages p (percpu_order L)]\<rparr>;
     offs \<leftarrow> upd (per_cpu_offset s) cpu (invalid_percpu_area L);
     Some (s\<lparr>per_cpu_offset := offs\<rparr>) }"

definition free_percpu_area :: "u32 \<Rightarrow> percpu \<Rightarrow> percpu" where
  "free_percpu_area cpu s = s\<lparr>free_cpu := cpu, percpu_calls := percpu_calls s @ [Call_rcu]\<rparr>"

definition notifier_from_errno :: "int \<Rightarrow> int" where
  "notifier_from_errno err = 0x8000 OR - err"

definition CPU_UP_PREPARE :: u32 where "CPU_UP_PREPARE = 0x0001 OR 0x0000"
definition CPU_UP_CANCELED :: u32 where "CPU_UP_CANCELED = 0x0002 OR 0x8000"
definition CPU_DEAD :: u32 where "CPU_DEAD = 0x0008 OR 0x8000"
definition CPU_REMOVE :: u32 where "CPU_REMOVE = 0x0009 OR 0x8000"

lemmas cpu_actions = CPU_UP_PREPARE_def CPU_UP_CANCELED_def CPU_DEAD_def CPU_REMOVE_def

definition cpu_percpu_callback ::
    "(percpu_call list \<Rightarrow> u32 \<Rightarrow> u32) \<Rightarrow> percpu_layout \<Rightarrow> bool \<Rightarrow> u32 \<Rightarrow> u32 \<Rightarrow> percpu \<Rightarrow>
     (int \<times> percpu) option" where
  "cpu_percpu_callback alloc L park_offline_cpus action cpu s = do {
     (rc, s) \<leftarrow>
       (if action = CPU_UP_PREPARE then init_percpu_area alloc L cpu s
        else if action = CPU_UP_CANCELED \<or> action = CPU_DEAD then
          Some (0, if \<not> park_offline_cpus then free_percpu_area cpu s else s)
        else if action = CPU_REMOVE then
          Some (0, if park_offline_cpus then free_percpu_area cpu s else s)
        else Some (0, s));
     Some (if rc = 0 then 0 else notifier_from_errno rc, s) }"

text \<open>Registers the notifier. What runs below does not wait for it.\<close>

definition percpu_presmp_init :: "percpu \<Rightarrow> int \<times> percpu" where
  "percpu_presmp_init s = (0, s\<lparr>percpu_calls := percpu_calls s @ [Register_cpu_notifier]\<rparr>)"

section \<open>The order of an area\<close>

lemma order_loop_bits:
  "\<exists>k. order_loop sz order = order + of_nat k \<and> unat sz < 2 ^ k \<and> (0 < k \<longrightarrow> 2 ^ (k - 1) \<le> unat sz)"
proof (induction sz order rule: order_loop.induct)
  case (1 sz order)
  show ?case
  proof (cases "sz = 0")
    case True
    then show ?thesis by (intro exI [of _ 0]) (simp add: order_loop.simps)
  next
    case False
    then obtain k where k: "order_loop (drop_bit 1 sz) (order + 1) = order + 1 + of_nat k"
      "unat sz div 2 < 2 ^ k" "0 < k \<longrightarrow> 2 ^ (k - 1) \<le> unat sz div 2"
      using 1 unfolding unat_half by blast
    have "2 ^ k \<le> unat sz"
      using k(3) False by (cases k) (auto simp: Suc_le_eq unat_gt_0)
    then show ?thesis
      using False k(1,2) by (intro exI [of _ "Suc k"]) (subst order_loop.simps, simp add: algebra_simps)
  qed
qed

lemma order_value:
  assumes "sz \<noteq> 0"
  shows "unat sz \<le> 4096 * 2 ^ unat (get_order_from_bytes sz) \<and>
    (0 < unat (get_order_from_bytes sz) \<longrightarrow> 4096 * 2 ^ (unat (get_order_from_bytes sz) - 1) < unat sz)"
proof -
  have pages: "unat (drop_bit 12 (sz - 1)) = (unat sz - 1) div 4096"
    using assms by (simp add: drop_bit_eq_div unat_div unat_minus_one)
  obtain k where k: "order_loop (drop_bit 12 (sz - 1)) 0 = of_nat k"
    "(unat sz - 1) div 4096 < 2 ^ k" "0 < k \<longrightarrow> 2 ^ (k - 1) \<le> (unat sz - 1) div 4096"
    using order_loop_bits [of "drop_bit 12 (sz - 1)" 0] unfolding pages by auto
  have "k \<le> 20"
  proof (rule ccontr)
    assume "\<not> k \<le> 20"
    then have "(2 :: nat) ^ 20 \<le> 2 ^ (k - 1)" by (intro power_increasing) simp_all
    with k(3) \<open>\<not> k \<le> 20\<close> have "2 ^ 20 \<le> (unat sz - 1) div 4096" by simp
    moreover have "unat sz < 2 ^ 32" using unsigned_less [of sz] by simp
    ultimately show False by simp
  qed
  then have order: "unat (get_order_from_bytes sz) = k"
    by (simp add: get_order_from_bytes_def k(1) unsigned_of_nat take_bit_nat_eq_self)
  have sz: "0 < unat sz" using assms by (simp add: unat_gt_0)
  have "unat sz - 1 < 4096 * 2 ^ k" using k(2) by (simp add: div_less_iff_less_mult mult.commute)
  moreover have "4096 * 2 ^ (k - 1) \<le> unat sz - 1" if "0 < k"
    using k(3) that by (simp add: less_eq_div_iff_mult_less_eq mult.commute)
  ultimately show ?thesis unfolding order using sz by fastforce
qed

text \<open>
  C40. \<open>get_order_from_bytes\<close> returns the least order whose block of pages of 4096 bytes holds the size;
  for size 0, which the subtraction wraps, it returns 20, all of the 32-bit address space.
\<close>

theorem get_order_from_bytes_least:
  "(sz \<noteq> 0 \<longrightarrow> unat sz \<le> 4096 * 2 ^ unat (get_order_from_bytes sz) \<and>
     (0 < unat (get_order_from_bytes sz) \<longrightarrow>
        4096 * 2 ^ (unat (get_order_from_bytes sz) - 1) < unat sz)) \<and>
   get_order_from_bytes 0 = 20"
proof (intro conjI impI)
  obtain k where k: "order_loop (0xfffff :: u32) 0 = of_nat k" "(0xfffff :: nat) < 2 ^ k" "0 < k \<longrightarrow> 2 ^ (k - 1) \<le> (0xfffff :: nat)"
    using order_loop_bits [of "0xfffff" 0] by auto
  have "(2 :: nat) ^ k \<le> 2 ^ 19" if "k < 20" using that by (intro power_increasing) simp_all
  moreover have "(2 :: nat) ^ 20 \<le> 2 ^ (k - 1)" if "20 < k" using that by (intro power_increasing) simp_all
  ultimately have "k = 20" using k(2,3) by (cases k "20 :: nat" rule: linorder_cases) auto
  with k(1) show "get_order_from_bytes 0 = 20" by (simp add: get_order_from_bytes_def mask_eq_exp_minus_1)
qed (use order_value in blast)+

theorem get_order_from_bytes_least_witness:
  "unat (get_order_from_bytes 4097) = 1"
proof -
  have "(k :: nat) = 1" if "(4097 :: nat) \<le> 4096 * 2 ^ k" "0 < k \<longrightarrow> 4096 * 2 ^ (k - 1) < (4097 :: nat)" for k
  proof -
    have "2 ^ (k - 1) < (2 :: nat)" "0 < k" using that by (cases k; simp)+
    then show ?thesis by (cases "k - 1") simp_all
  qed
  then show ?thesis using get_order_from_bytes_least [of 4097] by simp
qed

section \<open>The life of an area\<close>

text \<open>
  What runs: notifications, and the callbacks queued with \<open>call_rcu\<close>, each of which RCU runs once, at
  any later time. \<open>ran\<close> counts those that have run.
\<close>

record percpu_sys =
  areas :: percpu
  ran :: nat

definition queued :: "percpu \<Rightarrow> nat" where
  "queued s = length (filter (\<lambda>c. c = Call_rcu) (percpu_calls s))"

inductive percpu_reach ::
    "(percpu_call list \<Rightarrow> u32 \<Rightarrow> u32) \<Rightarrow> percpu_layout \<Rightarrow> bool \<Rightarrow> percpu_sys \<Rightarrow> bool"
  for alloc :: "percpu_call list \<Rightarrow> u32 \<Rightarrow> u32" and L :: percpu_layout and park :: bool where
  boot: "percpu_init_areas L percpu_boot = Some s \<Longrightarrow> percpu_reach alloc L park \<lparr>areas = s, ran = 0\<rparr>"
| presmp: "percpu_reach alloc L park s \<Longrightarrow> percpu_presmp_init (areas s) = (rc, t) \<Longrightarrow>
    percpu_reach alloc L park (s\<lparr>areas := t\<rparr>)"
| notify: "percpu_reach alloc L park s \<Longrightarrow>
    cpu_percpu_callback alloc L park action cpu (areas s) = Some (rc, t) \<Longrightarrow>
    percpu_reach alloc L park (s\<lparr>areas := t\<rparr>)"
| callback: "percpu_reach alloc L park s \<Longrightarrow> ran s < queued (areas s) \<Longrightarrow>
    free_percpu_area_callback L (areas s) = Some t \<Longrightarrow>
    percpu_reach alloc L park (s\<lparr>areas := t, ran := Suc (ran s)\<rparr>)"

text \<open>The blocks that are live after some calls, and whether each call frees only a live one or NULL.\<close>

fun live_after :: "u32 set \<Rightarrow> percpu_call list \<Rightarrow> u32 set" where
  "live_after A [] = A"
| "live_after A (Alloc_pages k p # cs) = live_after (if p = 0 then A else insert p A) cs"
| "live_after A (Free_pages p k # cs) = live_after (A - {p}) cs"
| "live_after A (c # cs) = live_after A cs"

fun frees_ok :: "u32 set \<Rightarrow> percpu_call list \<Rightarrow> bool" where
  "frees_ok A [] = True"
| "frees_ok A (Alloc_pages k p # cs) = frees_ok (if p = 0 then A else insert p A) cs"
| "frees_ok A (Free_pages p k # cs) = ((p \<in> A \<or> p = 0) \<and> frees_ok (A - {p}) cs)"
| "frees_ok A (c # cs) = frees_ok A cs"

lemma calls_append:
  "live_after A (cs @ ds) = live_after (live_after A cs) ds"
  "frees_ok A (cs @ ds) \<longleftrightarrow> frees_ok A cs \<and> frees_ok (live_after A cs) ds"
  by (induction A cs rule: live_after.induct) auto

definition areas_ok :: "percpu_layout \<Rightarrow> percpu \<Rightarrow> bool" where
  "areas_ok L s \<longleftrightarrow>
     length (per_cpu_offset s) = NR_CPUS \<and> frees_ok {per_cpu_start L} (percpu_calls s) \<and>
     (\<forall>off \<in> set (per_cpu_offset s). off = invalid_percpu_area L \<or>
        per_cpu_start L + off \<in> live_after {per_cpu_start L} (percpu_calls s))"

lemma invalid_area_value: "invalid_percpu_area L = - per_cpu_start L"
  by (simp add: invalid_percpu_area_def)

lemma areas_ok_boot: "percpu_init_areas L percpu_boot = Some s \<Longrightarrow> areas_ok L s"
  by (auto simp: percpu_init_areas_def percpu_boot_def NR_CPUS_def areas_ok_def)

text \<open>There is one processor, so an operation that is defined works on its entry.\<close>

lemma one_cpu:
  assumes "length (per_cpu_offset s) = NR_CPUS"
  obtains off where "per_cpu_offset s = [off]"
  using assms by (auto simp: NR_CPUS_def length_Suc_conv)

lemma areas_ok_init:
  assumes "areas_ok L s" "init_percpu_area alloc L cpu s = Some (rc, t)"
  shows "areas_ok L t"
proof -
  obtain off where off: "per_cpu_offset s = [off]"
    using assms(1) one_cpu by (auto simp: areas_ok_def)
  with assms show ?thesis
    by (cases "unat cpu")
      (auto simp: areas_ok_def init_percpu_area_def at_def upd_def NR_CPUS_def calls_append Let_def
        split: if_splits)
qed

lemma areas_ok_callback:
  assumes "areas_ok L s" "free_percpu_area_callback L s = Some t"
  shows "areas_ok L t"
proof -
  obtain off where off: "per_cpu_offset s = [off]"
    using assms(1) one_cpu by (auto simp: areas_ok_def)
  with assms show ?thesis
    by (cases "unat (free_cpu s)")
      (auto simp: areas_ok_def free_percpu_area_callback_def at_def upd_def NR_CPUS_def calls_append
        Let_def invalid_area_value split: if_splits)
qed

lemma areas_ok_free: "areas_ok L s \<Longrightarrow> areas_ok L (free_percpu_area cpu s)"
  by (simp add: areas_ok_def free_percpu_area_def calls_append)

lemma areas_ok_presmp: "areas_ok L s \<Longrightarrow> percpu_presmp_init s = (rc, t) \<Longrightarrow> areas_ok L t"
  by (auto simp: areas_ok_def percpu_presmp_init_def calls_append)

lemma areas_ok_notify:
  assumes "areas_ok L s" "cpu_percpu_callback alloc L park action cpu s = Some (rc, t)"
  shows "areas_ok L t"
  using assms areas_ok_init areas_ok_free
  by (auto simp: cpu_percpu_callback_def bind_eq_Some_conv split: if_splits)

text \<open>
  C16. Whatever notifications arrive and whenever the queued callbacks run: no per-CPU area is freed
  twice (what is freed is the boot area or one that was allocated, and is live, or NULL), and a
  processor whose offset is not the invalid one has a live area.
\<close>

theorem percpu_areas_safe:
  assumes "percpu_reach alloc L park s"
  shows "frees_ok {per_cpu_start L} (percpu_calls (areas s)) \<and>
    (\<forall>off \<in> set (per_cpu_offset (areas s)). off \<noteq> invalid_percpu_area L \<longrightarrow>
       per_cpu_start L + off \<in> live_after {per_cpu_start L} (percpu_calls (areas s)))"
proof -
  from assms have "areas_ok L (areas s)"
    by induction (auto intro: areas_ok_boot areas_ok_presmp areas_ok_notify areas_ok_callback)
  then show ?thesis by (auto simp: areas_ok_def)
qed

text \<open>A machine whose allocator returns the block behind the linked areas.\<close>

definition percpu_example :: percpu_layout where
  "percpu_example = \<lparr>per_cpu_start = 0x1000, per_cpu_data_end = 0x3000\<rparr>"

lemma percpu_example_reach: "percpu_reach (\<lambda>cs k. 0x8000) percpu_example False \<lparr>areas = percpu_boot, ran = 0\<rparr>"
  by (rule percpu_reach.boot) (simp add: percpu_init_areas_def percpu_boot_def NR_CPUS_def)

theorem percpu_areas_safe_witness:
  "frees_ok {0x1000} (percpu_calls (free_percpu_area 0 percpu_boot))"
proof -
  have "cpu_percpu_callback (\<lambda>cs k. 0x8000) percpu_example False CPU_DEAD 0 percpu_boot =
      Some (0, free_percpu_area 0 percpu_boot)"
    by (simp add: cpu_percpu_callback_def cpu_actions)
  then have "percpu_reach (\<lambda>cs k. 0x8000) percpu_example False \<lparr>areas = free_percpu_area 0 percpu_boot, ran = 0\<rparr>"
    using percpu_reach.notify [OF percpu_example_reach, of CPU_DEAD 0 0] by simp
  from percpu_areas_safe [OF this] show ?thesis by (simp add: percpu_example_def)
qed

lemma prepare_area:
  assumes "per_cpu_offset s = [invalid_percpu_area L]"
    and "alloc (percpu_calls s) (percpu_order L) = p" "p \<noteq> 0"
  shows "cpu_percpu_callback alloc L park CPU_UP_PREPARE 0 s = Some (0,
    s\<lparr>per_cpu_offset := [p - per_cpu_start L],
      percpu_calls := percpu_calls s @ [Alloc_pages (percpu_order L) p, Clear p (percpu_order L)]\<rparr>)"
  using assms by (simp add: cpu_percpu_callback_def init_percpu_area_def cpu_actions at_def upd_def Let_def)

lemma prepare_kept:
  assumes "per_cpu_offset s = [off]" "off \<noteq> invalid_percpu_area L"
  shows "cpu_percpu_callback alloc L park CPU_UP_PREPARE 0 s = Some (0, s)"
  using assms by (simp add: cpu_percpu_callback_def init_percpu_area_def cpu_actions at_def)

text \<open>The notification that gives up an area: parked processors keep theirs until they are removed.\<close>

definition down_action :: "bool \<Rightarrow> u32" where
  "down_action park = (if park then CPU_REMOVE else CPU_DEAD)"

lemma down_queues:
  "cpu_percpu_callback alloc L park (down_action park) cpu s = Some (0, free_percpu_area cpu s)"
  by (simp add: cpu_percpu_callback_def cpu_actions down_action_def)

lemma callback_frees:
  assumes "per_cpu_offset s = [off]"
  shows "free_percpu_area_callback L (free_percpu_area 0 s) = Some (s\<lparr>free_cpu := 0,
    per_cpu_offset := [invalid_percpu_area L],
    percpu_calls := percpu_calls s @ [Call_rcu, Free_pages (per_cpu_start L + off) (percpu_order L)]\<rparr>)"
  using assms by (simp add: free_percpu_area_callback_def free_percpu_area_def at_def upd_def Let_def)

text \<open>
  A processor without an area that comes up and goes down again gets the block that was
  allocated, at the address its offset denotes, and the callback frees that block with the order it
  was allocated with and makes the offset invalid again. Of the block only as many bytes are cleared
  as its order, not its size.
\<close>

theorem percpu_area_life:
  assumes "per_cpu_offset s = [invalid_percpu_area L]"
    and "alloc (percpu_calls s) (percpu_order L) = p" "p \<noteq> 0"
  shows "do {
      (up, s1) \<leftarrow> cpu_percpu_callback alloc L park CPU_UP_PREPARE 0 s;
      (down, s2) \<leftarrow> cpu_percpu_callback alloc L park (down_action park) 0 s1;
      s3 \<leftarrow> free_percpu_area_callback L s2;
      Some (up, map (\<lambda>off. per_cpu_start L + off) (per_cpu_offset s1), down, s3) } =
    Some (0, [p], 0, s\<lparr>free_cpu := 0,
      percpu_calls := percpu_calls s @
        [Alloc_pages (percpu_order L) p, Clear p (percpu_order L), Call_rcu,
         Free_pages p (percpu_order L)]\<rparr>)"
proof -
  let ?s1 = "s\<lparr>per_cpu_offset := [p - per_cpu_start L],
    percpu_calls := percpu_calls s @ [Alloc_pages (percpu_order L) p, Clear p (percpu_order L)]\<rparr>"
  have up: "cpu_percpu_callback alloc L park CPU_UP_PREPARE 0 s = Some (0, ?s1)"
    using assms by (rule prepare_area)
  have "free_percpu_area_callback L (free_percpu_area 0 ?s1) = Some (s\<lparr>free_cpu := 0,
      percpu_calls := percpu_calls s @
        [Alloc_pages (percpu_order L) p, Clear p (percpu_order L), Call_rcu,
         Free_pages p (percpu_order L)]\<rparr>)"
    using callback_frees [of ?s1 "p - per_cpu_start L" L] assms(1) by (cases s) simp
  with up show ?thesis by (simp add: down_queues)
qed

theorem percpu_area_life_witness:
  "\<exists>r. do {
      (up, s1) \<leftarrow> cpu_percpu_callback (\<lambda>cs k. 0x8000) percpu_example True CPU_UP_PREPARE 0
        (percpu_boot\<lparr>per_cpu_offset := [invalid_percpu_area percpu_example]\<rparr>);
      (down, s2) \<leftarrow> cpu_percpu_callback (\<lambda>cs k. 0x8000) percpu_example True (down_action True) 0 s1;
      s3 \<leftarrow> free_percpu_area_callback percpu_example s2;
      Some (up, map (\<lambda>off. per_cpu_start percpu_example + off) (per_cpu_offset s1), down, s3) } =
    Some (0, [0x8000], 0, r)"
  by (rule exI, rule percpu_area_life) simp_all

text \<open>
  When a processor goes down and comes up again before the callback has run, the notification
  reports success without allocating anything, and the callback then frees the area and leaves the
  processor, which is up, with the invalid offset.
\<close>

theorem percpu_online_loses_area:
  assumes "per_cpu_offset s = [off]" "off \<noteq> invalid_percpu_area L"
  shows "do {
      (down, s1) \<leftarrow> cpu_percpu_callback alloc L park (down_action park) 0 s;
      (up, s2) \<leftarrow> cpu_percpu_callback alloc L park CPU_UP_PREPARE 0 s1;
      s3 \<leftarrow> free_percpu_area_callback L s2;
      Some (down, up, per_cpu_offset s3, percpu_calls s3) } =
    Some (0, 0, [invalid_percpu_area L],
      percpu_calls s @ [Call_rcu, Free_pages (per_cpu_start L + off) (percpu_order L)])"
proof -
  have "per_cpu_offset (free_percpu_area 0 s) = [off]" using assms(1) by (simp add: free_percpu_area_def)
  with assms show ?thesis
    by (simp add: down_queues prepare_kept [of "free_percpu_area 0 s" off] callback_frees)
qed

theorem percpu_online_loses_area_witness:
  "do {
      (down, s1) \<leftarrow> cpu_percpu_callback (\<lambda>cs k. 0x8000) percpu_example True (down_action True) 0 percpu_boot;
      (up, s2) \<leftarrow> cpu_percpu_callback (\<lambda>cs k. 0x8000) percpu_example True CPU_UP_PREPARE 0 s1;
      s3 \<leftarrow> free_percpu_area_callback percpu_example s2;
      Some (down, up, per_cpu_offset s3, percpu_calls s3) } =
    Some (0, 0, [0xfffff000], [Call_rcu, Free_pages 0x1000 (percpu_order percpu_example)])"
  using percpu_online_loses_area [of percpu_boot 0 percpu_example "\<lambda>cs k. 0x8000"]
  by (simp add: percpu_boot_def NR_CPUS_def invalid_area_value percpu_example_def)

end
