(* ===== verification/Thread.thy ===== *)
theory Thread
  imports C_Loops
begin

text \<open>
  Threads of sched_verified.c: creating one with its initial stack, and dumping a stack. An
  \<open>unsigned long\<close> has 32 bits. The wrappers of the interrupt flag at the end of the file work on that
  flag, which the empty functions they call leave alone.
\<close>

section \<open>Data\<close>

record thread =
  thread_name :: addr
  thread_stack :: u32
  thread_sp :: u32
  thread_ip :: u32
  thread_flags :: u32
  wakeup_time :: int

definition STACK_SIZE_PAGE_ORDER :: int where "STACK_SIZE_PAGE_ORDER = 4"
definition STACK_SIZE :: u32 where "STACK_SIZE = push_bit 12 1 * push_bit 4 1"
definition sizeof_ulong :: u32 where "sizeof_ulong = 4"

lemma STACK_SIZE_value: "STACK_SIZE = 65536"
  by (simp add: STACK_SIZE_def)

section \<open>Operations\<close>

definition alloc_pages :: "int \<Rightarrow> u32" where "alloc_pages order = 0"

definition stack_push :: "thread \<Rightarrow> u32 \<Rightarrow> mem \<Rightarrow> (thread \<times> mem) option" where
  "stack_push t val m = do {
     let t = t\<lparr>thread_sp := thread_sp t - sizeof_ulong\<rparr>;
     m \<leftarrow> store32 m (unat (thread_sp t)) val;
     Some (t, m) }"

text \<open>
  \<open>self\<close> is the address of the thread structure, \<open>starter\<close> that of \<open>thread_starter\<close>. The allocator is an
  argument here; \<open>arch_create_thread\<close> passes the one of the file.
\<close>

definition create_thread ::
    "(int \<Rightarrow> u32) \<Rightarrow> u32 \<Rightarrow> u32 \<Rightarrow> addr \<Rightarrow> u32 \<Rightarrow> u32 \<Rightarrow> thread \<Rightarrow> mem \<Rightarrow> (thread \<times> mem) option" where
  "create_thread alloc self starter name function data t m = do {
     let t = t\<lparr>thread_stack := alloc STACK_SIZE_PAGE_ORDER\<rparr>;
     let t = t\<lparr>thread_name := name\<rparr>;
     let t = t\<lparr>thread_sp := thread_stack t + STACK_SIZE\<rparr>;
     m \<leftarrow> store32 m (unat (thread_stack t)) self;
     let t = t\<lparr>thread_sp := thread_sp t - sizeof_ulong\<rparr>;
     (t, m) \<leftarrow> stack_push t function m;
     (t, m) \<leftarrow> stack_push t data m;
     Some (t\<lparr>thread_ip := starter\<rparr>, m) }"

definition arch_create_thread ::
    "u32 \<Rightarrow> u32 \<Rightarrow> addr \<Rightarrow> u32 \<Rightarrow> u32 \<Rightarrow> thread \<Rightarrow> mem \<Rightarrow> (thread \<times> mem) option" where
  "arch_create_thread self starter name function data t m =
     create_thread alloc_pages self starter name function data t m"

text \<open>What \<open>dump_stack\<close> prints.\<close>

datatype dump_line = Stack_for addr | Continues

function dump_loop :: "nat \<Rightarrow> u32 \<Rightarrow> u32 \<Rightarrow> u32" where
  "dump_loop count pointer bottom =
     (if count < 25 \<and> pointer < bottom then dump_loop (count + 1) (pointer + sizeof_ulong) bottom
      else pointer)"
  by auto
termination by (relation "measure (\<lambda>(count, pointer, bottom). 25 - count)") auto

declare dump_loop.simps [simp del]

definition dump_stack :: "thread \<Rightarrow> dump_line list" where
  "dump_stack t =
     (let bottom = thread_stack t + STACK_SIZE;
          pointer = dump_loop 0 (thread_sp t) bottom
      in Stack_for (thread_name t) # (if pointer < bottom then [Continues] else []))"

section \<open>The initial stack\<close>

lemma unat_plus: "unat a + n < 2 ^ 32 \<Longrightarrow> unat (a + of_nat n) = unat a + n" for a :: u32
  by (simp add: unat_word_ariths unsigned_of_nat take_bit_nat_eq_self)

lemma stack_top:
  assumes "unat s + 65536 < 2 ^ 32" "k < 65536"
  shows "unat (s + of_nat k :: u32) = unat s + k"
  using assms by (intro unat_plus) simp

text \<open>A store outside the mapped memory has no result.\<close>

lemma store32_mapped: "store32 m p w = (if mapped m p 4 then Some (blit m p (word_bytes w)) else None)"
proof (cases "mapped m p 4")
  case True
  then show ?thesis by (simp add: store32_blit)
next
  case False
  then show ?thesis
    by (auto simp: store32_def store_def mapped_def bind_eq_None_conv split: if_splits)
qed

text \<open>
  C28. What the code of \<open>arch_create_thread\<close> does with the result \<open>s\<close> of the allocator. With the
  \<open>alloc_pages\<close> of the file, which returns 0, it stores through a null pointer: it never has a defined
  result, whatever the memory. With an allocator that returns a stack below the end of the address
  space, it has one exactly when the first word of the stack and the two words below its last one
  are mapped and \<open>s\<close> is not 0: the new thread then starts at \<open>thread_starter\<close> with its data on top of its stack and
  the function above it; the bottom word of the stack holds the address of the thread; and no byte
  but those of these three words changes.
\<close>

theorem create_thread_stack:
  fixes s :: u32
  assumes "alloc STACK_SIZE_PAGE_ORDER = s" "unat s + 65536 < 2 ^ 32"
  shows "arch_create_thread self starter name function data t m = None \<and>
    (if s \<noteq> 0 \<and> unat s + 65532 \<le> length m
     then \<exists>m'. create_thread alloc self starter name function data t m =
        Some (t\<lparr>thread_stack := s, thread_name := name, thread_sp := s + 65524, thread_ip := starter\<rparr>, m') \<and>
      length m' = length m \<and>
      word_at m' (unat s) = self \<and> word_at m' (unat s + 65524) = data \<and> word_at m' (unat s + 65528) = function \<and>
      (\<forall>i < length m. i \<notin> {unat s..<unat s + 4} \<and> i \<notin> {unat s + 65524..<unat s + 65532} \<longrightarrow> m' ! i = m ! i)
     else create_thread alloc self starter name function data t m = None)"
proof (rule conjI)
  show "arch_create_thread self starter name function data t m = None"
    by (simp add: arch_create_thread_def create_thread_def alloc_pages_def)
  have addrs: "unat (s + 65524) = unat s + 65524" "unat (s + 65528) = unat s + 65528"
    using stack_top [OF assms(2), of 65524] stack_top [OF assms(2), of 65528] by simp_all
  let ?m1 = "blit m (unat s) (word_bytes self)"
  let ?m2 = "blit ?m1 (unat s + 65528) (word_bytes function)"
  let ?m3 = "blit ?m2 (unat s + 65524) (word_bytes data)"
  note code = create_thread_def stack_push_def STACK_SIZE_value sizeof_ulong_def addrs
    addrs [unfolded add.commute [of s]] Let_def store32_mapped add.commute [of _ s] assms(1)
  show "if s \<noteq> 0 \<and> unat s + 65532 \<le> length m
     then \<exists>m'. create_thread alloc self starter name function data t m =
        Some (t\<lparr>thread_stack := s, thread_name := name, thread_sp := s + 65524, thread_ip := starter\<rparr>, m') \<and>
      length m' = length m \<and>
      word_at m' (unat s) = self \<and> word_at m' (unat s + 65524) = data \<and> word_at m' (unat s + 65528) = function \<and>
      (\<forall>i < length m. i \<notin> {unat s..<unat s + 4} \<and> i \<notin> {unat s + 65524..<unat s + 65532} \<longrightarrow> m' ! i = m ! i)
     else create_thread alloc self starter name function data t m = None"
  proof (cases "s \<noteq> 0 \<and> unat s + 65532 \<le> length m")
    case True
    then have room: "unat s \<noteq> 0" "unat s + 65532 \<le> length m" by (simp_all add: unat_eq_0)
    have "create_thread alloc self starter name function data t m =
        Some (t\<lparr>thread_stack := s, thread_name := name, thread_sp := s + 65524, thread_ip := starter\<rparr>, ?m3)"
      using room by (simp add: code mapped_def)
    moreover have "word_at ?m3 (unat s) = self" "word_at ?m3 (unat s + 65524) = data"
      "word_at ?m3 (unat s + 65528) = function"
      using room by (simp_all add: word_at_other word_at_stored mapped_def disjoint_blocks_def)
    moreover have "?m3 ! i = m ! i"
      if "i < length m" "i \<notin> {unat s..<unat s + 4}" "i \<notin> {unat s + 65524..<unat s + 65532}" for i
      using room that by (auto simp: blit_nth)
    moreover have "length ?m3 = length m" using room by simp
    ultimately show ?thesis unfolding if_P [OF True] by (intro exI [of _ ?m3] conjI allI impI) simp_all
  next
    case False
    then show ?thesis by (auto simp: code mapped_def unat_eq_0)
  qed
qed

definition no_thread :: thread where
  "no_thread = \<lparr>thread_name = 0, thread_stack = 0, thread_sp = 0, thread_ip = 0, thread_flags = 0, wakeup_time = 0\<rparr>"

text \<open>A stack at address 4, and no result without it.\<close>

theorem create_thread_stack_witness:
  "(\<exists>m'. create_thread (\<lambda>k. 4) 7 8 16 9 10 no_thread (replicate 65540 0) =
      Some (no_thread\<lparr>thread_stack := 4, thread_name := 16, thread_sp := 65528, thread_ip := 8\<rparr>, m') \<and>
    word_at m' 65528 = 10 \<and> word_at m' 65532 = 9 \<and> word_at m' 4 = 7) \<and>
   create_thread (\<lambda>k. 4) 7 8 16 9 10 no_thread (replicate 100 0) = None \<and>
   arch_create_thread 7 8 16 9 10 no_thread (replicate 65540 0) = None"
  using create_thread_stack [of "\<lambda>k. 4" 4 7 8 16 9 10 no_thread "replicate 65540 0"]
    create_thread_stack [of "\<lambda>k. 4" 4 7 8 16 9 10 no_thread "replicate 100 0"]
  by auto

lemma dump_loop_steps:
  assumes "unat pointer + 4 * (25 - count) < 2 ^ 32" "count \<le> 25"
  shows "dump_loop count pointer bottom < bottom \<longleftrightarrow> unat pointer + 4 * (25 - count) < unat bottom"
  using assms
proof (induction count pointer bottom rule: dump_loop.induct)
  case (1 count pointer bottom)
  show ?case
  proof (cases "count < 25 \<and> pointer < bottom")
    case True
    then have next_pointer: "unat (pointer + 4) = unat pointer + 4"
      using 1(2) unat_plus [of pointer 4] by (cases "25 - count") auto
    have "dump_loop (count + 1) (pointer + sizeof_ulong) bottom < bottom \<longleftrightarrow>
        unat pointer + 4 * (25 - count) < unat bottom"
      using 1(1) [OF True] 1(2) True next_pointer Suc_diff_Suc [of count 24]
      by (simp add: sizeof_ulong_def Suc_diff_le algebra_simps)
    then show ?thesis using True by (subst dump_loop.simps) simp
  next
    case False
    then show ?thesis
      using 1(3) by (subst dump_loop.simps) (auto simp: word_less_nat_alt)
  qed
qed

text \<open>
  \<open>dump_stack\<close> says that the stack continues exactly when more than 25 words of it lie between
  the stack pointer and its bottom.
\<close>

theorem dump_stack_continues:
  assumes "unat (thread_sp t) + 100 < 2 ^ 32"
  shows "dump_stack t = Stack_for (thread_name t) #
    (if unat (thread_sp t) + 100 < unat (thread_stack t + STACK_SIZE) then [Continues] else [])"
  using dump_loop_steps [of "thread_sp t" 0 "thread_stack t + STACK_SIZE"] assms
  by (simp add: dump_stack_def Let_def)

theorem dump_stack_continues_witness:
  "dump_stack (no_thread\<lparr>thread_sp := 65436\<rparr>) = [Stack_for 0] \<and>
   dump_stack (no_thread\<lparr>thread_sp := 65432\<rparr>) = [Stack_for 0, Continues]"
  using dump_stack_continues [of "no_thread\<lparr>thread_sp := 65436\<rparr>"]
    dump_stack_continues [of "no_thread\<lparr>thread_sp := 65432\<rparr>"]
  by (simp add: no_thread_def STACK_SIZE_value)

section \<open>The interrupt flag\<close>

text \<open>
  The state is the processor's interrupt flag. The functions of the file have empty bodies, and
  \<open>local_irq_save\<close> and \<open>local_save_flags\<close> get the caller's variable by value, so the wrappers return what
  their uninitialised local \<open>flags\<close> holds.
\<close>

definition local_irq_save :: "u32 \<Rightarrow> bool \<Rightarrow> bool" where "local_irq_save flags irqs = irqs"
definition local_irq_restore :: "u32 \<Rightarrow> bool \<Rightarrow> bool" where "local_irq_restore flags irqs = irqs"
definition local_save_flags :: "u32 \<Rightarrow> bool \<Rightarrow> bool" where "local_save_flags flags irqs = irqs"
definition local_irq_disable :: "bool \<Rightarrow> bool" where "local_irq_disable irqs = irqs"
definition local_irq_enable :: "bool \<Rightarrow> bool" where "local_irq_enable irqs = irqs"

lemmas irq_stubs = local_irq_save_def local_irq_restore_def local_save_flags_def
  local_irq_disable_def local_irq_enable_def

definition irq_save_wrapper :: "u32 \<Rightarrow> bool \<Rightarrow> u32 \<times> bool" where
  "irq_save_wrapper flags irqs = (let irqs = local_irq_save flags irqs in (flags, irqs))"

definition irq_restore_wrapper :: "u32 \<Rightarrow> bool \<Rightarrow> bool" where
  "irq_restore_wrapper flags irqs = local_irq_restore flags irqs"

definition save_flags_wrapper :: "u32 \<Rightarrow> bool \<Rightarrow> u32 \<times> bool" where
  "save_flags_wrapper flags irqs = (let irqs = local_save_flags flags irqs in (flags, irqs))"

definition irq_disable_wrapper :: "bool \<Rightarrow> bool" where
  "irq_disable_wrapper irqs = local_irq_disable irqs"

definition irq_enable_wrapper :: "bool \<Rightarrow> bool" where
  "irq_enable_wrapper irqs = local_irq_enable irqs"

lemmas irq_wrappers = irq_save_wrapper_def irq_restore_wrapper_def save_flags_wrapper_def
  irq_disable_wrapper_def irq_enable_wrapper_def

text \<open>A call of one of the five wrappers; the words are what the local holds and what is restored.\<close>

datatype irq_op = Do_save u32 | Do_restore u32 | Do_save_flags u32 | Do_disable | Do_enable

fun irq_do :: "irq_op \<Rightarrow> bool \<Rightarrow> bool" where
  "irq_do (Do_save flags) irqs = snd (irq_save_wrapper flags irqs)"
| "irq_do (Do_restore flags) irqs = irq_restore_wrapper flags irqs"
| "irq_do (Do_save_flags flags) irqs = snd (save_flags_wrapper flags irqs)"
| "irq_do Do_disable irqs = irq_disable_wrapper irqs"
| "irq_do Do_enable irqs = irq_enable_wrapper irqs"

text \<open>
  No sequence of the wrappers masks or unmasks interrupts, and a critical section between saving
  and restoring the flags runs with the interrupts as they were.
\<close>

theorem irq_wrappers_mask_nothing: "fold irq_do ops irqs = irqs"
proof (induction ops arbitrary: irqs)
  case (Cons op ops)
  then show ?case by (cases op) (simp_all add: irq_wrappers irq_stubs)
qed simp

end
