(* ===== verification/Gdbstub.thy ===== *)
theory Gdbstub
  imports C_Loops
begin

text \<open>
  The x86 part of the GDB stub, in the two versions of the repository: gdbstub_verified.c and the
  original gdstub.c. The flag values come from headers (in the verified version they are locals that
  are read uninitialised): parameters.
\<close>

section \<open>Registers\<close>

record gdb_regs =
  rip :: u32
  eflags :: u32

definition gdb_arch_signal_num :: u16 where "gdb_arch_signal_num = 5"

text \<open>\<open>rf\<close>, \<open>tf\<close> and \<open>step\<close> are \<open>X86_EFLAGS_RF\<close>, \<open>X86_EFLAGS_TF\<close> and \<open>GDB_STEP\<close>.\<close>

definition gdb_arch_resume :: "u32 \<Rightarrow> u32 \<Rightarrow> u32 \<Rightarrow> u32 \<Rightarrow> u32 \<Rightarrow> gdb_regs \<Rightarrow> gdb_regs" where
  "gdb_arch_resume rf tf gdb_step addr type regs =
     (let regs = (if addr \<noteq> 1 then regs\<lparr>rip := addr\<rparr> else regs);
          regs = regs\<lparr>eflags := eflags regs AND NOT tf\<rparr>;
          regs = regs\<lparr>eflags := eflags regs OR rf\<rparr>
      in if type = gdb_step then regs\<lparr>eflags := eflags regs OR tf\<rparr> else regs)"

text \<open>The original; \<open>-1UL\<close> is the largest \<open>unsigned long\<close>.\<close>

definition gdb_arch_resume_original :: "u32 \<Rightarrow> u32 \<Rightarrow> u32 \<Rightarrow> u32 \<Rightarrow> u32 \<Rightarrow> gdb_regs \<Rightarrow> gdb_regs" where
  "gdb_arch_resume_original rf tf gdb_step addr type regs =
     (let regs = (if addr \<noteq> - 1 then regs\<lparr>rip := addr\<rparr> else regs);
          regs = regs\<lparr>eflags := eflags regs AND NOT tf\<rparr>;
          regs = regs\<lparr>eflags := eflags regs OR rf\<rparr>
      in if type = gdb_step then regs\<lparr>eflags := eflags regs OR tf\<rparr> else regs)"

section \<open>Copies\<close>

text \<open>
  \<open>__copy_from_user\<close> and \<open>__copy_to_user\<close> have the same body: a copy of \<open>int\<close>s from the last to the
  first, on an array that holds both ranges. They end without a value, which their callers return:
  the parameter \<open>r\<close>.
\<close>

type_synonym cells = "u32 list"

fun copy_from_user :: "cells \<Rightarrow> nat \<Rightarrow> nat \<Rightarrow> nat \<Rightarrow> cells option" where
  "copy_from_user m dest src 0 = Some m"
| "copy_from_user m dest src (Suc len) = do {
     v \<leftarrow> at m (src + len);
     m \<leftarrow> upd m (dest + len) v;
     copy_from_user m dest src len }"

fun copy_to_user :: "cells \<Rightarrow> nat \<Rightarrow> nat \<Rightarrow> nat \<Rightarrow> cells option" where
  "copy_to_user m dest src 0 = Some m"
| "copy_to_user m dest src (Suc len) = do {
     v \<leftarrow> at m (src + len);
     m \<leftarrow> upd m (dest + len) v;
     copy_to_user m dest src len }"

definition gdb_arch_copy_from_user :: "u32 \<Rightarrow> cells \<Rightarrow> nat \<Rightarrow> nat \<Rightarrow> nat \<Rightarrow> (u32 \<times> cells) option" where
  "gdb_arch_copy_from_user r m dest src len = map_option (Pair r) (copy_from_user m dest src len)"

definition gdb_arch_copy_to_user :: "u32 \<Rightarrow> cells \<Rightarrow> nat \<Rightarrow> nat \<Rightarrow> nat \<Rightarrow> (u32 \<times> cells) option" where
  "gdb_arch_copy_to_user r m dest src len = map_option (Pair r) (copy_to_user m dest src len)"

lemma copy_to_from_user: "copy_to_user m dest src len = copy_from_user m dest src len"
  by (induction m dest src len rule: copy_to_user.induct) (auto intro!: Option.bind_cong)

lemma copy_from_user_value:
  assumes "dest + len \<le> length m" "src + len \<le> length m" "src \<le> dest \<or> dest + len \<le> src"
  shows "copy_from_user m dest src len = Some
    (map (\<lambda>i. if dest \<le> i \<and> i < dest + len then m ! (src + (i - dest)) else m ! i) [0..<length m])"
  using assms
proof (induction len arbitrary: m)
  case 0
  show ?case by (simp, intro nth_equalityI) auto
next
  case (Suc len)
  let ?m = "m[dest + len := m ! (src + len)]"
  have "copy_from_user m dest src (Suc len) = copy_from_user ?m dest src len"
    using Suc.prems by (simp add: at_in upd_in)
  also have "\<dots> = Some (map (\<lambda>i. if dest \<le> i \<and> i < dest + len then ?m ! (src + (i - dest)) else ?m ! i) [0..<length m])"
    using Suc.prems by (subst Suc.IH) auto
  also have "map (\<lambda>i. if dest \<le> i \<and> i < dest + len then ?m ! (src + (i - dest)) else ?m ! i) [0..<length m] =
      map (\<lambda>i. if dest \<le> i \<and> i < dest + Suc len then m ! (src + (i - dest)) else m ! i) [0..<length m]"
    using Suc.prems by (intro map_cong) (auto simp: nth_list_update)
  finally show ?case .
qed

text \<open>
  Both copies of the stub move the cells of the source to the destination and change nothing
  else, for ranges that do not overlap and also for a source that starts below its destination: they
  copy from the last cell to the first.
\<close>

theorem gdb_copies_correct:
  assumes "dest + len \<le> length m" "src + len \<le> length m" "src \<le> dest \<or> dest + len \<le> src"
  shows "gdb_arch_copy_from_user r m dest src len = Some (r,
      map (\<lambda>i. if dest \<le> i \<and> i < dest + len then m ! (src + (i - dest)) else m ! i) [0..<length m]) \<and>
    gdb_arch_copy_to_user r m dest src len = gdb_arch_copy_from_user r m dest src len"
  using copy_from_user_value [OF assms]
  by (simp add: gdb_arch_copy_from_user_def gdb_arch_copy_to_user_def copy_to_from_user)

theorem gdb_copies_correct_witness:
  "gdb_arch_copy_from_user 0 [1, 2, 3, 4] 1 0 3 = Some (0, [1, 1, 2, 3])"
  using gdb_copies_correct [of 1 3 "[1, 2, 3, 4]" 0 0] by (simp add: upt_rec)

text \<open>
  The verified version of \<open>gdb_arch_resume\<close> and the original one agree exactly when the address
  is neither 1 nor -1, or is the one the processor is at: the verified one takes 1 for "continue where
  it stopped", the original -1.
\<close>

theorem gdb_arch_resume_versions:
  "gdb_arch_resume rf tf gdb_step addr type regs = gdb_arch_resume_original rf tf gdb_step addr type regs \<longleftrightarrow>
   (addr \<noteq> 1 \<and> addr \<noteq> - 1) \<or> rip regs = addr"
  by (cases regs) (auto simp: gdb_arch_resume_def gdb_arch_resume_original_def Let_def)

text \<open>
  After \<open>gdb_arch_resume\<close> the trap flag is set exactly when the debugger steps, whatever it was
  before, the resume flag is set, and every other flag is as it was.
\<close>

theorem gdb_arch_resume_flags:
  "bit (eflags (gdb_arch_resume rf tf gdb_step addr type regs)) n \<longleftrightarrow>
   bit rf n \<or> (if bit tf n then type = gdb_step else bit (eflags regs) n)"
  by (cases "n < 32") (auto simp: gdb_arch_resume_def Let_def bit_simps dest: bit_imp_le_length)

end
