(* ===== verification/Fpu.thy ===== *)
theory Fpu
  imports Xen_Prelude
begin

text \<open>
  The FPU context of a vcpu: i387_verified.c, and the extended control register of
  xstate_verified.c. The functions that touch the processor have empty bodies in the sources; each
  operation returns the calls it makes to them, in their order. \<open>ASSERT\<close> has no effect there; what it is
  asked to check, and whether it holds, is recorded with the calls.
\<close>

section \<open>The context of a vcpu\<close>

definition XSTATE_FP_SSE :: int where "XSTATE_FP_SSE = 1"
definition XSTATE_ALL :: int where "XSTATE_ALL = 1"
definition XSTATE_LAZY :: int where "XSTATE_LAZY = 0"
definition XSTATE_NONLAZY :: int where "XSTATE_NONLAZY = 1"

lemmas xstate_masks = XSTATE_FP_SSE_def XSTATE_ALL_def XSTATE_LAZY_def XSTATE_NONLAZY_def

record fpu_vcpu =
  xsave_area :: int
  xcr0_accum :: int
  vcpu_xcr0 :: int
  nonlazy_xstate_used :: int
  fully_eager_fpu :: int
  fpu_initialised :: int
  fpu_dirtied :: int
  fpu_ctxt :: int

text \<open>The conditions that are asserted.\<close>

datatype fpu_check =
    Xsave_area     \<comment> \<open>\<open>v->xsave_area\<close>\<close>
  | Xcr0_ok        \<comment> \<open>\<open>ok\<close>, the result of \<open>set_xcr0\<close>\<close>
  | Nonlazy_used   \<comment> \<open>\<open>v->nonlazy_xstate_used\<close>\<close>
  | Not_idle       \<comment> \<open>\<open>!is_idle_vcpu(v)\<close>\<close>
  | Not_eager      \<comment> \<open>\<open>!v->fully_eager_fpu\<close>\<close>
  | Mask_not_0     \<comment> \<open>\<open>mask\<close>\<close>

datatype fpu_call =
    Assert fpu_check bool
  | Xstate_free_save_area
  | Xfree int
  | Clts
  | Stts
  | Set_xcr0 int
  | Xrstor int
  | Xsave int
  | Fxrstor
  | Fxsave

definition vcpu_destroy_fpu :: "fpu_vcpu \<Rightarrow> fpu_call list" where
  "vcpu_destroy_fpu v = (if xsave_area v \<noteq> 0 then [Xstate_free_save_area] else [Xfree (fpu_ctxt v)])"

definition is_idle_vcpu :: int where "is_idle_vcpu = 1"

text \<open>\<open>set_xcr0\<close> of this file returns 1.\<close>

definition set_xcr0_result :: int where "set_xcr0_result = 1"

definition set_xcr0_call :: "int \<Rightarrow> fpu_call list" where
  "set_xcr0_call x = [Set_xcr0 x, Assert Xcr0_ok (set_xcr0_result \<noteq> 0)]"

definition fpu_xrstor :: "fpu_vcpu \<Rightarrow> int \<Rightarrow> fpu_call list" where
  "fpu_xrstor v msk =
     [Assert Xsave_area (xsave_area v \<noteq> 0)] @ set_xcr0_call XSTATE_FP_SSE @ [Xrstor msk] @
     set_xcr0_call XSTATE_FP_SSE"

definition xstate_all :: int where "xstate_all = 1"

definition vcpu_xsave_mask :: "fpu_vcpu \<Rightarrow> int \<times> fpu_call list" where
  "vcpu_xsave_mask v =
     (if fpu_dirtied v \<noteq> 0 then (if nonlazy_xstate_used v \<noteq> 0 then XSTATE_ALL else XSTATE_LAZY, [])
      else (if xstate_all \<noteq> 0 then XSTATE_ALL else XSTATE_NONLAZY,
        [Assert Nonlazy_used (nonlazy_xstate_used v \<noteq> 0)]))"

definition vcpu_restore_fpu_lazy :: "fpu_vcpu \<Rightarrow> fpu_vcpu \<times> fpu_call list" where
  "vcpu_restore_fpu_lazy v =
     (let cpu_has_xsave = (1 :: int); calls = [Assert Not_idle (is_idle_vcpu = 0), Clts] in
      if fpu_dirtied v \<noteq> 0 then (v, calls)
      else (v\<lparr>fpu_initialised := 1, fpu_dirtied := 1\<rparr>,
        calls @ [Assert Not_eager (fully_eager_fpu v = 0)] @
        (if cpu_has_xsave \<noteq> 0 then fpu_xrstor v XSTATE_LAZY else [Fxrstor])))"

definition fpu_xsave :: "fpu_vcpu \<Rightarrow> fpu_call list" where
  "fpu_xsave v =
     (let (msk, calls) = vcpu_xsave_mask v in
      calls @ [Assert Mask_not_0 (msk \<noteq> 0), Assert Xsave_area (xsave_area v \<noteq> 0)] @
      set_xcr0_call (xcr0_accum v OR XSTATE_FP_SSE) @ [Xsave msk] @
      set_xcr0_call (if vcpu_xcr0 v \<noteq> 0 then XSTATE_FP_SSE else XSTATE_FP_SSE))"

text \<open>\<open>has_xsave\<close> is the ghost variable \<open>cpu_has_xsave\<close>.\<close>

definition vcpu_save_fpu_if_used :: "bool \<Rightarrow> fpu_vcpu \<Rightarrow> bool \<times> fpu_vcpu \<times> fpu_call list" where
  "vcpu_save_fpu_if_used has_xsave v =
     (if fpu_dirtied v = 0 \<and> nonlazy_xstate_used v = 0 then (False, v, [])
      else (True, v\<lparr>fpu_dirtied := 0\<rparr>, [Assert Not_idle (is_idle_vcpu = 0), Clts] @ (if has_xsave then fpu_xsave v else [Fxsave])))"

definition vcpu_save_fpu :: "bool \<Rightarrow> fpu_vcpu \<Rightarrow> fpu_vcpu \<times> fpu_call list" where
  "vcpu_save_fpu has_xsave v =
     (let (saved, v, cs) = vcpu_save_fpu_if_used has_xsave v in (v, cs @ [Stts]))"

definition save_fpu_enable :: "bool \<Rightarrow> fpu_vcpu \<Rightarrow> fpu_vcpu \<times> fpu_call list" where
  "save_fpu_enable has_xsave v =
     (let (saved, v, cs) = vcpu_save_fpu_if_used has_xsave v in (v, if saved then cs else cs @ [Clts]))"

section \<open>Sequences of operations\<close>

datatype fpu_op = Restore_lazy | Save_fpu | Save_enable

fun fpu_step :: "bool \<Rightarrow> fpu_op \<Rightarrow> fpu_vcpu \<Rightarrow> fpu_vcpu \<times> fpu_call list" where
  "fpu_step x Restore_lazy v = vcpu_restore_fpu_lazy v"
| "fpu_step x Save_fpu v = vcpu_save_fpu x v"
| "fpu_step x Save_enable v = save_fpu_enable x v"

fun fpu_run :: "bool \<Rightarrow> fpu_op list \<Rightarrow> fpu_vcpu \<Rightarrow> fpu_vcpu \<times> fpu_call list" where
  "fpu_run x [] v = (v, [])"
| "fpu_run x (a # ops) v =
     (let (v, cs) = fpu_step x a v; (v, ds) = fpu_run x ops v in (v, cs @ ds))"

text \<open>
  The calls that are meant to move the context between memory and the registers: \<open>True\<close> for a restore,
  \<open>False\<close> for a save.
\<close>

fun transfers :: "fpu_call list \<Rightarrow> bool list" where
  "transfers [] = []"
| "transfers (c # cs) = (case c of
     Xrstor m \<Rightarrow> [True] | Fxrstor \<Rightarrow> [True] | Xsave m \<Rightarrow> [False] | Fxsave \<Rightarrow> [False] | _ \<Rightarrow> []) @ transfers cs"

fun alternates :: "bool \<Rightarrow> bool list \<Rightarrow> bool" where
  "alternates b [] = True"
| "alternates b (x # xs) = (x = b \<and> alternates (\<not> b) xs)"

lemma transfers_append [simp]: "transfers (cs @ ds) = transfers cs @ transfers ds"
  by (induction cs) auto

text \<open>
  The masks a call transfers with, and what is asserted, for a vcpu whose field \<open>nonlazy_xstate_used\<close>
  is \<open>nl\<close>.
\<close>

fun call_ok :: "int \<Rightarrow> fpu_call \<Rightarrow> bool" where
  "call_ok nl (Xrstor m) = (m = 0)"
| "call_ok nl (Xsave m) = (m = (if nl \<noteq> 0 then 1 else 0))"
| "call_ok nl (Assert Mask_not_0 b) = (b = (nl \<noteq> 0))"
| "call_ok nl (Assert Not_idle b) = (\<not> b)"
| "call_ok nl (Assert Nonlazy_used b) = b"
| "call_ok nl (Assert Xcr0_ok b) = b"
| "call_ok nl c = True"

lemmas fpu_ops = vcpu_restore_fpu_lazy_def vcpu_save_fpu_def save_fpu_enable_def fpu_xrstor_def
  vcpu_save_fpu_if_used_def fpu_xsave_def vcpu_xsave_mask_def set_xcr0_call_def

lemma fpu_step_calls:
  assumes "fpu_step x a v = (v', cs)"
  shows "nonlazy_xstate_used v' = nonlazy_xstate_used v \<and> list_all (call_ok (nonlazy_xstate_used v)) cs"
  using assms
  by (cases a) (auto simp: fpu_ops xstate_masks xstate_all_def is_idle_vcpu_def set_xcr0_result_def Let_def
      split: if_splits)

lemma fpu_step_transfers:
  assumes "nonlazy_xstate_used v = 0" "fpu_step x a v = (v', cs)"
  shows "transfers cs = [] \<and> fpu_dirtied v' = fpu_dirtied v \<or>
     transfers cs = [fpu_dirtied v = 0] \<and> (fpu_dirtied v' = 0) = (fpu_dirtied v \<noteq> 0)"
  using assms by (cases a) (auto simp: fpu_ops Let_def split: if_splits)

lemma fpu_run_calls:
  "fpu_run x ops v = (v', cs) \<Longrightarrow>
   nonlazy_xstate_used v' = nonlazy_xstate_used v \<and> list_all (call_ok (nonlazy_xstate_used v)) cs"
proof (induction ops arbitrary: v cs)
  case (Cons a ops)
  obtain w bs where step: "fpu_step x a v = (w, bs)" by (cases "fpu_step x a v")
  obtain ds where "fpu_run x ops w = (v', ds)" "cs = bs @ ds"
    using Cons.prems step by (auto split: prod.splits)
  then show ?case using Cons.IH fpu_step_calls [OF step] by fastforce
qed simp

lemma fpu_run_alternates:
  "nonlazy_xstate_used v = 0 \<Longrightarrow> fpu_run x ops v = (v', cs) \<Longrightarrow>
   alternates (fpu_dirtied v = 0) (transfers cs) \<and>
   (fpu_dirtied v' = 0 \<longleftrightarrow> (fpu_dirtied v = 0 \<longleftrightarrow> even (length (transfers cs))))"
proof (induction ops arbitrary: v cs)
  case (Cons a ops)
  obtain w bs where step: "fpu_step x a v = (w, bs)" by (cases "fpu_step x a v")
  obtain ds where rest: "fpu_run x ops w = (v', ds)" "cs = bs @ ds"
    using Cons.prems(2) step by (auto split: prod.splits)
  have w: "nonlazy_xstate_used w = 0" using fpu_step_calls [OF step] Cons.prems(1) by simp
  from Cons.IH [OF w rest(1)] fpu_step_transfers [OF Cons.prems(1) step] rest(2) show ?case by auto
qed simp

text \<open>
  C31. What the transfers of the FPU context do and do not do, in every sequence of lazy restores and
  saves of a vcpu. No extended restore loads anything: its mask is always 0, since \<open>XSTATE_LAZY\<close> is
  defined as 0. An extended save has the mask 1 when the vcpu has used non-lazy state, a mark no
  operation changes, and the mask 0, which stores nothing, when it has not; in this case the assertion
  before it, \<open>ASSERT(mask)\<close>, is violated every time. \<open>ASSERT(!is_idle_vcpu(v))\<close> is violated every time in
  either case, the function of the file always returning 1; the assertions on the result of \<open>set_xcr0\<close>
  and on the non-lazy mark hold. For a vcpu without non-lazy state the calls of restore and save
  nevertheless come in strict alternation, starting with a restore when the context is not marked
  dirty, and the mark at the end says which came last.
\<close>

theorem fpu_sequences:
  "case fpu_run x ops v of (v', calls) \<Rightarrow>
    nonlazy_xstate_used v' = nonlazy_xstate_used v \<and>
    (\<forall>m. Xrstor m \<in> set calls \<longrightarrow> m = 0) \<and>
    (\<forall>m. Xsave m \<in> set calls \<longrightarrow> m = (if nonlazy_xstate_used v \<noteq> 0 then 1 else 0)) \<and>
    (\<forall>b. Assert Mask_not_0 b \<in> set calls \<longrightarrow> b = (nonlazy_xstate_used v \<noteq> 0)) \<and>
    (\<forall>b. Assert Not_idle b \<in> set calls \<longrightarrow> \<not> b) \<and>
    (\<forall>b. Assert Nonlazy_used b \<in> set calls \<or> Assert Xcr0_ok b \<in> set calls \<longrightarrow> b) \<and>
    (nonlazy_xstate_used v = 0 \<longrightarrow>
      alternates (fpu_dirtied v = 0) (transfers calls) \<and>
      (fpu_dirtied v' = 0 \<longleftrightarrow> (fpu_dirtied v = 0 \<longleftrightarrow> even (length (transfers calls)))))"
proof -
  obtain v' calls where r: "fpu_run x ops v = (v', calls)" by (cases "fpu_run x ops v")
  have "call_ok (nonlazy_xstate_used v) c" if "c \<in> set calls" for c
    using fpu_run_calls [OF r] that by (simp add: list_all_iff)
  then show ?thesis
    using fpu_run_calls [OF r] fpu_run_alternates [OF _ r] unfolding r prod.case
    by (intro conjI allI impI) (fastforce dest: spec)+
qed

definition clean_vcpu :: fpu_vcpu where
  "clean_vcpu = \<lparr>xsave_area = 1, xcr0_accum = 0, vcpu_xcr0 = 0, nonlazy_xstate_used = 0,
     fully_eager_fpu = 0, fpu_initialised = 0, fpu_dirtied = 0, fpu_ctxt = 0\<rparr>"

text \<open>A lazy restore and a save: the mask of the save is 0 and its assertion fails.\<close>

theorem fpu_sequences_witness:
  "\<exists>v calls m b. fpu_run True [Restore_lazy, Save_fpu] clean_vcpu = (v, calls) \<and> Xsave m \<in> set calls \<and> m = 0 \<and>
    Assert Mask_not_0 b \<in> set calls \<and> \<not> b \<and> alternates True (transfers calls)"
proof -
  obtain v calls where r: "fpu_run True [Restore_lazy, Save_fpu] clean_vcpu = (v, calls)" by fastforce
  have nl: "nonlazy_xstate_used clean_vcpu = 0" "fpu_dirtied clean_vcpu = 0" by (simp_all add: clean_vcpu_def)
  have "\<exists>m b. Xsave m \<in> set calls \<and> Assert Mask_not_0 b \<in> set calls"
    using r by (auto simp: fpu_ops clean_vcpu_def Let_def)
  then show ?thesis
    using fpu_sequences [where x = True and ops = "[Restore_lazy, Save_fpu]" and v = clean_vcpu] r nl by (auto simp del: fpu_run.simps)
qed

section \<open>The extended control register\<close>

text \<open>The result of \<open>xsetbv\<close> is whether the low half is not 0; the instruction itself is commented out.\<close>

definition xsetbv :: "u32 \<Rightarrow> u32 \<Rightarrow> bool" where
  "xsetbv index xfeatures \<longleftrightarrow> xfeatures \<noteq> 0"

text \<open>The state is the global \<open>xcr0\<close>.\<close>

definition set_xcr0 :: "u32 \<Rightarrow> u32 \<Rightarrow> u32 \<Rightarrow> bool \<times> u32" where
  "set_xcr0 index xfeatures xcr0 = (if \<not> xsetbv index xfeatures then (False, xcr0) else (True, xfeatures))"

text \<open>
  \<open>lxcr0\<close> is the local variable \<open>xcr0\<close>, read uninitialised, that hides the global one. The result also
  says whether the state was restored. The calls after the first early return that have empty
  bodies, and the write of \<open>cr0\<close>, which only assigns a local, change nothing.
\<close>

definition xstate_set_init :: "u32 \<Rightarrow> u32 \<Rightarrow> u32 \<Rightarrow> u32 \<Rightarrow> u32 \<Rightarrow> bool \<times> u32" where
  "xstate_set_init index xfeature_mask lxcr0 msk xcr0 =
     (if NOT xfeature_mask AND msk \<noteq> 0 then (False, xcr0)
      else
        let (ok, xcr0) = (if NOT lxcr0 AND msk \<noteq> 0 then set_xcr0 index (lxcr0 OR msk) xcr0 else (True, xcr0)) in
        if \<not> ok then (False, xcr0)
        else
          let (ok, xcr0) = (if NOT lxcr0 AND msk \<noteq> 0 then set_xcr0 index lxcr0 xcr0 else (True, xcr0))
          in (True, xcr0))"

text \<open>
  When the local variable holds the register's value: initialising features the processor supports needs them enabled for a moment; afterwards the
  register has its old value again, except when that value was 0: setting the register back then
  fails, and the features stay enabled. A request for an unsupported feature changes nothing.
\<close>

theorem xstate_set_init_register:
  "xstate_set_init index xfeature_mask xcr0 msk xcr0 =
     (if NOT xfeature_mask AND msk \<noteq> 0 then (False, xcr0)
      else (True, if xcr0 = 0 then msk else xcr0))"
  by (auto simp: xstate_set_init_def set_xcr0_def xsetbv_def Let_def or_eq_0_iff)

end
