(* ===== verification/Apic.thy ===== *)
theory Apic
  imports C_String
begin

text \<open>
  The local APIC of apic_verified.c. The register numbers and bit masks are ghost variables of the
  sources: a record of parameters. What leaves the file is recorded as a list of events, and a read
  of a register may depend on the events so far.
\<close>

section \<open>Data\<close>

record apic_consts =
  APIC_LVR :: u32
  APIC_TMICT :: u32
  APIC_LVTERR :: u32
  APIC_LVTT :: u32
  APIC_LVT0 :: u32
  APIC_LVT1 :: u32
  APIC_LVTPC :: u32
  APIC_ICR :: u32
  APIC_LVT_MASKED :: u32
  ERROR_APIC_VECTOR :: u32
  APIC_DEST_ALLINC :: u32
  APIC_INT_LEVELTRIG :: u32
  APIC_DM_INIT :: u32
  MSR_APIC_BASE :: u32
  APIC_BASE_EXTD :: u32
  APIC_BASE_ENABLE :: u32

datatype apic_event =
    Apic_write u32 u32  \<comment> \<open>register, value\<close>
  | Ack_APIC_irq
  | Wait_icr_idle
  | Wrmsr u32 u32
  | Clear_cpu_cap u32
  | Outb_p u32 u32      \<comment> \<open>value, port\<close>

type_synonym apic_read = "apic_event list \<Rightarrow> u32 \<Rightarrow> u32"

record boot_cpu =
  bc_vendor :: u32
  bc_x86 :: u32

section \<open>Operations\<close>

text \<open>\<open>amd\<close> is the local \<open>X86_VENDOR_AMD\<close>, read uninitialised.\<close>

definition modern_apic ::
    "apic_read \<Rightarrow> (u32 \<Rightarrow> u32) \<Rightarrow> apic_consts \<Rightarrow> u32 \<Rightarrow> boot_cpu \<Rightarrow> apic_event list \<Rightarrow> bool" where
  "modern_apic rd get_version C amd cpu tr =
     (if bc_vendor cpu = amd \<and> bc_x86 cpu \<ge> 0xf then True
      else get_version (rd tr (APIC_LVR C)) \<ge> 0x14)"

definition ack_bad_irq :: "bool \<Rightarrow> apic_event list \<Rightarrow> apic_event list" where
  "ack_bad_irq has_apic tr = (if has_apic then tr @ [Ack_APIC_irq] else tr)"

definition get_maxlvt :: "apic_read \<Rightarrow> (u32 \<Rightarrow> int) \<Rightarrow> apic_consts \<Rightarrow> apic_event list \<Rightarrow> int" where
  "get_maxlvt rd maxlvt_of C tr = maxlvt_of (rd tr (APIC_LVR C))"

text \<open>Masking one entry of the local vector table.\<close>

definition mask_lvt :: "apic_read \<Rightarrow> apic_consts \<Rightarrow> u32 \<Rightarrow> apic_event list \<Rightarrow> apic_event list" where
  "mask_lvt rd C reg tr = (let v = rd tr reg in tr @ [Apic_write reg (v OR APIC_LVT_MASKED C)])"

definition clear_local_APIC ::
    "apic_read \<Rightarrow> (u32 \<Rightarrow> int) \<Rightarrow> apic_consts \<Rightarrow> apic_event list \<Rightarrow> apic_event list" where
  "clear_local_APIC rd maxlvt_of C tr =
     (let maxlvt = get_maxlvt rd maxlvt_of C tr;
          tr = tr @ [Apic_write (APIC_TMICT C) 0];
          tr = (if maxlvt \<ge> 3
            then tr @ [Apic_write (APIC_LVTERR C) (ERROR_APIC_VECTOR C OR APIC_LVT_MASKED C)] else tr);
          tr = mask_lvt rd C (APIC_LVTT C) tr;
          tr = mask_lvt rd C (APIC_LVT0 C) tr;
          tr = mask_lvt rd C (APIC_LVT1 C) tr
      in if maxlvt \<ge> 4 then mask_lvt rd C (APIC_LVTPC C) tr else tr)"

definition modern_apicc :: bool where "modern_apicc = True"

definition sync_Arb_IDs :: "apic_consts \<Rightarrow> apic_event list \<Rightarrow> apic_event list" where
  "sync_Arb_IDs C tr =
     (if modern_apicc then tr
      else tr @ [Wait_icr_idle,
        Apic_write (APIC_ICR C) (APIC_DEST_ALLINC C OR APIC_INT_LEVELTRIG C OR APIC_DM_INIT C)])"

text \<open>\<open>msr_content\<close> is passed to \<open>rdmsrl\<close> by value and stays uninitialised.\<close>

definition enable_x2apic :: "apic_consts \<Rightarrow> u32 \<Rightarrow> apic_event list \<Rightarrow> apic_event list" where
  "enable_x2apic C msr_content tr =
     (if msr_content AND APIC_BASE_EXTD C = 0
      then tr @ [Wrmsr (MSR_APIC_BASE C) (msr_content OR (APIC_BASE_ENABLE C OR APIC_BASE_EXTD C))]
      else tr)"

definition x2apic_ap_setup :: "bool \<Rightarrow> apic_consts \<Rightarrow> u32 \<Rightarrow> apic_event list \<Rightarrow> apic_event list" where
  "x2apic_ap_setup x2apic_enabled C msr_content tr =
     (if x2apic_enabled then enable_x2apic C msr_content tr else tr)"

text \<open>
  The literals stand at \<open>debug\<close> and \<open>verbose\<close>; the verbosity set is the second component of the
  result. The error is returned without its sign, and only when it is below 100000.
\<close>

datatype verbosity = Debug | Verbose | Unchanged

definition apic_set_verbosity :: "mem \<Rightarrow> addr \<Rightarrow> addr \<Rightarrow> int \<Rightarrow> addr \<Rightarrow> (int \<times> verbosity) option" where
  "apic_set_verbosity m debug verbose einval str = do {
     r \<leftarrow> strcmp m debug str;
     if r = 0 then Some (0, Debug)
     else do {
       r \<leftarrow> strcmp m verbose str;
       if r = 0 then Some (0, Verbose)
       else if einval < 100000 then Some (einval, Unchanged)
       else Some (0, Unchanged) } }"

text \<open>The result is the return value, the new \<open>enable_local_apic\<close> and the events.\<close>

definition lapic_disable :: "u32 \<Rightarrow> apic_event list \<Rightarrow> int \<times> int \<times> apic_event list" where
  "lapic_disable feature tr = (0, - 1, tr @ [Clear_cpu_cap feature])"

text \<open>The structure whose field is set is a local one: nothing is activated.\<close>

definition apic_pm_activate :: "apic_event list \<Rightarrow> apic_event list" where
  "apic_pm_activate tr = (let active = (1 :: u32) in tr)"

text \<open>\<open>inb\<close> gives the \<open>n\<close>-th byte read from the counter's port.\<close>

definition get_8254_timer_count :: "(nat \<Rightarrow> u32) \<Rightarrow> u32 \<Rightarrow> apic_event list \<Rightarrow> u32 \<times> apic_event list" where
  "get_8254_timer_count inb pit_mode tr =
     (let tr = tr @ [Outb_p 0 pit_mode];
          count = inb 0
      in (count OR push_bit 8 (inb 1), tr))"

section \<open>The registers of the local APIC\<close>

text \<open>The register file after some events, when nothing but a write changes a register.\<close>

fun apply_event :: "apic_event \<Rightarrow> (u32 \<Rightarrow> u32) \<Rightarrow> u32 \<Rightarrow> u32" where
  "apply_event (Apic_write r v) f = f(r := v)"
| "apply_event e f = f"

definition regs_after :: "(u32 \<Rightarrow> u32) \<Rightarrow> apic_event list \<Rightarrow> u32 \<Rightarrow> u32" where
  "regs_after f tr = fold apply_event tr f"

lemma regs_after_simps [simp]:
  "regs_after f [] = f"
  "regs_after f (tr @ us) = regs_after (regs_after f tr) us"
  "regs_after f (Apic_write r v # tr) = regs_after (f(r := v)) tr"
  by (simp_all add: regs_after_def)

text \<open>
  C29. On an APIC whose registers change only when they are written (so that a read returns what was
  last written, or what was there at first), with different registers for the timer and the entries
  of the vector table: the writes of \<open>clear_local_APIC\<close>, in order. It stops the timer; when the table
  has three more entries than its first, it overwrites the error entry, whatever was in it, by its
  vector and the mask bit, and does so before it writes any other entry, as the comment in the code
  asks; then it sets the mask bit of the timer's and the two pins' entries and, when there is one, of
  the performance counter's, and keeps the other bits of these. No register but these is changed.
\<close>

theorem clear_local_APIC_masks:
  assumes "\<And>tr r. rd tr r = regs_after f tr r"
    and "distinct [APIC_TMICT C, APIC_LVTERR C, APIC_LVTT C, APIC_LVT0 C, APIC_LVT1 C, APIC_LVTPC C]"
    and "calls = clear_local_APIC rd maxlvt_of C []" and "g = regs_after f calls"
    and "maxlvt = maxlvt_of (f (APIC_LVR C))"
  shows "calls =
      [Apic_write (APIC_TMICT C) 0] @
      (if maxlvt \<ge> 3 then [Apic_write (APIC_LVTERR C) (ERROR_APIC_VECTOR C OR APIC_LVT_MASKED C)] else []) @
      [Apic_write (APIC_LVTT C) (f (APIC_LVTT C) OR APIC_LVT_MASKED C),
       Apic_write (APIC_LVT0 C) (f (APIC_LVT0 C) OR APIC_LVT_MASKED C),
       Apic_write (APIC_LVT1 C) (f (APIC_LVT1 C) OR APIC_LVT_MASKED C)] @
      (if maxlvt \<ge> 4 then [Apic_write (APIC_LVTPC C) (f (APIC_LVTPC C) OR APIC_LVT_MASKED C)] else []) \<and>
    g (APIC_TMICT C) = 0 \<and>
    g (APIC_LVTERR C) =
      (if maxlvt \<ge> 3 then ERROR_APIC_VECTOR C OR APIC_LVT_MASKED C else f (APIC_LVTERR C)) \<and>
    g (APIC_LVTT C) = f (APIC_LVTT C) OR APIC_LVT_MASKED C \<and>
    g (APIC_LVT0 C) = f (APIC_LVT0 C) OR APIC_LVT_MASKED C \<and>
    g (APIC_LVT1 C) = f (APIC_LVT1 C) OR APIC_LVT_MASKED C \<and>
    g (APIC_LVTPC C) =
      (if maxlvt \<ge> 4 then f (APIC_LVTPC C) OR APIC_LVT_MASKED C else f (APIC_LVTPC C)) \<and>
    (\<forall>r. r \<notin> {APIC_TMICT C, APIC_LVTERR C, APIC_LVTT C, APIC_LVT0 C, APIC_LVT1 C, APIC_LVTPC C} \<longrightarrow>
       g r = f r)"
proof -
  have neq: "APIC_TMICT C \<noteq> APIC_LVTERR C" "APIC_TMICT C \<noteq> APIC_LVTT C" "APIC_TMICT C \<noteq> APIC_LVT0 C"
    "APIC_TMICT C \<noteq> APIC_LVT1 C" "APIC_TMICT C \<noteq> APIC_LVTPC C" "APIC_LVTERR C \<noteq> APIC_LVTT C"
    "APIC_LVTERR C \<noteq> APIC_LVT0 C" "APIC_LVTERR C \<noteq> APIC_LVT1 C" "APIC_LVTERR C \<noteq> APIC_LVTPC C"
    "APIC_LVTT C \<noteq> APIC_LVT0 C" "APIC_LVTT C \<noteq> APIC_LVT1 C" "APIC_LVTT C \<noteq> APIC_LVTPC C"
    "APIC_LVT0 C \<noteq> APIC_LVT1 C" "APIC_LVT0 C \<noteq> APIC_LVTPC C" "APIC_LVT1 C \<noteq> APIC_LVTPC C"
    using assms(2) by simp_all
  have calls: "calls =
      [Apic_write (APIC_TMICT C) 0] @
      (if maxlvt \<ge> 3 then [Apic_write (APIC_LVTERR C) (ERROR_APIC_VECTOR C OR APIC_LVT_MASKED C)] else []) @
      [Apic_write (APIC_LVTT C) (f (APIC_LVTT C) OR APIC_LVT_MASKED C),
       Apic_write (APIC_LVT0 C) (f (APIC_LVT0 C) OR APIC_LVT_MASKED C),
       Apic_write (APIC_LVT1 C) (f (APIC_LVT1 C) OR APIC_LVT_MASKED C)] @
      (if maxlvt \<ge> 4 then [Apic_write (APIC_LVTPC C) (f (APIC_LVTPC C) OR APIC_LVT_MASKED C)] else [])"
    unfolding assms(3,5)
    by (simp add: clear_local_APIC_def get_maxlvt_def mask_lvt_def assms(1) neq neq [symmetric] Let_def)
  have g: "g = regs_after f calls" by (rule assms(4))
  show ?thesis
    by (intro conjI, rule calls, unfold g, unfold calls)
      (cases "maxlvt \<ge> 3"; cases "maxlvt \<ge> 4"; simp add: neq neq [symmetric])+
qed

definition apic_example :: apic_consts where
  "apic_example =
     \<lparr>APIC_LVR = 0x30, APIC_TMICT = 0x380, APIC_LVTERR = 0x370, APIC_LVTT = 0x320, APIC_LVT0 = 0x350,
      APIC_LVT1 = 0x360, APIC_LVTPC = 0x340, APIC_ICR = 0x300, APIC_LVT_MASKED = 0x10000,
      ERROR_APIC_VECTOR = 0xfe, APIC_DEST_ALLINC = 0, APIC_INT_LEVELTRIG = 0, APIC_DM_INIT = 0,
      MSR_APIC_BASE = 0x1b, APIC_BASE_EXTD = 0x400, APIC_BASE_ENABLE = 0x800\<rparr>"

theorem clear_local_APIC_masks_witness:
  "regs_after (\<lambda>r. 0x30) (clear_local_APIC (regs_after (\<lambda>r. 0x30)) (\<lambda>v. 3) apic_example []) 0x370 = 0x100fe"
  using clear_local_APIC_masks [of "regs_after (\<lambda>r. 0x30)" "\<lambda>r. 0x30" apic_example _ "\<lambda>v. 3", OF _ _ refl refl refl]
  by (simp add: apic_example_def)

text \<open>
  \<open>sync_Arb_IDs\<close> never sends its message: the test it makes first is a function that always
  returns 1, not the \<open>modern_apic\<close> of the file.
\<close>

theorem sync_Arb_IDs_nothing: "sync_Arb_IDs C tr = tr"
  by (simp add: sync_Arb_IDs_def modern_apicc_def)

text \<open>
  With the literals in memory, \<open>apic_set_verbosity\<close> recognises exactly the two words and returns
  \<open>EINVAL\<close>, not negated, for every other string.
\<close>

theorem apic_set_verbosity_words:
  assumes "cstr_at m debug d" "cstr_at m verbose w" "cstr_at m str s" "einval < 100000"
  shows "apic_set_verbosity m debug verbose einval str = Some
    (if s = d then (0, Debug) else if s = w then (0, Verbose) else (einval, Unchanged))"
proof -
  have "\<exists>r. strcmp m p str = Some r \<and> (r = 0 \<longleftrightarrow> s = t)" if "cstr_at m p t" for p t
    using strcmp_loop_equal [OF that assms(3)] by (auto simp: strcmp_def signed_eq_0_iff)
  from this [OF assms(1)] this [OF assms(2)] show ?thesis
    using assms(4) by (auto simp: apic_set_verbosity_def)
qed

text \<open>Memory with "debug" at 1, "verbose" at 7, and "debug" once more at 15.\<close>

definition words_memory :: mem where
  "words_memory = [0, 100,101,98,117,103,0, 118,101,114,98,111,115,101,0, 100,101,98,117,103,0]"

theorem apic_set_verbosity_words_witness:
  "apic_set_verbosity words_memory 1 7 22 15 = Some (0, Debug) \<and>
   apic_set_verbosity words_memory 1 7 22 2 = Some (22, Unchanged)"
proof -
  have lits: "cstr_at words_memory 1 [100,101,98,117,103]" "cstr_at words_memory 7 [118,101,114,98,111,115,101]"
    "cstr_at words_memory 15 [100,101,98,117,103]" "cstr_at words_memory 2 [101,98,117,103]"
    by (simp_all add: words_memory_def cstr_at_iffs mapped_def)
  show ?thesis
    using apic_set_verbosity_words [OF lits(1,2,3), of 22] apic_set_verbosity_words [OF lits(1,2,4), of 22]
    by simp
qed

text \<open>
  When the port delivers bytes, \<open>get_8254_timer_count\<close> latches the counter and returns the two
  bytes as one 16-bit number, the low byte first.
\<close>

theorem get_8254_timer_count_value:
  assumes "inb 0 < 256" "inb 1 < 256"
  shows "get_8254_timer_count inb pit_mode tr = (inb 0 + 256 * inb 1, tr @ [Outb_p 0 pit_mode]) \<and>
    inb 0 + 256 * inb 1 < 65536"
proof -
  have bits: "\<not> bit (inb 0) n" if "8 \<le> n" for n
  proof -
    have "take_bit 8 (unat (inb 0)) = unat (inb 0)"
      using assms(1) by (simp add: take_bit_nat_eq_self word_less_nat_alt)
    then have "\<not> bit (unat (inb 0)) n" using that by (metis bit_take_bit_iff not_le)
    then show ?thesis by (simp add: bit_unsigned_iff)
  qed
  have "inb 0 AND push_bit 8 (inb 1) = 0"
    by (rule bit_word_eqI) (use bits in \<open>auto simp: bit_simps\<close>)
  then have "inb 0 OR push_bit 8 (inb 1) = inb 0 + push_bit 8 (inb 1)"
    by (simp add: disjunctive_add_eq_or)
  moreover have "push_bit 8 (inb 1) = 256 * inb 1" by (simp add: push_bit_eq_mult)
  moreover have "unat (inb 0 + 256 * inb 1) = unat (inb 0) + 256 * unat (inb 1)"
    using assms by (simp add: word_less_nat_alt unat_word_ariths)
  ultimately show ?thesis
    using assms by (simp add: get_8254_timer_count_def Let_def word_less_nat_alt)
qed

theorem get_8254_timer_count_value_witness:
  "get_8254_timer_count (\<lambda>n. if n = 0 then 0x34 else 0x12) 0x43 [] = (0x1234, [Outb_p 0 0x43])"
  using get_8254_timer_count_value [where inb = "\<lambda>n. if n = 0 then 0x34 else 0x12" and pit_mode = "0x43" and tr = "[]"] by simp

end
