(* ===== verification/Mm.thy ===== *)
theory Mm
  imports C_String
begin

text \<open>
  The parts of mm_verified.c that decide something: taking and dropping references to pages and their
  types, freeing a shared page, and the option \<open>mmio-relax\<close>. Functions that are declared only
  (\<open>get_page_from_mfn\<close>, \<open>mfn_to_page\<close>, \<open>parse_bool\<close>, \<open>test_and_clear_bit\<close>), and \<open>_get_page_type\<close>, whose body
  returns no value, are parameters; \<open>likely\<close> and \<open>unlikely\<close> are the compiler's hints and give back
  their argument. An operation returns the calls it makes that would change a page.
\<close>

section \<open>Data\<close>

datatype mm_call =
    Get_page int
  | Put_page addr
  | Get_type addr u32 int   \<comment> \<open>page, type, preemptible\<close>
  | Put_type addr int       \<comment> \<open>page, preemptible\<close>
  | Put_page_and_type addr
  | Assert_unreachable
  | Set_owner_null addr
  | Free_domheap_page addr
  | Set_tlbflush_timestamp addr

section \<open>Operations\<close>

text \<open>The literal "all" stands at \<open>lit\<close>.\<close>

definition parse_mmio_relax :: "(addr \<Rightarrow> int) \<Rightarrow> mem \<Rightarrow> addr \<Rightarrow> addr \<Rightarrow> int option" where
  "parse_mmio_relax parse_bool m lit s = do {
     c \<leftarrow> load m s;
     let opt_mmio_relax = (if c = 0 then 1 else parse_bool s);
     if opt_mmio_relax < 0 then do {
       r \<leftarrow> strcmp m s lit;
       Some (if r \<noteq> 0 then - EINVAL else 0) }
     else Some 0 }"

text \<open>
  With the statement it guarded commented out, the condition guards the \<open>return\<close>: for a domain that
  is not HVM the function ends without a value.
\<close>

definition domain_get_maximum_gpfn :: "bool \<Rightarrow> u32 \<Rightarrow> u32 option" where
  "domain_get_maximum_gpfn is_hvm max_pfn = (if is_hvm then Some max_pfn else None)"

text \<open>\<open>cur\<close> is the local \<open>current\<close>, read uninitialised.\<close>

definition get_page_and_type_from_mfn ::
    "(int \<Rightarrow> addr) \<Rightarrow> (int \<Rightarrow> int) \<Rightarrow> (addr \<Rightarrow> u32 \<Rightarrow> int \<Rightarrow> int) \<Rightarrow> addr \<Rightarrow> int \<Rightarrow> u32 \<Rightarrow> int \<Rightarrow> int \<Rightarrow>
     int \<times> mm_call list" where
  "get_page_and_type_from_mfn mfn_to_page get_page get_type cur mfn type partial preemptible =
     (let page = mfn_to_page mfn;
          calls = (if partial \<ge> 0 then [Get_page mfn] else [])
      in if partial \<ge> 0 \<and> get_page mfn = 0 then (- EINVAL, calls)
      else
        let rc = get_type page type preemptible;
            calls = calls @ [Get_type page type preemptible];
            calls = (if rc \<noteq> 0 \<and> partial \<ge> 0 \<and> (preemptible = 0 \<or> page \<noteq> cur)
              then calls @ [Put_page page] else calls)
        in (rc, calls))"

text \<open>\<open>allocated\<close> and \<open>xen_heap\<close> are the results of the two calls of \<open>test_and_clear_bit\<close>.\<close>

definition free_shared_domheap_page :: "bool \<Rightarrow> bool \<Rightarrow> addr \<Rightarrow> mm_call list" where
  "free_shared_domheap_page allocated xen_heap page =
     (if allocated then [Put_page page] else []) @
     (if \<not> xen_heap then [Assert_unreachable] else []) @
     [Set_owner_null page, Free_domheap_page page]"

definition shadow_mode_enabled :: int where "shadow_mode_enabled = 1"

definition set_tlbflush_timestamp :: "u32 \<Rightarrow> u32 \<Rightarrow> addr \<Rightarrow> mm_call list" where
  "set_tlbflush_timestamp count_info PGC_page_table page =
     (if count_info AND PGC_page_table = 0 \<or> shadow_mode_enabled = 0
      then [Set_tlbflush_timestamp page] else [])"

definition put_data_page :: "addr \<Rightarrow> bool \<Rightarrow> mm_call list" where
  "put_data_page page writeable = (if writeable then [Put_page_and_type page] else [Put_page page])"

definition put_page_type_core :: "addr \<Rightarrow> int \<Rightarrow> int \<times> mm_call list" where
  "put_page_type_core page preemptible = (0, [Put_type page preemptible])"

definition put_page_type :: "addr \<Rightarrow> mm_call list" where
  "put_page_type page = snd (put_page_type_core page 0)"

definition put_page_type_preemptible :: "addr \<Rightarrow> int \<times> mm_call list" where
  "put_page_type_preemptible page = put_page_type_core page 1"

definition get_page_type :: "(addr \<Rightarrow> u32 \<Rightarrow> int \<Rightarrow> int) \<Rightarrow> addr \<Rightarrow> u32 \<Rightarrow> int \<times> mm_call list" where
  "get_page_type get_type page type =
     (let rc = get_type page type 0 in (if rc = 0 then 1 else 0, [Get_type page type 0]))"

definition get_page_type_preemptible :: "(addr \<Rightarrow> u32 \<Rightarrow> int \<Rightarrow> int) \<Rightarrow> addr \<Rightarrow> u32 \<Rightarrow> int \<times> mm_call list" where
  "get_page_type_preemptible get_type page type = (get_type page type 1, [Get_type page type 1])"

section \<open>References\<close>

text \<open>
  The general and type references to the page \<open>p\<close> that some calls leave behind: taken (when the call
  succeeded) less dropped.
\<close>

fun page_refs :: "(int \<Rightarrow> addr) \<Rightarrow> (int \<Rightarrow> int) \<Rightarrow> addr \<Rightarrow> mm_call list \<Rightarrow> int" where
  "page_refs mfn_to_page get_page p [] = 0"
| "page_refs mfn_to_page get_page p (Get_page mfn # cs) =
     (if get_page mfn \<noteq> 0 \<and> mfn_to_page mfn = p then 1 else 0) + page_refs mfn_to_page get_page p cs"
| "page_refs mfn_to_page get_page p (Put_page q # cs) =
     page_refs mfn_to_page get_page p cs - (if q = p then 1 else 0)"
| "page_refs mfn_to_page get_page p (Put_page_and_type q # cs) =
     page_refs mfn_to_page get_page p cs - (if q = p then 1 else 0)"
| "page_refs mfn_to_page get_page p (c # cs) = page_refs mfn_to_page get_page p cs"

fun type_refs :: "(addr \<Rightarrow> u32 \<Rightarrow> int \<Rightarrow> int) \<Rightarrow> addr \<Rightarrow> mm_call list \<Rightarrow> int" where
  "type_refs get_type p [] = 0"
| "type_refs get_type p (Get_type q t k # cs) =
     (if get_type q t k = 0 \<and> q = p then 1 else 0) + type_refs get_type p cs"
| "type_refs get_type p (Put_type q k # cs) = type_refs get_type p cs - (if q = p then 1 else 0)"
| "type_refs get_type p (Put_page_and_type q # cs) = type_refs get_type p cs - (if q = p then 1 else 0)"
| "type_refs get_type p (c # cs) = type_refs get_type p cs"

lemma refs_append [simp]:
  "page_refs f g p (cs @ ds) = page_refs f g p cs + page_refs f g p ds"
  "type_refs t p (cs @ ds) = type_refs t p cs + type_refs t p ds"
  by (induction f g p cs rule: page_refs.induct) simp_all

lemmas get_page_and_type_cases = get_page_and_type_from_mfn_def Let_def

text \<open>
  C30. The references that \<open>get_page_and_type_from_mfn\<close> leaves, page by page. For an operation that is not resumed
  (\<open>partial\<close> is not negative): success leaves one reference to the page of the frame and one to its
  type; failure leaves none, except that the reference to the page is kept, whatever the
  error, when preemption is allowed and the page is \<open>current\<close>, a local that the code never sets. A
  resumed operation takes and drops no reference to the page, and one to its type when it succeeds.
  No reference to any other page is taken or dropped.
\<close>

theorem get_page_and_type_balanced:
  assumes "get_page_and_type_from_mfn mfn_to_page get_page get_type cur mfn type partial preemptible = (rc, calls)"
  shows "type_refs get_type p calls = (if rc = 0 \<and> p = mfn_to_page mfn then 1 else 0) \<and>
    page_refs mfn_to_page get_page p calls =
      (if partial \<ge> 0 \<and> p = mfn_to_page mfn \<and>
          (rc = 0 \<or> get_page mfn \<noteq> 0 \<and> preemptible \<noteq> 0 \<and> mfn_to_page mfn = cur) then 1 else 0)"
  using assms by (auto simp: get_page_and_type_cases EINVAL_def split: if_splits)

text \<open>The type cannot be had: no reference to page 8, or to page 16, is left.\<close>

theorem get_page_and_type_balanced_witness:
  "\<exists>calls. get_page_and_type_from_mfn (\<lambda>n. 8) (\<lambda>n. 1) (\<lambda>p t k. - 4) 16 2 3 0 1 = (- 4, calls) \<and>
    Put_page 8 \<in> set calls \<and> page_refs (\<lambda>n. 8) (\<lambda>n. 1) 8 calls = 0 \<and> page_refs (\<lambda>n. 8) (\<lambda>n. 1) 16 calls = 0"
proof -
  have run: "get_page_and_type_from_mfn (\<lambda>n. 8) (\<lambda>n. 1) (\<lambda>p t k. - 4) 16 2 3 0 1 =
      (- 4, [Get_page 2, Get_type 8 3 1, Put_page 8])"
    by (simp add: get_page_and_type_cases)
  show ?thesis
    using run get_page_and_type_balanced [OF run, of 8] get_page_and_type_balanced [OF run, of 16] by auto
qed

text \<open>
  What was taken as a writable data page is given back by \<open>put_data_page\<close>: after both, no
  reference to a page or its type is left. Dropping it as a read-only page keeps the type
  reference.
\<close>

theorem data_page_roundtrip:
  assumes "get_page_and_type_from_mfn mfn_to_page get_page get_type cur mfn type partial preemptible = (0, calls)"
    and "partial \<ge> 0"
  shows "page_refs mfn_to_page get_page p (calls @ put_data_page (mfn_to_page mfn) writeable) = 0 \<and>
    type_refs get_type p (calls @ put_data_page (mfn_to_page mfn) writeable) =
      (if writeable \<or> p \<noteq> mfn_to_page mfn then 0 else 1)"
  using assms by (auto simp: get_page_and_type_cases put_data_page_def EINVAL_def split: if_splits)

theorem data_page_roundtrip_witness:
  "type_refs (\<lambda>p t k. 0) 8 ([Get_page 2, Get_type 8 3 0] @ put_data_page 8 True) = 0"
  using data_page_roundtrip [of "\<lambda>n. 8" "\<lambda>n. 1" "\<lambda>p t k. 0" 16 2 3 0 0 "[Get_page 2, Get_type 8 3 0]" 8 True]
  by (simp add: get_page_and_type_cases)

text \<open>
  The option \<open>mmio-relax\<close> is refused exactly when it is neither empty, nor a boolean, nor "all".
\<close>

theorem parse_mmio_relax_refuses:
  assumes "cstr_at m s str" "cstr_at m lit [97, 108, 108]"
  shows "parse_mmio_relax parse_bool m lit s =
    Some (if str \<noteq> [] \<and> parse_bool s < 0 \<and> str \<noteq> [97, 108, 108] then - EINVAL else 0)"
proof -
  obtain r where r: "strcmp m s lit = Some r" "r = 0 \<longleftrightarrow> [97, 108, 108] = str"
    using strcmp_loop_equal [OF assms] by (auto simp: strcmp_def signed_eq_0_iff)
  obtain c where c: "load m s = Some c" "c = 0 \<longleftrightarrow> str = []"
    using assms(1) by (cases str) (auto simp: cstr_at_iffs load_def mapped_def)
  show ?thesis using r c by (auto simp: parse_mmio_relax_def)
qed

theorem parse_mmio_relax_refuses_witness:
  "parse_mmio_relax (\<lambda>s. - 1) [0, 97, 108, 108, 0, 120, 0] 1 5 = Some (- 22)"
  using parse_mmio_relax_refuses [of "[0, 97, 108, 108, 0, 120, 0]" 5 "[120]" 1 "\<lambda>s. - 1"]
  by (simp add: cstr_at_iffs mapped_def EINVAL_def)

text \<open>
  Freeing a shared page drops the reference of its allocation exactly when the page was still
  allocated, clears its owner and gives it back, in this order.
\<close>

theorem free_shared_domheap_page_order:
  "page_refs f get_page page (free_shared_domheap_page allocated xen_heap page) = - of_bool allocated \<and>
   (\<exists>cs. free_shared_domheap_page allocated xen_heap page = cs @ [Set_owner_null page, Free_domheap_page page] \<and>
     set cs \<subseteq> {Put_page page, Assert_unreachable} \<and> (Assert_unreachable \<in> set cs \<longleftrightarrow> \<not> xen_heap))"
  by (auto simp: free_shared_domheap_page_def)

end
