(* ===== verification/Trace.thy ===== *)
theory Trace
  imports Xen_Prelude
begin

text \<open>
  The trace records of trace_verified.c. The file takes an \<open>unsigned long\<close> to have 64 bits
  (\<open>LONG_MAX\<close> is 2^63 - 1), so this theory does. What each function builds is a packed structure: a
  list of fields with their widths in bits, passed to \<open>__trace_var\<close> with an event number. The event
  numbers, the flag \<open>TRC_64_FLAG\<close>, \<open>is_pv_32bit_vcpu(current)\<close> and the ghost variable \<open>eip\<close> are
  parameters.
\<close>

section \<open>Packed structures\<close>

type_synonym field = "nat \<times> nat"  \<comment> \<open>width in bits, value\<close>

definition put :: "nat \<Rightarrow> nat \<Rightarrow> field" where
  "put w v = (w, v mod 2 ^ w)"

fun pack :: "field list \<Rightarrow> nat" where
  "pack [] = 0"
| "pack ((w, v) # fs) = v + 2 ^ w * pack fs"

fun unpack :: "nat list \<Rightarrow> nat \<Rightarrow> nat list" where
  "unpack [] n = []"
| "unpack (w # ws) n = n mod 2 ^ w # unpack ws (n div 2 ^ w)"

text \<open>The size in bytes of a packed structure.\<close>

definition sizeof_fields :: "field list \<Rightarrow> nat" where
  "sizeof_fields fs = (sum_list (map fst fs) + 7) div 8"

definition fields_fit :: "field list \<Rightarrow> bool" where
  "fields_fit fs \<longleftrightarrow> list_all (\<lambda>(w, v). v < 2 ^ w) fs"

lemma put_simps [simp]: "fst (put w v) = w" "snd (put w v) = v mod 2 ^ w"
  by (simp_all add: put_def)

lemma fields_fit_simps [simp]:
  "fields_fit []"
  "fields_fit ((w, v) # fs) \<longleftrightarrow> v < 2 ^ w \<and> fields_fit fs"
  "fields_fit (put w v # fs) \<longleftrightarrow> fields_fit fs"
  by (simp_all add: fields_fit_def put_def)

lemma unpack_pack: "fields_fit fs \<Longrightarrow> unpack (map fst fs) (pack fs) = map snd fs"
proof (induction fs)
  case (Cons f fs)
  then show ?case by (cases f) simp
qed simp

lemma pack_less: "fields_fit fs \<Longrightarrow> pack fs < 2 ^ sum_list (map fst fs)"
proof (induction fs)
  case (Cons f fs)
  obtain w v where f: "f = (w, v)" by (cases f)
  have "v < 2 ^ w" "Suc (pack fs) \<le> 2 ^ sum_list (map fst fs)" using Cons f by auto
  then have "v + 2 ^ w * pack fs < 2 ^ w * Suc (pack fs)" by simp
  also have "\<dots> \<le> 2 ^ w * 2 ^ sum_list (map fst fs)"
    using \<open>Suc (pack fs) \<le> _\<close> by (intro mult_le_mono2)
  finally show ?case by (simp add: f power_add)
qed simp

section \<open>Records\<close>

text \<open>One call of \<open>__trace_var\<close>: the event, whether it carries a time stamp, the size and the data.\<close>

record trace_rec =
  tr_event :: u32
  tr_cycles :: bool
  tr_size :: nat
  tr_data :: nat

definition trace_var :: "u32 \<Rightarrow> field list \<Rightarrow> trace_rec" where
  "trace_var event d = \<lparr>tr_event = event, tr_cycles = True, tr_size = sizeof_fields d, tr_data = pack d\<rparr>"

text \<open>\<open>event |= TRC_64_FLAG\<close>; the flag is an \<open>unsigned long\<close>.\<close>

definition flag_event :: "u64 \<Rightarrow> u32 \<Rightarrow> u32" where
  "flag_event flag event = ucast (ucast event OR flag)"

definition trace_pv_trap :: "bool \<Rightarrow> u32 \<Rightarrow> u64 \<Rightarrow> u16 \<Rightarrow> u64 \<Rightarrow> int \<Rightarrow> u16 \<Rightarrow> trace_rec" where
  "trace_pv_trap is_32bit TRC_PV_TRAP flag trapnr eip use_error_code error_code =
     (if is_32bit then
        trace_var TRC_PV_TRAP
          [put 64 (unat eip), put 16 (unat trapnr), put 1 (of_bool (use_error_code \<noteq> 0)), put 16 (unat error_code)]
      else
        trace_var (flag_event flag TRC_PV_TRAP)
          [put 64 (unat eip), put 16 (unat trapnr), put 1 (of_bool (use_error_code \<noteq> 0)), put 16 (unat error_code)])"

definition trace_pv_page_fault :: "bool \<Rightarrow> u32 \<Rightarrow> u64 \<Rightarrow> u64 \<Rightarrow> u64 \<Rightarrow> u32 \<Rightarrow> trace_rec" where
  "trace_pv_page_fault is_32bit TRC_PV_PAGE_FAULT flag eip adr error_code =
     (if is_32bit then
        trace_var TRC_PV_PAGE_FAULT [put 32 (unat eip), put 32 (unat adr), put 32 (unat error_code)]
      else
        trace_var (flag_event flag TRC_PV_PAGE_FAULT)
          [put 64 (unat eip), put 64 (unat adr), put 32 (unat error_code)])"

definition trace_trap_one_addr :: "bool \<Rightarrow> u64 \<Rightarrow> u32 \<Rightarrow> u64 \<Rightarrow> trace_rec" where
  "trace_trap_one_addr is_32bit flag event va =
     (if is_32bit then trace_var event [put 32 (unat va)]
      else trace_var (flag_event flag event) [put 64 (unat va)])"

definition trace_trap_two_addr :: "bool \<Rightarrow> u64 \<Rightarrow> u32 \<Rightarrow> u64 \<Rightarrow> u64 \<Rightarrow> trace_rec" where
  "trace_trap_two_addr is_32bit flag event va1 va2 =
     (if is_32bit then trace_var event [put 32 (unat va1), put 32 (unat va2)]
      else trace_var (flag_event flag event) [put 64 (unat va1), put 64 (unat va2)])"

definition trace_ptwr_emulation :: "bool \<Rightarrow> u32 \<Rightarrow> u32 \<Rightarrow> u64 \<Rightarrow> u64 \<Rightarrow> u64 \<Rightarrow> u64 \<Rightarrow> trace_rec" where
  "trace_ptwr_emulation is_32bit TRC_PTWR_PAE TRC_PTWR flag eip adr npte =
     (if is_32bit then
        trace_var TRC_PTWR_PAE [put 64 (unat npte), put 32 (unat adr), put 32 (unat eip)]
      else
        trace_var (flag_event flag TRC_PTWR) [put 64 (unat npte), put 64 (unat adr), put 64 (unat eip)])"

section \<open>Reading records back\<close>

text \<open>
  A reader of the trace, which chooses the width of addresses by the flag. \<open>layout\<close> gives the widths
  of a record for a width of addresses.
\<close>

definition read_record :: "u64 \<Rightarrow> (nat \<Rightarrow> nat list) \<Rightarrow> trace_rec \<Rightarrow> nat list" where
  "read_record flag layout r =
     unpack (layout (if ucast (tr_event r) AND flag \<noteq> 0 then 64 else 32)) (tr_data r)"

lemma read_trace_var:
  assumes "fields_fit d" "map fst d = layout (if ucast event AND flag \<noteq> 0 then 64 else 32)"
  shows "read_record flag layout (trace_var event d) = map snd d"
  using unpack_pack [OF assms(1)] by (simp add: read_record_def trace_var_def flip: assms(2))

text \<open>A flag within the event's bits that the event does not use is seen exactly when it was set.\<close>

definition good_flag :: "u64 \<Rightarrow> u32 \<Rightarrow> bool" where
  "good_flag flag event \<longleftrightarrow> flag \<noteq> 0 \<and> take_bit 32 flag = flag \<and> ucast event AND flag = 0"

lemma flag_event_flagged:
  assumes "good_flag flag event"
  shows "ucast (flag_event flag event) AND flag = flag"
proof (rule bit_word_eqI)
  fix n
  assume "n < LENGTH(64)"
  have "bit flag n \<Longrightarrow> n < 32" using assms by (metis good_flag_def bit_take_bit_iff)
  then show "bit (ucast (flag_event flag event) AND flag) n = bit flag n"
    using \<open>n < LENGTH(64)\<close> by (auto simp: flag_event_def bit_simps)
qed

lemma unat_mod [simp]: "unat (w :: u64) mod 18446744073709551616 = unat w" "unat (v :: u32) mod 4294967296 = unat v"
  "unat (h :: u16) mod 65536 = unat h"
proof -
  have "unat w < 2 ^ LENGTH(64)" "unat v < 2 ^ LENGTH(32)" "unat h < 2 ^ LENGTH(16)"
    by (rule unsigned_less)+
  then show "unat w mod 18446744073709551616 = unat w" "unat v mod 4294967296 = unat v"
    "unat h mod 65536 = unat h"
    by simp_all
qed

text \<open>
  What the annotations of \<open>__trace_pv_page_fault\<close> ask of the record it builds. For a 32-bit guest: that
  the two fields of 32 bits equal the 64-bit values assigned to them. For a 64-bit guest: the
  invariants of its structure, with \<open>UNSIGNED_MAX\<close> for the error code and \<open>LONG_MAX\<close> for the addresses.
\<close>

definition UNSIGNED_MAX :: nat where "UNSIGNED_MAX = 65536"
definition LONG_MAX :: nat where "LONG_MAX = 9223372036854775807"

definition page_fault_annotations :: "bool \<Rightarrow> u64 \<Rightarrow> u64 \<Rightarrow> u32 \<Rightarrow> bool" where
  "page_fault_annotations is_32bit eip adr error_code \<longleftrightarrow>
     (if is_32bit then snd (put 32 (unat eip)) = unat eip \<and> snd (put 32 (unat adr)) = unat adr
      else unat error_code \<le> UNSIGNED_MAX \<and> unat eip \<le> LONG_MAX \<and> unat adr \<le> LONG_MAX)"

text \<open>
  C32. What a reader gets back from the record of a page fault, when the flag it chooses the width by
  has its bits among the low 32 and none of them in the event's number. The error code, and for a 64-bit guest
  both addresses whole; for a 32-bit guest their low 32 bits. Where the annotations of the code hold,
  the record is exact. For a 32-bit guest it is exact only there: an address of more than 32 bits
  violates the assertion after its assignment and is cut. For a 64-bit guest the record is exact
  beyond the bounds of the structure's invariants as well.
\<close>

theorem page_fault_roundtrip:
  assumes "good_flag flag event"
  shows "let r = read_record flag (\<lambda>w. [w, w, 32]) (trace_pv_page_fault is_32bit event flag eip adr error_code);
             exact = [unat eip, unat adr, unat error_code]
    in (if is_32bit then r = [unat eip mod 2 ^ 32, unat adr mod 2 ^ 32, unat error_code] else r = exact) \<and>
      (page_fault_annotations is_32bit eip adr error_code \<longrightarrow> r = exact) \<and>
      (is_32bit \<and> \<not> page_fault_annotations is_32bit eip adr error_code \<longrightarrow> r \<noteq> exact)"
  using flag_event_flagged [OF assms] assms
  by (auto simp: trace_pv_page_fault_def read_trace_var good_flag_def page_fault_annotations_def Let_def)

text \<open>An address within 32 bits, and one that is not.\<close>

theorem page_fault_roundtrip_witness:
  "read_record 0x100000 (\<lambda>w. [w, w, 32]) (trace_pv_page_fault True 0x20f005 0x100000 7 9 3) = [7, 9, 3] \<and>
   page_fault_annotations True 7 9 3 \<and>
   read_record 0x100000 (\<lambda>w. [w, w, 32]) (trace_pv_page_fault True 0x20f005 0x100000 7 0x100000009 3) \<noteq>
     [7, 0x100000009, 3]"
  using page_fault_roundtrip [of "0x100000" "0x20f005" True 7 9 3]
    page_fault_roundtrip [of "0x100000" "0x20f005" True 7 "0x100000009" 3]
  by (simp add: good_flag_def page_fault_annotations_def Let_def)

text \<open>
  The same holds of the records of one and two addresses and of an emulated page table write,
  whose entry is always recorded whole.
\<close>

theorem addresses_roundtrip:
  assumes "good_flag flag event"
  shows "read_record flag (\<lambda>w. [w]) (trace_trap_one_addr is_32bit flag event va) =
      [if is_32bit then unat va mod 2 ^ 32 else unat va] \<and>
    read_record flag (\<lambda>w. [w, w]) (trace_trap_two_addr is_32bit flag event va va2) =
      (if is_32bit then [unat va mod 2 ^ 32, unat va2 mod 2 ^ 32] else [unat va, unat va2]) \<and>
    read_record flag (\<lambda>w. [64, w, w]) (trace_ptwr_emulation is_32bit event event flag eip va npte) =
      (if is_32bit then [unat npte, unat va mod 2 ^ 32, unat eip mod 2 ^ 32]
       else [unat npte, unat va, unat eip])"
  using flag_event_flagged [OF assms] assms
  by (simp add: trace_trap_one_addr_def trace_trap_two_addr_def trace_ptwr_emulation_def read_trace_var
      good_flag_def)

theorem addresses_roundtrip_witness:
  "read_record 0x100000 (\<lambda>w. [w, w]) (trace_trap_two_addr True 0x100000 0x20f003 0x500000001 2) = [1, 2]"
  using addresses_roundtrip [of "0x100000" "0x20f003" True "0x500000001" 2] by (simp add: good_flag_def)

text \<open>
  A trap is recorded the same way for both kinds of guest, the whole instruction pointer
  included, and the reader gets every field back; but with 16 bits for the trap number the
  bit-fields take 33 bits, so that the record has 13 bytes where 15 bits would give 12.
\<close>

theorem pv_trap_record:
  "read_record flag (\<lambda>w. [64, 16, 1, 16]) (trace_pv_trap is_32bit event flag trapnr eip use_error_code error_code) =
     [unat eip, unat trapnr, of_bool (use_error_code \<noteq> 0), unat error_code] \<and>
   tr_size (trace_pv_trap is_32bit event flag trapnr eip use_error_code error_code) = 13 \<and>
   sizeof_fields [put 64 (unat eip), put 15 (unat trapnr), put 1 (of_bool (use_error_code \<noteq> 0)),
     put 16 (unat error_code)] = 12"
  by (simp add: trace_pv_trap_def read_trace_var) (simp add: trace_var_def sizeof_fields_def)

text \<open>
  No record is longer than its size says: the data of every call fits in the bytes it announces.
\<close>

theorem trace_data_fits:
  "tr_data r < 256 ^ tr_size r"
  if "r \<in> {trace_pv_trap b ev flag trapnr eip uec ec, trace_pv_page_fault b ev flag eip va ec',
    trace_trap_one_addr b flag ev va, trace_trap_two_addr b flag ev va va2,
    trace_ptwr_emulation b ev ev' flag eip va npte}"
proof -
  have fits: "tr_data (trace_var e d) < 256 ^ tr_size (trace_var e d)" if "fields_fit d" for e d
  proof -
    have "pack d < 2 ^ sum_list (map fst d)" using that by (rule pack_less)
    also have "\<dots> \<le> 2 ^ (8 * sizeof_fields d)" by (intro power_increasing) (simp_all add: sizeof_fields_def)
    also have "\<dots> = 256 ^ sizeof_fields d" by (simp add: power_mult)
    finally show ?thesis by (simp add: trace_var_def)
  qed
  show ?thesis
    using that
    by (auto simp: fits trace_pv_trap_def trace_pv_page_fault_def trace_trap_one_addr_def
        trace_trap_two_addr_def trace_ptwr_emulation_def)
qed

theorem trace_data_fits_witness:
  "tr_data (trace_pv_trap True 1 0x100000 14 0x8000 1 2) < 256 ^ tr_size (trace_pv_trap True 1 0x100000 14 0x8000 1 2)"
  by (rule trace_data_fits) blast

end
