(* ===== verification/Mapcache.thy ===== *)
theory Mapcache
  imports Xen_Prelude
begin

text \<open>
  What mapcache_verified.c computes. Its constants are made for an \<open>unsigned long\<close> of 64 bits (the
  last definition of \<open>MCACHE_MAX_SIZE\<close> is \<open>1UL<<35\<close>), so \<open>hwaddr\<close> has 64 bits here. The mapping itself is
  not in the file: \<open>xen_map_cache_unlocked\<close> ends after it has computed its locals, which are the
  result here. The lock functions count in a local variable that hides the file's \<open>lck\<close>, and
  \<open>xen_map_cache\<close> and \<open>xen_invalidate_map_cache_entry\<close> only call them.
\<close>

section \<open>Constants\<close>

text \<open>The last of the two definitions counts.\<close>

definition MCACHE_BUCKET_SHIFT :: nat where "MCACHE_BUCKET_SHIFT = 20"
definition MCACHE_BUCKET_SIZE :: u64 where "MCACHE_BUCKET_SIZE = push_bit 20 1"
definition XC_PAGE_SIZE :: u64 where "XC_PAGE_SIZE = push_bit 16 1"

lemmas mcache_consts = MCACHE_BUCKET_SHIFT_def MCACHE_BUCKET_SIZE_def XC_PAGE_SIZE_def

section \<open>Operations\<close>

text \<open>The loop of \<open>find_next_zero_bit\<close> counts its passes in a local; the bitmap is not an argument.\<close>

definition find_next_zero_bit :: "u32 \<Rightarrow> u32 \<Rightarrow> u64" where
  "find_next_zero_bit end sz =
     (let cnt = fold (\<lambda>i cnt. cnt + 1) [0..<unat end] (0 :: u32) in push_bit MCACHE_BUCKET_SHIFT 1)"

definition test_bits :: "u64 \<Rightarrow> u64 \<Rightarrow> u32" where
  "test_bits nr sz =
     (let res = find_next_zero_bit (ucast (sz + nr)) (ucast nr) in if res \<ge> nr + sz then 1 else 0)"

text \<open>
  \<open>amd\<close> and \<open>cpu\<close> (vendor and family) are locals that are read uninitialised, \<open>version\<close> what the APIC
  reports. The parameter \<open>res\<close> is returned when no test applies.
\<close>

definition xen_invalidate_map_cache_entry_unlocked :: "u32 \<Rightarrow> u32 \<times> u32 \<Rightarrow> u32 \<Rightarrow> u32 \<Rightarrow> u32" where
  "xen_invalidate_map_cache_entry_unlocked amd cpu version res =
     (if fst cpu = amd \<and> snd cpu \<ge> 0xf then 1
      else if version \<ge> 0x14 then 0 else res)"

text \<open>The locals \<open>address_index\<close>, \<open>address_offset\<close> and \<open>test_bit_size\<close>.\<close>

definition xen_map_cache_unlocked :: "u64 \<Rightarrow> u64 \<Rightarrow> u64 \<times> u64 \<times> u64" where
  "xen_map_cache_unlocked phys_addr sz =
     (let address_index = drop_bit MCACHE_BUCKET_SHIFT phys_addr;
          address_offset = phys_addr AND MCACHE_BUCKET_SIZE;
          test_bit_size =
            (if sz \<noteq> 0 then
               let t = sz + (phys_addr AND (XC_PAGE_SIZE - 1)) in
               if t mod XC_PAGE_SIZE \<noteq> 0 then t + XC_PAGE_SIZE - t mod XC_PAGE_SIZE else t
             else XC_PAGE_SIZE)
      in (address_index, address_offset, test_bit_size))"

text \<open>
  The lock. The state is the file's \<open>lck\<close>; \<open>local\<close> is the variable of the same name that each function
  declares and reads uninitialised, and whose new value is lost when it returns.
\<close>

definition mapcache_lock :: "u32 \<Rightarrow> u32 \<Rightarrow> u32" where
  "mapcache_lock local lck = (let local = local + 1 in lck)"

definition mapcache_unlock :: "u32 \<Rightarrow> u32 \<Rightarrow> u32" where
  "mapcache_unlock local lck = (let local = local - 1 in lck)"

text \<open>\<open>lock\<close> is assigned as a local; the call of \<open>xen_map_cache_unlocked\<close> is commented out.\<close>

definition xen_map_cache :: "u32 \<Rightarrow> u32 \<Rightarrow> u64 \<Rightarrow> u64 \<Rightarrow> addr \<Rightarrow> u32 \<Rightarrow> u32" where
  "xen_map_cache local local' phys_addr sz lock lck = mapcache_unlock local' (mapcache_lock local lck)"

definition xen_invalidate_map_cache_entry :: "u32 \<Rightarrow> u32 \<Rightarrow> addr \<Rightarrow> u32 \<Rightarrow> u32" where
  "xen_invalidate_map_cache_entry local local' buffer lck = mapcache_unlock local' (mapcache_lock local lck)"

text \<open>It sets a field of a local structure.\<close>

definition xen_ram_addr_from_mapcache :: "u32 \<Rightarrow> u32" where
  "xen_ram_addr_from_mapcache lck = (let active = (1 :: u32) in lck)"

text \<open>The declaration before the one above, with three parameters: it maps nothing.\<close>

definition xen_map_cache_unlocked_stub :: "u64 \<Rightarrow> u64 \<Rightarrow> addr \<Rightarrow> addr" where
  "xen_map_cache_unlocked_stub phys_addr sz lock = (let ptr = NULL; lock = ptr in ptr)"

section \<open>What they compute\<close>

text \<open>Whatever the functions do in whatever order, the lock they share is never counted up or down.\<close>

datatype mapcache_op = Lock u32 | Unlock u32 | Map u32 u32 u64 u64 addr | Invalidate u32 u32 addr | Ram_addr

fun mapcache_do :: "mapcache_op \<Rightarrow> u32 \<Rightarrow> u32" where
  "mapcache_do (Lock x) lck = mapcache_lock x lck"
| "mapcache_do (Unlock x) lck = mapcache_unlock x lck"
| "mapcache_do (Map x y p n l) lck = xen_map_cache x y p n l lck"
| "mapcache_do (Invalidate x y b) lck = xen_invalidate_map_cache_entry x y b lck"
| "mapcache_do Ram_addr lck = xen_ram_addr_from_mapcache lck"

theorem mapcache_lock_not_counted:
  "fold mapcache_do ops lck = lck"
proof (induction ops)
  case (Cons op ops)
  moreover have "mapcache_do op lck = lck"
    by (cases op) (simp_all add: mapcache_lock_def mapcache_unlock_def xen_map_cache_def
        xen_invalidate_map_cache_entry_def xen_ram_addr_from_mapcache_def)
  ultimately show ?case by simp
qed simp

lemma and_low: "w AND 0xffff = take_bit 16 w" for w :: u64
proof -
  have "(0xffff :: u64) = mask 16" by (simp add: mask_eq_exp_minus_1)
  then show ?thesis by (simp add: take_bit_eq_mask)
qed

lemma unat_low: "unat (w AND 0xffff) = unat w mod 65536" for w :: u64
  by (simp add: and_low take_bit_eq_mod unat_mod)

lemma round_up_page:
  fixes t :: nat
  assumes "0 < t"
  defines "r \<equiv> if t mod 65536 \<noteq> 0 then t + 65536 - t mod 65536 else t"
  shows "65536 dvd r" "t \<le> r" "r < t + 65536"
proof -
  have "t mod 65536 < 65536" by simp
  then show "t \<le> r" "r < t + 65536" by (auto simp: r_def)
  have "t - t mod 65536 = t div 65536 * 65536" by (rule minus_mod_eq_div_mult)
  then have "t + 65536 - t mod 65536 = (t div 65536 + 1) * 65536"
    using mod_less_eq_dividend [of t 65536] by simp
  then show "65536 dvd r" by (auto simp: r_def dvd_eq_mod_eq_0)
qed

text \<open>
  Where nothing overflows, the size whose pages are tested is the least multiple of the page
  size (65536 in this file) that covers the request from the start of its first page; a request of
  no bytes tests one page.
\<close>

theorem test_bit_size_covers:
  assumes "unat sz + 2 ^ 17 < 2 ^ 64"
  shows "let n = unat (snd (snd (xen_map_cache_unlocked phys_addr sz)));
      need = (if sz = 0 then 1 else unat phys_addr mod 65536 + unat sz) in
    65536 dvd n \<and> need \<le> n \<and> n < need + 65536"
proof (cases "sz = 0")
  case True
  then show ?thesis by (simp add: xen_map_cache_unlocked_def mcache_consts Let_def)
next
  case False
  let ?t = "sz + (phys_addr AND 0xffff)" and ?n = "unat sz + unat phys_addr mod 65536"
  have low: "unat phys_addr mod 65536 < 65536" by simp
  have t: "unat ?t = ?n"
    using assms low by (simp add: unat_word_ariths unat_low)
  have pos: "0 < ?n" using False by (simp add: unat_gt_0)
  have m: "unat (?t mod 65536) = ?n mod 65536" by (simp add: unat_mod t)
  have up: "unat (?t + 65536 - ?t mod 65536) = ?n + 65536 - ?n mod 65536"
  proof -
    have "unat (?t + 65536) = ?n + 65536"
      using assms low t by (simp add: unat_word_ariths(1) [of ?t])
    moreover have "?t mod 65536 \<le> ?t + 65536"
      using m calculation by (simp add: word_le_nat_alt)
    ultimately show ?thesis by (simp add: unat_sub m)
  qed
  have z: "?t mod 65536 \<noteq> 0 \<longleftrightarrow> ?n mod 65536 \<noteq> 0"
    unfolding m [symmetric] by (simp add: unat_eq_0)
  show ?thesis
    using round_up_page [OF pos] False
    by (cases "?n mod 65536 = 0")
      (simp_all add: xen_map_cache_unlocked_def mcache_consts Let_def z up t add.commute [of "unat phys_addr mod _"])
qed

theorem test_bit_size_covers_witness:
  "unat (snd (snd (xen_map_cache_unlocked 0x1ffff 2))) = 131072"
proof -
  have "(n :: nat) = 131072" if "65536 dvd n" "65537 \<le> n" "n < 131073" for n
    using that by (elim dvdE) simp
  then show ?thesis
    using test_bit_size_covers [of 2 "0x1ffff"] by (simp add: Let_def)
qed

lemma and_single_bit: "w AND 2 ^ n = (if bit w n then 2 ^ n else 0)" for w :: u64
  by (rule bit_word_eqI) (auto simp: bit_simps)

text \<open>
  The bucket index and the offset that are computed give the address back exactly when its low
  21 bits are 0: the offset is masked with the size of a bucket, a single bit that is also the
  lowest of the index, where the mask of the bits below it is needed.
\<close>

theorem bucket_offset_wrong:
  "(let (address_index, address_offset, n) = xen_map_cache_unlocked phys_addr sz in
    push_bit MCACHE_BUCKET_SHIFT address_index + address_offset = phys_addr) \<longleftrightarrow>
   unat phys_addr mod 2 ^ 21 = 0"
proof -
  let ?low = "take_bit 20 phys_addr" and ?off = "phys_addr AND 0x100000"
  have off: "?off = (if bit phys_addr 20 then 0x100000 else 0)"
    using and_single_bit [of phys_addr 20] by simp
  have below: "n < 21 \<longleftrightarrow> n < 20 \<or> n = 20" for n :: nat by auto
  have low: "unat ?low = unat phys_addr mod 2 ^ 20" by (simp add: take_bit_eq_mod unat_mod)
  have "push_bit 20 (drop_bit 20 phys_addr) + ?off = phys_addr \<longleftrightarrow> ?off = ?low"
    by (metis add_left_cancel bits_ident)
  also have "\<dots> \<longleftrightarrow> \<not> bit phys_addr 20 \<and> ?low = 0"
    using low unsigned_less [of ?low] by (auto simp: off word_unat_eq_iff)
  also have "\<dots> \<longleftrightarrow> take_bit 21 phys_addr = 0"
    by (auto simp: bit_eq_iff [of "take_bit 21 phys_addr"] bit_eq_iff [of ?low] bit_simps below
        dest: spec [of _ 20])
  also have "\<dots> \<longleftrightarrow> unat phys_addr mod 2 ^ 21 = 0"
    by (simp add: take_bit_eq_mod unat_mod word_unat_eq_iff)
  finally show ?thesis by (simp add: xen_map_cache_unlocked_def mcache_consts Let_def)
qed

end
