(* ===== verification/Time.thy ===== *)
theory Time
  imports Xen_Prelude
begin

text \<open>
  The timer functions of time_verified.c. Almost every variable they share in Xen is a local here
  that is read uninitialised: such a value is a parameter, as are the results of functions that are
  declared only. The calls out of the file are recorded in their order. An \<open>int\<close> is a word of 32
  bits.
\<close>

section \<open>Platform timers\<close>

datatype 'm time_call =
    Outb u32 u32            \<comment> \<open>value, port\<close>
  | Raise_softirq
  | Cpumask_raise_softirq 'm
  | Rcu_read_lock
  | Rcu_read_unlock
  | For_each_domain addr
  | Rtc_update_clock addr
  | Irq_disable
  | Irq_enable
  | Spin_lock
  | Spin_unlock
  | Check_tsc_warp
  | Cpumask_clear nat
  | Cpumask_andnot nat

definition PIT_MODE :: u32 where "PIT_MODE = 0x43"
definition PIT_CH2 :: u32 where "PIT_CH2 = 0x42"

definition read_pit_count :: "u32 \<Rightarrow> u32 \<Rightarrow> (u32 \<Rightarrow> u32) \<Rightarrow> u32" where
  "read_pit_count pit_stamp32 pit_stamp16 inb =
     (let count16 = inb PIT_CH2 in pit_stamp32 + (pit_stamp16 - count16))"

definition resume_pit :: "'m time_call list" where
  "resume_pit = [Outb 0xb0 PIT_MODE, Outb 0 PIT_CH2, Outb 0 PIT_CH2]"

text \<open>The sum binds tighter than the mask.\<close>

definition platform_count :: "u32 \<Rightarrow> u32 \<Rightarrow> u32 \<Rightarrow> u32 \<Rightarrow> u32" where
  "platform_count plt_stamp64 plt_counter plt_stamp plt_mask =
     plt_stamp64 + (plt_counter - plt_stamp) AND plt_mask"

definition read_platform_stime ::
    "(u32 \<Rightarrow> u32) \<Rightarrow> u32 \<Rightarrow> u32 \<Rightarrow> u32 \<Rightarrow> u32 \<Rightarrow> u32 \<times> 'm time_call list" where
  "read_platform_stime stime_of plt_stamp64 plt_counter plt_stamp plt_mask =
     (stime_of (platform_count plt_stamp64 plt_counter plt_stamp plt_mask), [Spin_lock, Spin_unlock])"

definition read_tsc :: "u32 \<Rightarrow> u32" where "read_tsc rdtsc = rdtsc"

definition get_s_time :: "(int \<Rightarrow> u32) \<Rightarrow> u32" where
  "get_s_time get_s_time_fixed = get_s_time_fixed 0"

section \<open>Broadcasting the timer\<close>

text \<open>The operations on CPU masks, which are declared only.\<close>

record 'm cpumask_ops =
  mask_and :: "'m \<Rightarrow> 'm \<Rightarrow> 'm"
  mask_test :: "nat \<Rightarrow> 'm \<Rightarrow> bool"
  mask_clear :: "nat \<Rightarrow> 'm \<Rightarrow> 'm"
  mask_empty :: "'m \<Rightarrow> bool"

definition smp_send_timer_broadcast_ipi ::
    "'m cpumask_ops \<Rightarrow> nat \<Rightarrow> 'm \<Rightarrow> 'm \<Rightarrow> 'm time_call list" where
  "smp_send_timer_broadcast_ipi M cpu online pit_broadcast =
     (let msk = mask_and M online pit_broadcast;
          (msk, calls) = (if mask_test M cpu msk then (mask_clear M cpu msk, [Raise_softirq]) else (msk, []))
      in if \<not> mask_empty M msk then calls @ [Cpumask_raise_softirq msk] else calls)"

text \<open>The loop over the domains is a call with a semicolon, so one pointer \<open>d\<close>, never set, is updated.\<close>

definition update_domain_rtc :: "(addr \<Rightarrow> bool) \<Rightarrow> addr \<Rightarrow> 'm time_call list" where
  "update_domain_rtc is_hvm d =
     [Rcu_read_lock, For_each_domain d] @ (if is_hvm d then [Rtc_update_clock d] else []) @ [Rcu_read_unlock]"

definition update_domain_rtc2 :: "(addr \<Rightarrow> bool) \<Rightarrow> addr \<Rightarrow> 'm time_call list" where
  "update_domain_rtc2 is_hvm d =
     [Rcu_read_lock, For_each_domain d] @ (if is_hvm d then [Rtc_update_clock d] else []) @ [Rcu_read_unlock]"

section \<open>Checking the time stamp counters\<close>

text \<open>\<open>while (!test) cpu_relax()\<close>: \<open>test n\<close> is the result of the \<open>n\<close>-th test; the value is the number of tests that failed.\<close>

partial_function (option) relax_until :: "(nat \<Rightarrow> bool) \<Rightarrow> nat \<Rightarrow> nat option" where
  "relax_until test n = (if test n then Some n else relax_until test (n + 1))"

definition tsc_check_slave :: "nat \<Rightarrow> (nat \<Rightarrow> bool) \<Rightarrow> 'm time_call list option" where
  "tsc_check_slave cpu test = do {
     n \<leftarrow> relax_until test 0;
     Some [Irq_disable, Check_tsc_warp, Cpumask_clear cpu, Irq_enable] }"

definition tsc_check_reliability :: "nat \<Rightarrow> (nat \<Rightarrow> bool) \<Rightarrow> 'm time_call list option" where
  "tsc_check_reliability cpu empty_test = do {
     n \<leftarrow> relax_until empty_test 0;
     Some [Spin_lock, Cpumask_andnot cpu, Irq_disable, Check_tsc_warp, Irq_enable, Spin_unlock] }"

section \<open>Properties\<close>

text \<open>The ticks that passed while a 16-bit counter went down from one value to another.\<close>

definition ticks_passed :: "u32 \<Rightarrow> u32 \<Rightarrow> nat" where
  "ticks_passed from now = (unat from + 65536 - unat now) mod 65536"

lemma small_sum:
  fixes a b :: nat
  assumes "a < 65536" "b < 65536"
  shows "(a + 65536 - b) mod 65536 = (if b \<le> a then a - b else a + 65536 - b)"
proof (cases "b \<le> a")
  case True
  then have "a + 65536 - b = (a - b) + 65536" by simp
  then have "(a + 65536 - b) mod 65536 = (a - b) mod 65536" by (simp only: mod_add_self2)
  with True assms show ?thesis by simp
qed (use assms in simp)

text \<open>
  \<open>read_pit_count\<close> extends the 16-bit counter of the timer to 32 bits only as long as the counter
  has not run through zero since the stamp: then it adds the ticks that passed, otherwise it is
  65536 too low.
\<close>

theorem read_pit_count_ticks:
  assumes "pit_stamp16 < 0x10000" "inb PIT_CH2 < 0x10000"
  shows "read_pit_count pit_stamp32 pit_stamp16 inb =
    pit_stamp32 + of_nat (ticks_passed pit_stamp16 (inb PIT_CH2)) -
      (if inb PIT_CH2 \<le> pit_stamp16 then 0 else 0x10000)"
proof -
  let ?a = "unat pit_stamp16" and ?b = "unat (inb PIT_CH2)"
  have ab: "?a < 65536" "?b < 65536" using assms by (simp_all add: word_less_nat_alt)
  show ?thesis
  proof (cases "?b \<le> ?a")
    case True
    then have "of_nat (ticks_passed pit_stamp16 (inb PIT_CH2)) = pit_stamp16 - inb PIT_CH2"
      using small_sum [OF ab] by (simp add: ticks_passed_def of_nat_diff)
    with True show ?thesis by (simp add: read_pit_count_def word_le_nat_alt)
  next
    case False
    then have "of_nat (ticks_passed pit_stamp16 (inb PIT_CH2)) = pit_stamp16 + 0x10000 - inb PIT_CH2"
      using small_sum [OF ab] ab by (simp add: ticks_passed_def of_nat_diff)
    with False show ?thesis by (simp add: read_pit_count_def word_le_nat_alt)
  qed
qed

theorem read_pit_count_ticks_witness:
  "read_pit_count 100 5 (\<lambda>p. 0xfffb) = 110 - 0x10000"
  using read_pit_count_ticks [of 5 "\<lambda>p. 0xfffb" 100] by (simp add: ticks_passed_def)

lemma take_bit_sum: "take_bit k (a + take_bit k b) = take_bit k (a + b)" for a b :: u32
proof (cases "k < 32")
  case True
  then have "(2 :: nat) ^ k dvd 2 ^ 32" by (intro le_imp_power_dvd) simp
  moreover have "unat (take_bit k w) = unat w mod 2 ^ k" for w :: u32
    by (simp only: unsigned_take_bit_eq) (simp add: take_bit_nat_def)
  ultimately have "unat (take_bit k (a + take_bit k b)) = unat (take_bit k (a + b))"
    by (simp add: unat_word_ariths(1) mod_mod_cancel mod_simps)
  then show ?thesis by (simp add: word_unat_eq_iff)
qed (simp add: take_bit_word_eq_self)

text \<open>
  For a counter of \<open>k\<close> bits, the count \<open>read_platform_stime\<close> converts is the extended count (the
  stamp plus the masked difference) cut down to \<open>k\<close> bits: the mask is applied to the sum, not to the
  difference.
\<close>

theorem platform_count_truncated:
  "platform_count plt_stamp64 plt_counter plt_stamp (mask k) =
   take_bit k (plt_stamp64 + ((plt_counter - plt_stamp) AND mask k))"
  by (simp add: platform_count_def take_bit_sum flip: take_bit_eq_mask)

text \<open>What the documentation of the mask operations promises: they are the operations of sets.\<close>

definition cpumask_laws :: "'m cpumask_ops \<Rightarrow> ('m \<Rightarrow> nat set) \<Rightarrow> bool" where
  "cpumask_laws M cpus \<longleftrightarrow>
     (\<forall>a b. cpus (mask_and M a b) = cpus a \<inter> cpus b) \<and>
     (\<forall>c a. mask_test M c a \<longleftrightarrow> c \<in> cpus a) \<and>
     (\<forall>c a. cpus (mask_clear M c a) = cpus a - {c}) \<and>
     (\<forall>a. mask_empty M a \<longleftrightarrow> cpus a = {})"

fun interrupted :: "nat \<Rightarrow> ('m \<Rightarrow> nat set) \<Rightarrow> 'm time_call \<Rightarrow> nat set" where
  "interrupted cpu cpus Raise_softirq = {cpu}"
| "interrupted cpu cpus (Cpumask_raise_softirq m) = cpus m"
| "interrupted cpu cpus c = {}"

text \<open>
  The broadcast reaches exactly the processors that are online and asked for it, each once: this
  one directly, the others through a mask that does not hold it; and no mask is sent that is empty.
\<close>

theorem broadcast_reaches:
  assumes "cpumask_laws M cpus"
  shows "let calls = smp_send_timer_broadcast_ipi M cpu online pit_broadcast in
    (\<Union>c \<in> set calls. interrupted cpu cpus c) = cpus online \<inter> cpus pit_broadcast \<and>
    (\<forall>m. Cpumask_raise_softirq m \<in> set calls \<longrightarrow> cpu \<notin> cpus m \<and> cpus m \<noteq> {}) \<and>
    distinct calls"
  using assms
  by (auto simp: smp_send_timer_broadcast_ipi_def cpumask_laws_def Let_def split: if_splits)

definition set_masks :: "nat set cpumask_ops" where
  "set_masks = \<lparr>mask_and = (\<inter>), mask_test = (\<in>), mask_clear = (\<lambda>c a. a - {c}), mask_empty = (\<lambda>a. a = {})\<rparr>"

theorem broadcast_reaches_witness:
  "(\<Union>c \<in> set (smp_send_timer_broadcast_ipi set_masks 1 {0, 1, 2} {1, 2, 3}). interrupted 1 id c) = {1, 2}"
  using broadcast_reaches [of set_masks id 1 "{0, 1, 2}" "{1, 2, 3}"]
  by (auto simp: cpumask_laws_def set_masks_def Let_def)

lemma relax_until_found:
  "\<exists>k \<ge> n. test k \<Longrightarrow> relax_until test n = Some (LEAST k. n \<le> k \<and> test k)"
proof -
  assume "\<exists>k \<ge> n. test k"
  then obtain k where k: "n \<le> k" "test k" "\<And>j. n \<le> j \<Longrightarrow> j < k \<Longrightarrow> \<not> test j"
    using exists_least_iff [of "\<lambda>k. n \<le> k \<and> test k"] by blast
  have "relax_until test n = Some k" using k
  proof (induction "k - n" arbitrary: n)
    case 0
    then show ?case by (subst relax_until.simps) simp
  next
    case (Suc d)
    then have "\<not> test n" by simp
    moreover have "relax_until test (n + 1) = Some k" using Suc by simp
    ultimately show ?case by (subst relax_until.simps) simp
  qed
  moreover have "(LEAST k. n \<le> k \<and> test k) = k"
    using k by (intro Least_equality) (auto intro: leI)
  ultimately show ?thesis by simp
qed

lemma relax_until_result: "relax_until test n = Some k \<Longrightarrow> test k"
  by (induction rule: relax_until.raw_induct [rotated, consumes 1, case_names step])
    (auto split: if_splits)

text \<open>
  A processor that takes part in the check of the time stamp counters returns exactly when its
  turn comes, that is when some test of its bit succeeds, and the one that leads the check exactly
  when it finds the mask empty; both then have interrupts enabled again, and the leader has released
  its lock.
\<close>

theorem tsc_checks_return:
  "(tsc_check_slave cpu test =
      (if \<exists>n. test n then Some [Irq_disable, Check_tsc_warp, Cpumask_clear cpu, Irq_enable] else None)) \<and>
   (tsc_check_reliability cpu test =
      (if \<exists>n. test n
       then Some [Spin_lock, Cpumask_andnot cpu, Irq_disable, Check_tsc_warp, Irq_enable, Spin_unlock]
       else None))"
proof (cases "\<exists>n. test n")
  case True
  then have "relax_until test 0 \<noteq> None" using relax_until_found [of 0 test] by auto
  with True show ?thesis by (auto simp: tsc_check_slave_def tsc_check_reliability_def)
next
  case False
  then have "relax_until test 0 = None" using relax_until_result [of test 0] by (cases "relax_until test 0") auto
  with False show ?thesis by (simp add: tsc_check_slave_def tsc_check_reliability_def)
qed

end
