(* ===== verification/Spec2Isabelle.thy ===== *)
theory Spec2Isabelle
  imports C_String Bit_Search Lock Preemption Lock_Interleaving Rlock_Interleaving Lock_Calls Srat Srat_Cover Srat_Domains Srat_Scan Srat_Table Microcode_Amd Microcode_Intel Intel_Request Segment Vm_Event Vm_Event_Life Vm_Event_Local Monitor I8259 I8259_Session Percpu Thread Gdbstub Fpu Apic Mm Trace Mapcache Time
begin

text \<open>
  A model of the C modules in src/, verified. The modules are parts of Xen (and of its Mini-OS) that
  were cut out of their surroundings and annotated for the VCC verifier: each file declares what it
  needs, replaces what it lacks by stubs, and leaves some calls and assignments commented out. The
  theories model the files as they are: annotations, comments and code that is commented out are no
  part of a definition, a stub with a body is modelled by its body, and what a file only declares is
  a parameter. Where the result differs from what the code is meant to do, a theorem says how.

  \<^bold>\<open>The parts and their theories.\<close>
  The modules share no state and call one another only through the string functions.
  \<^item> Xen_Prelude and C_Loops hold what all share: machine words (\<open>u8\<close> to \<open>u64\<close>), the truth of a C
    integer, error numbers; the byte memory with NULL at 0, loads and stores of bytes and
    little-endian words, blocks, copies, strings; arrays whose access out of range is undefined; the
    search loop and the counting loop with their rules.
  \<^item> C_String is string_verified.c up to its bit functions: comparing, copying, filling, searching,
    \<open>strdup\<close>. Its locale \<open>block_compare\<close> is what \<open>strstr\<close> needs of \<open>memcmp\<close>. Bit_Search is \<open>ffs\<close> and its
    relatives; the locale \<open>first_set\<close> is the contract all of them are shown to meet.
  \<^item> Lock is lock_verified.c as one thread sees it. Lock_Interleaving and Rlock_Interleaving are its
    two locks executed statement by statement by any number of threads of one processor. They give the
    statements; Preemption runs them, and its locale \<open>lock_statements\<close> is the contract under which such
    statements exclude each other and refine an atomic lock, which \<open>live_lock\<close> extends to one under
    which no thread is locked out. Two things the file leaves open are parameters there: whether
    \<open>local_irq_save\<close>, an empty stub in the file, masks interrupts, and at which places the scheduler
    preempts a thread when they are not masked. Lock_Calls checks the statements against the
    one-thread functions of Lock.
  \<^item> Srat is srat_verified.c: the table of proximity domains, memory blocks, the ACPI callbacks, the
    SLIT, the check that the nodes cover all RAM, and \<open>acpi_scan_nodes\<close>. Srat_Cover is what that check
    decides, Srat_Domains the invariant of the table and its lookups, Srat_Table the table as a finite
    map and where the lookups run off it, and Srat_Scan what a scan of all nodes establishes.
  \<^item> Microcode_Amd and Microcode_Intel are the loaders of microcode_amd_verified.c and
    intel_verified.c, over the byte memory; Intel_Request is what whole requests of the latter do.
  \<^item> Vm_Event and Segment are vm_event_verified.c: the per-vcpu event structures on a heap, responses
    to events, and the reading and packing of segment registers. Vm_Event_Life composes them: creation,
    any responses on any vcpus, cleanup. Vm_Event_Local gives the specification of a response on one
    vcpu with its event, and its locale \<open>separate_objects\<close> the contract under which interleaved steps on
    a shared heap cannot be told from steps on separate objects; the handlers meet it.
  \<^item> Monitor is monitor_verified.c: the controls of monitored events. Its locale \<open>event_switch\<close> is the
    contract of the cases that switch one field, interpreted on the seven fields of the code; the
    calls that pause the domain are part of the result, and the requests made for a domain from its
    creation on are run in order.
  \<^item> I8259 is irq_verified.c, with a model of the two interrupt controller chips that its port writes
    drive; I8259_Session is what sequences of its operations, acknowledgements and the masking of all
    lines included, do to the lines of the cached mask and to those the hardware masks. Apic is
    apic_verified.c, with the register file its writes drive.
  \<^item> Percpu is percpu_verified.c, with the notifications and RCU callbacks as steps of a system.
  \<^item> Thread is sched_verified.c, Gdbstub the two versions gdbstub_verified.c and gdstub.c, Fpu is
    i387_verified.c and xstate_verified.c, Mm is mm_verified.c, Trace is trace_verified.c, Mapcache is
    mapcache_verified.c and Time is time_verified.c.

  \<^bold>\<open>How the code is read.\<close>
  A struct is a record, an enumeration a datatype, an integer a word of its width (an \<open>int\<close> where the
  code compares it with its sign or its range does not matter); a function is a definition of the
  same name, with the file's variables as a state that is passed and returned. \<open>None\<close> is undefined
  behaviour: an access through NULL or outside an array, a missing return value that is used, or a
  loop that never ends; every error the code reports is a value. An \<open>unsigned long\<close> has 32 bits, as
  VCC takes it, except in Trace and Mapcache, whose files have constants for 64 bits. A local that is
  read uninitialised is a parameter, so a theorem holds whatever it contains. What is called outside
  the files and matters for the order of effects (port writes, frees, softirqs, register writes) is
  recorded as a list of events. Annotations are not part of a definition; where one of them bears on a
  theorem (the assertions of Trace and of Fpu, the bound on the nesting of the recursive lock) it is
  stated there.

  \<^bold>\<open>Loops.\<close>
  Loops over an index are \<open>search\<close> and \<open>for_loop\<close>, or functions with a measure; the loop of
  \<open>nodes_cover_memory\<close> ends because a pass that found something narrows what is left to cover. A loop
  that may not end is a \<open>partial_function\<close> in the option type: waiting for a lock or a mask, walking a
  list, requesting microcode. No definition takes fuel. That such a loop ends is proved where the code
  makes it end (the list loops of Vm_Event, a request for one update), and that it does not where the
  code does not (a request whose file holds more than one update, a lock that is held).

  \<^bold>\<open>What is shown.\<close>
  \<^item> Functional behaviour on every branch: the string and bit functions against list specifications;
    coverage of RAM as inclusion of address sets; the microcode checks as arithmetic of sizes,
    versions and checksums; exactly where the walk over a microcode container stops; the initial stack
    of a thread as words in memory, with an allocator that returns one.
  \<^item> Invariants over all sequences of operations: the domain table, the update buffers, lock
    ownership, live per-CPU areas, the marks of the FPU context; the references to a page, page by
    page, that an operation leaves.
  \<^item> Refinement: any sequence of operations on the interrupt controllers is one on the sets of lines
    of the cached mask and of the hardware, any sequence of registrations one on a finite map from domains to nodes; every
    interleaved run of a lock's statements is a run of a lock with indivisible operations exactly when
    interrupts are masked or no thread is preempted between its test and its store, so with the stub
    of the file only under a scheduler that does not preempt there; interleaved
    responses to monitor events are, for each vCPU, the responses to it in their order; the bit searches
    meet one contract.
  \<^item> Liveness: when the parts of the lock functions between saving and restoring the interrupt flag
    are not interrupted, by masking or by the scheduler, no interleaving of either lock reaches a
    deadlock or locks a thread out, however deep the nesting of the recursive one; the loops that wait
    return exactly when what they wait for happens.
  \<^item> Safety of sequences of calls: a domain's monitor is changed only between a pause and an unpause,
    and a request that fails changes nothing.
  \<^item> Round trips: domain to node and back, vm_event segments, trace records, per-CPU areas, event
    structures created and freed.
  \<^item> Errors: what the code does wrong is a theorem about the same definitions, for all inputs it
    concerns, with a concrete instance (the updates that are read for ever, the switches that are
    never made, the race of the stub of \<open>local_irq_save\<close>, the area freed under a running processor, the
    lookups and registrations that run off the table of domains, the transfers of the FPU context that
    transfer nothing, the thread whose stack is never allocated).

  \<^bold>\<open>Not modelled.\<close>
  Stubs with an empty body that return nothing have nothing to model, and \<open>dec_linear_entries\<close> and
  \<open>dec_linear_uses\<close> of mm_verified.c, with their statement commented out, only read a ghost value into a
  local. Printing is left out. The interleaved locks run on one processor: on several, masking interrupts
  protects nothing, and the code has no other means.
\<close>

end
